(* ===== verification/Go_Prelude.thy ===== *)
theory Go_Prelude
  imports Main "HOL-Library.Multiset" "HOL-Library.Char_ord" "HOL-Library.List_Lexorder"
    "HOL-Library.Product_Lexorder" "HOL-Library.Sublist"
begin

text \<open>
  The parts of the Go language and of its standard library that the program uses, and the lemmas
  on them that every component shares.

  A Go \<^verbatim>\<open>string\<close> or \<^verbatim>\<open>[]byte\<close> is a byte sequence, here \<^typ>\<open>string\<close> (a \<^typ>\<open>char\<close> is a byte).
  A Go \<^verbatim>\<open>int\<close> is 64 bits wide on the supported targets; it is an \<^typ>\<open>int\<close> kept in range by the
  functions that produce it, and \<open>wrap64\<close> is written where the source can overflow.
  A slice is a list (\<^verbatim>\<open>nil\<close> and the empty slice behave alike in everything the program does), a
  \<^verbatim>\<open>map[K]struct{}\<close> is a set, \<^verbatim>\<open>(T, error)\<close> is a sum with \<open>Inl\<close> for the error, and \<^verbatim>\<open>sort.Ints\<close> is
  \<^const>\<open>sort\<close>. \<^verbatim>\<open>sort.Slice\<close> is \<^const>\<open>sort_key\<close>: Go leaves the order of equal keys open, and the
  theorems that could depend on it assume distinct keys.
\<close>

named_theorems go_int \<open>bounds and wrap-around of Go's integers\<close>

section \<open>Integers\<close>

definition maxInt :: int where
  "maxInt = 2 ^ 63 - 1"

definition minInt :: int where
  "minInt = - (2 ^ 63)"

definition int64 :: "int \<Rightarrow> bool" where
  "int64 i \<longleftrightarrow> minInt \<le> i \<and> i \<le> maxInt"

definition wrap64 :: "int \<Rightarrow> int" where
  "wrap64 i = (i + 2 ^ 63) mod 2 ^ 64 - 2 ^ 63"

definition wrap32 :: "int \<Rightarrow> int" where
  "wrap32 i = (i + 2 ^ 31) mod 2 ^ 32 - 2 ^ 31"

declare maxInt_def [go_int] minInt_def [go_int] int64_def [go_int] wrap64_def [go_int] wrap32_def [go_int]

section \<open>Decimal numbers: strconv.Itoa and strconv.Atoi\<close>

function itoa_digits :: "int \<Rightarrow> string" where
  "itoa_digits n =
     (if n < 10 then [char_of (48 + n)] else itoa_digits (n div 10) @ [char_of (48 + n mod 10)])"
  by pat_completeness auto
termination
  by (relation "measure nat") auto

declare itoa_digits.simps [simp del]

definition itoa :: "int \<Rightarrow> string" where
  "itoa i = (if i < 0 then CHR ''-'' # itoa_digits (- i) else itoa_digits i)"

datatype num_error = ErrSyntax | ErrRange

definition is_digit :: "char \<Rightarrow> bool" where
  "is_digit c \<longleftrightarrow> 48 \<le> (of_char c :: int) \<and> (of_char c :: int) \<le> 57"

text \<open>
  The digit loop of \<^verbatim>\<open>strconv.ParseUint\<close> with 64 bits: the range error is reported as soon as the
  prefix read so far does not fit, before the rest of the string is looked at.
\<close>

fun parse_digits :: "int \<Rightarrow> string \<Rightarrow> int \<times> num_error option" where
  "parse_digits n [] = (n, None)"
| "parse_digits n (c # cs) =
     (if is_digit c
      then (let n' = 10 * n + (of_char c - 48)
            in if 2 ^ 64 - 1 < n' then (2 ^ 64 - 1, Some ErrRange) else parse_digits n' cs)
      else (0, Some ErrSyntax))"

text \<open>
  \<^verbatim>\<open>strconv.Atoi\<close>: the value and the error. The value matters even with an error: it is 0 after a
  syntax error and the nearest bound after a range error.
\<close>

definition atoi_digits :: "bool \<Rightarrow> string \<Rightarrow> int \<times> num_error option" where
  "atoi_digits neg ds =
     (if ds = [] then (0, Some ErrSyntax)
      else case parse_digits 0 ds of
        (un, e) \<Rightarrow>
          (if e = Some ErrSyntax then (0, Some ErrSyntax)
           else if \<not> neg \<and> 2 ^ 63 \<le> un then (maxInt, Some ErrRange)
           else if neg \<and> 2 ^ 63 < un then (minInt, Some ErrRange)
           else (if neg then - un else un, None)))"

definition atoi :: "string \<Rightarrow> int \<times> num_error option" where
  "atoi s =
     (case s of
        [] \<Rightarrow> (0, Some ErrSyntax)
      | c # cs \<Rightarrow>
          (if c = CHR ''-'' then atoi_digits True cs
           else if c = CHR ''+'' then atoi_digits False cs
           else atoi_digits False s))"

section \<open>Strings\<close>

text \<open>
  The UTF-8 encodings of the code points \<^verbatim>\<open>unicode.IsSpace\<close> accepts. None of their first bytes
  occurs inside another encoding, so matching whole encodings at a byte position is what decoding
  rune by rune does.
\<close>

definition go_spaces :: "string list" where
  "go_spaces =
     [[CHR 0x09], [CHR 0x0A], [CHR 0x0B], [CHR 0x0C], [CHR 0x0D], [CHR 0x20],
      [CHR 0xC2, CHR 0x85], [CHR 0xC2, CHR 0xA0], [CHR 0xE1, CHR 0x9A, CHR 0x80],
      [CHR 0xE2, CHR 0x80, CHR 0x80], [CHR 0xE2, CHR 0x80, CHR 0x81], [CHR 0xE2, CHR 0x80, CHR 0x82],
      [CHR 0xE2, CHR 0x80, CHR 0x83], [CHR 0xE2, CHR 0x80, CHR 0x84], [CHR 0xE2, CHR 0x80, CHR 0x85],
      [CHR 0xE2, CHR 0x80, CHR 0x86], [CHR 0xE2, CHR 0x80, CHR 0x87], [CHR 0xE2, CHR 0x80, CHR 0x88],
      [CHR 0xE2, CHR 0x80, CHR 0x89], [CHR 0xE2, CHR 0x80, CHR 0x8A], [CHR 0xE2, CHR 0x80, CHR 0xA8],
      [CHR 0xE2, CHR 0x80, CHR 0xA9], [CHR 0xE2, CHR 0x80, CHR 0xAF], [CHR 0xE2, CHR 0x81, CHR 0x9F],
      [CHR 0xE3, CHR 0x80, CHR 0x80]]"

fun strip_one :: "string list \<Rightarrow> string \<Rightarrow> string option" where
  "strip_one [] s = None"
| "strip_one (w # ws) s =
     (if w \<noteq> [] \<and> take (length w) s = w then Some (drop (length w) s) else strip_one ws s)"

lemma strip_one_shorter: "strip_one ws s = Some t \<Longrightarrow> length t < length s"
proof (induction ws)
  case (Cons w ws)
  show ?case
  proof (cases "w \<noteq> [] \<and> take (length w) s = w")
    case True
    then have "length w \<le> length s"
      by (metis length_take min.cobounded1)
    moreover from True have "0 < length w" by simp
    ultimately have "length s - length w < length s" by linarith
    with True Cons.prems show ?thesis by auto
  qed (use Cons in auto)
qed simp

function strip_all :: "string list \<Rightarrow> string \<Rightarrow> string" where
  "strip_all ws s = (case strip_one ws s of None \<Rightarrow> s | Some t \<Rightarrow> strip_all ws t)"
  by pat_completeness auto
termination
  by (relation "measure (\<lambda>(ws, s). length s)") (auto dest: strip_one_shorter)

declare strip_all.simps [simp del]

definition trim_left :: "string \<Rightarrow> string" where
  "trim_left s = strip_all go_spaces s"

definition trim_right :: "string \<Rightarrow> string" where
  "trim_right s = rev (strip_all (map rev go_spaces) (rev s))"

definition trim_space :: "string \<Rightarrow> string" where
  "trim_space s = trim_right (trim_left s)"

text \<open>\<^verbatim>\<open>strings.Split\<close> with a one-byte separator.\<close>

fun split_on :: "char \<Rightarrow> string \<Rightarrow> string list" where
  "split_on c [] = [[]]"
| "split_on c (x # xs) =
     (if x = c then [] # split_on c xs
      else (case split_on c xs of [] \<Rightarrow> [[x]] | w # ws \<Rightarrow> (x # w) # ws))"

text \<open>\<^verbatim>\<open>strings.Cut\<close> with a one-byte separator: before, after, found.\<close>

definition cut :: "char \<Rightarrow> string \<Rightarrow> string \<times> string \<times> bool" where
  "cut c s =
     (if c \<in> set s then (takeWhile (\<lambda>x. x \<noteq> c) s, tl (dropWhile (\<lambda>x. x \<noteq> c) s), True)
      else (s, [], False))"

fun join :: "string \<Rightarrow> string list \<Rightarrow> string" where
  "join sep [] = []"
| "join sep [w] = w"
| "join sep (w # v # vs) = w @ sep @ join sep (v # vs)"

text \<open>\<^verbatim>\<open>strings.Fields\<close>: the maximal runs without white space.\<close>

function fields_from :: "string \<Rightarrow> string \<Rightarrow> string list" where
  "fields_from w s =
     (case strip_one go_spaces s of
        Some t \<Rightarrow> (if w = [] then fields_from [] t else w # fields_from [] t)
      | None \<Rightarrow>
          (case s of [] \<Rightarrow> (if w = [] then [] else [w]) | c # cs \<Rightarrow> fields_from (w @ [c]) cs))"
  by pat_completeness auto
termination
  by (relation "measure (\<lambda>(w, s). length s)") (auto dest: strip_one_shorter)

declare fields_from.simps [simp del]

definition fields :: "string \<Rightarrow> string list" where
  "fields s = fields_from [] s"

definition has_prefix :: "string \<Rightarrow> string \<Rightarrow> bool" where
  "has_prefix s p \<longleftrightarrow> take (length p) s = p"

definition trim_prefix :: "string \<Rightarrow> string \<Rightarrow> string" where
  "trim_prefix s p = (if has_prefix s p then drop (length p) s else s)"

definition trim_suffix :: "string \<Rightarrow> string \<Rightarrow> string" where
  "trim_suffix s p = (if has_prefix (rev s) (rev p) then take (length s - length p) s else s)"

text \<open>\<^verbatim>\<open>strings.ToLower\<close> on the ASCII letters.\<close>

definition ascii_lower :: "char \<Rightarrow> char" where
  "ascii_lower c =
     (if 65 \<le> (of_char c :: int) \<and> (of_char c :: int) \<le> 90 then char_of ((of_char c :: int) + 32) else c)"

text \<open>\<^verbatim>\<open>strings.ReplaceAll\<close> of a one-byte pattern.\<close>

definition replace_all :: "char \<Rightarrow> string \<Rightarrow> string \<Rightarrow> string" where
  "replace_all c w s = concat (map (\<lambda>x. if x = c then w else [x]) s)"

section \<open>The seen-map loop\<close>

text \<open>The first occurrences, in order: the loop over a \<^verbatim>\<open>seen\<close> map that the program writes often.\<close>

fun uniq_loop :: "'a set \<Rightarrow> 'a list \<Rightarrow> 'a list" where
  "uniq_loop seen [] = []"
| "uniq_loop seen (x # xs) =
     (if x \<in> seen then uniq_loop seen xs else x # uniq_loop (insert x seen) xs)"

section \<open>Facts about integers and numbers\<close>

lemma wrap64_id [simp]: "int64 i \<Longrightarrow> wrap64 i = i"
  by (simp add: go_int)

lemma int64_wrap64 [simp]: "int64 (wrap64 i)"
proof -
  have "0 \<le> (i + 2 ^ 63) mod 2 ^ 64" "(i + 2 ^ 63) mod 2 ^ 64 < (2 :: int) ^ 64"
    by simp_all
  then show ?thesis by (simp add: go_int)
qed

lemma wrap64_max [simp]: "wrap64 (maxInt + 1) = minInt"
  by (simp add: go_int)

lemma of_char_nonneg [simp]: "0 \<le> (of_char c :: int)"
  by (metis of_nat_0_le_iff of_nat_of_char)

lemma is_digit_char_of [simp]: "0 \<le> d \<Longrightarrow> d < 10 \<Longrightarrow> is_digit (char_of (48 + d :: int))"
  by (simp add: is_digit_def)

lemma is_digit_not [simp]:
  "\<not> is_digit (CHR ''-'')" "\<not> is_digit (CHR ''+'')" "\<not> is_digit (CHR '','')"
  by (simp_all add: is_digit_def)

lemma itoa_digits_digits: "0 \<le> n \<Longrightarrow> c \<in> set (itoa_digits n) \<Longrightarrow> is_digit c"
proof (induction n rule: itoa_digits.induct)
  case (1 n)
  then show ?case by (cases "n < 10") (auto simp: itoa_digits.simps [of n])
qed

lemma itoa_digits_nonempty [simp]: "itoa_digits n \<noteq> []" "[] \<noteq> itoa_digits n"
  by (subst itoa_digits.simps, simp)+

lemma parse_digits_append:
  "parse_digits n xs = (m, None) \<Longrightarrow> parse_digits n (xs @ ys) = parse_digits m ys"
  by (induction xs arbitrary: n) (auto simp: Let_def split: if_splits)

lemma parse_digits_nonneg: "0 \<le> n \<Longrightarrow> parse_digits n s = (m, e) \<Longrightarrow> 0 \<le> m"
proof (induction s arbitrary: n)
  case (Cons c cs)
  have "0 \<le> 10 * n + (of_char c - 48)" if "is_digit c"
    using that Cons.prems(1) by (simp add: is_digit_def)
  with Cons show ?case by (auto simp: Let_def split: if_splits)
qed simp

lemma parse_digits_itoa:
  assumes "0 \<le> n" and "n < 2 ^ 64"
  shows "parse_digits 0 (itoa_digits n) = (n, None)"
  using assms
proof (induction n rule: itoa_digits.induct)
  case (1 n)
  show ?case
  proof (cases "n < 10")
    case True
    with "1.prems" show ?thesis by (simp add: itoa_digits.simps [of n])
  next
    case False
    with "1.prems" have "parse_digits 0 (itoa_digits (n div 10)) = (n div 10, None)"
      by (intro "1.IH") simp_all
    then have "parse_digits 0 (itoa_digits n) = parse_digits (n div 10) [char_of (48 + n mod 10)]"
      using False by (simp add: itoa_digits.simps [of n] parse_digits_append del: parse_digits.simps)
    also have "\<dots> = (n, None)"
      using "1.prems" by (simp add: Let_def)
    finally show ?thesis .
  qed
qed

lemma hd_itoa_digits: "0 \<le> n \<Longrightarrow> is_digit (hd (itoa_digits n))"
  by (rule itoa_digits_digits [of n]) simp_all

lemma atoi_digit_head:
  assumes "s \<noteq> []" and "is_digit (hd s)"
  shows "atoi s = atoi_digits False s"
  using assms by (cases s) (auto simp: atoi_def)

text \<open>Printing a number and reading it back.\<close>

lemma atoi_itoa:
  assumes "int64 i"
  shows "atoi (itoa i) = (i, None)"
proof (cases "i < 0")
  case True
  with assms have le: "0 \<le> - i" "- i \<le> 2 ^ 63" by (simp_all add: int64_def minInt_def)
  then have "parse_digits 0 (itoa_digits (- i)) = (- i, None)"
    by (intro parse_digits_itoa) simp_all
  with True le show ?thesis
    by (simp add: itoa_def atoi_def atoi_digits_def)
next
  case False
  with assms have lt: "0 \<le> i" "i < 2 ^ 63" by (simp_all add: int64_def maxInt_def)
  then have "parse_digits 0 (itoa_digits i) = (i, None)"
    by (intro parse_digits_itoa) simp_all
  with False lt show ?thesis
    by (simp add: itoa_def atoi_digit_head hd_itoa_digits atoi_digits_def)
qed

lemma atoi_digits_int64: "atoi_digits neg s = (i, e) \<Longrightarrow> int64 i"
  using parse_digits_nonneg [of 0 s]
  by (auto simp: atoi_digits_def go_int split: prod.splits if_splits)

lemma atoi_int64: "atoi s = (i, e) \<Longrightarrow> int64 i"
  using atoi_digits_int64
  by (auto simp: atoi_def int64_def [of 0] minInt_def maxInt_def split: list.splits if_splits)

text \<open>Without a minus sign the value read is not negative.\<close>

lemma atoi_nonneg:
  assumes "CHR ''-'' \<notin> set s" and "atoi s = (i, e)"
  shows "0 \<le> i"
proof -
  have "0 \<le> j" if "atoi_digits False t = (j, e')" for t j e'
    using that parse_digits_nonneg [of 0 t]
    by (auto simp: atoi_digits_def maxInt_def split: prod.splits if_splits)
  with assms show ?thesis
    by (auto simp: atoi_def split: list.splits if_splits)
qed

lemma itoa_nonneg_digits: "0 \<le> i \<Longrightarrow> c \<in> set (itoa i) \<Longrightarrow> is_digit c"
  by (auto simp: itoa_def dest: itoa_digits_digits)

lemma itoa_nonempty [simp]: "itoa i \<noteq> []" "[] \<noteq> itoa i"
  by (simp_all add: itoa_def)

section \<open>Facts about strings\<close>

lemma split_on_nonempty [simp]: "split_on c s \<noteq> []"
  by (induction s) (auto split: list.splits)

lemma split_on_append:
  "c \<notin> set w \<Longrightarrow> split_on c (w @ c # s) = w # split_on c s"
  by (induction w) auto

lemma split_on_none: "c \<notin> set w \<Longrightarrow> split_on c w = [w]"
  by (induction w) auto

lemma split_on_join:
  "ws \<noteq> [] \<Longrightarrow> (\<And>w. w \<in> set ws \<Longrightarrow> c \<notin> set w) \<Longrightarrow> split_on c (join [c] ws) = ws"
proof (induction ws rule: induct_list012)
  case (3 w v vs)
  then show ?case by (simp add: split_on_append)
qed (simp_all add: split_on_none)

lemma split_on_pieces: "w \<in> set (split_on c s) \<Longrightarrow> set w \<subseteq> set s"
proof (induction s arbitrary: w)
  case (Cons x xs)
  obtain v vs where s: "split_on c xs = v # vs" by (cases "split_on c xs") auto
  then have sub: "set v \<subseteq> set xs" "\<And>u. u \<in> set vs \<Longrightarrow> set u \<subseteq> set xs" using Cons.IH by auto
  show ?case using s Cons.prems sub by (cases "x = c") (auto dest: subsetD)
qed simp

lemma join_eq_Nil: "sep \<noteq> [] \<Longrightarrow> join sep ws = [] \<longleftrightarrow> ws = [] \<or> ws = [[]]"
  by (induction sep ws rule: join.induct) auto

lemma set_join: "set (join sep ws) \<subseteq> set sep \<union> (\<Union>w \<in> set ws. set w)"
  by (induction sep ws rule: join.induct) auto

lemma join_snoc:
  "ws \<noteq> [] \<Longrightarrow> join sep (ws @ [w]) = join sep ws @ sep @ w"
  by (induction ws rule: induct_list012) auto

lemma cut_append [simp]:
  "c \<notin> set a \<Longrightarrow> cut c (a @ c # b) = (a, b, True)"
  by (induction a) (auto simp: cut_def)

text \<open>White space begins with one of a few bytes; a string free of them is its own trim.\<close>

definition plain_char :: "char \<Rightarrow> bool" where
  "plain_char c \<longleftrightarrow> 33 \<le> (of_char c :: int) \<and> (of_char c :: int) < 128"

lemma strip_one_none:
  "(\<And>w. w \<in> set ws \<Longrightarrow> w \<noteq> [] \<Longrightarrow> s = [] \<or> hd w \<noteq> hd s) \<Longrightarrow> strip_one ws s = None"
proof (induction ws)
  case (Cons w ws)
  have "\<not> (w \<noteq> [] \<and> take (length w) s = w)"
  proof
    assume *: "w \<noteq> [] \<and> take (length w) s = w"
    then have "s \<noteq> []" by auto
    moreover from * this have "hd w = hd s"
      by (metis hd_take length_greater_0_conv)
    ultimately show False using Cons.prems [of w] * by auto
  qed
  with Cons show ?case by auto
qed simp

lemma space_heads:
  "w \<in> set go_spaces \<Longrightarrow> \<not> plain_char (hd w)"
  "w \<in> set (map rev go_spaces) \<Longrightarrow> \<not> plain_char (hd w)"
  by (auto simp: go_spaces_def plain_char_def)

lemma strip_all_plain:
  assumes "s = [] \<or> plain_char (hd s)"
  shows "strip_all go_spaces s = s" and "strip_all (map rev go_spaces) s = s"
proof -
  have "strip_one go_spaces s = None" "strip_one (map rev go_spaces) s = None"
    using assms by (intro strip_one_none; metis space_heads)+
  then show "strip_all go_spaces s = s" "strip_all (map rev go_spaces) s = s"
    by (simp_all add: strip_all.simps [of _ s])
qed

lemma trim_space_plain:
  assumes "s = [] \<or> plain_char (hd s) \<and> plain_char (last s)"
  shows "trim_space s = s"
proof -
  have "strip_all go_spaces s = s" using assms by (intro strip_all_plain) auto
  moreover have "strip_all (map rev go_spaces) (rev s) = rev s"
    using assms by (intro strip_all_plain) (auto simp: hd_rev)
  ultimately show ?thesis by (simp add: trim_space_def trim_left_def trim_right_def)
qed

lemma trim_space_all_plain: "(\<And>c. c \<in> set s \<Longrightarrow> plain_char c) \<Longrightarrow> trim_space s = s"
  by (rule trim_space_plain) auto

lemma strip_one_suffix: "strip_one ws s = Some t \<Longrightarrow> suffix t s"
  by (induction ws) (auto simp: suffix_drop split: if_splits)

lemma strip_all_suffix: "suffix (strip_all ws s) s"
proof (induction ws s rule: strip_all.induct)
  case (1 ws s)
  then show ?case
    by (auto simp: strip_all.simps [of ws s] split: option.split dest: strip_one_suffix
        intro: suffix_order.trans)
qed

lemma set_trim_space: "set (trim_space s) \<subseteq> set s"
proof -
  have "set (strip_all ws t) \<subseteq> set t" for ws t
    by (rule set_mono_suffix) (rule strip_all_suffix)
  from this [of "map rev go_spaces" "rev (trim_left s)"] this [of go_spaces s] show ?thesis
    by (auto simp: trim_space_def trim_left_def trim_right_def)
qed

lemma plain_char_digit [simp]: "is_digit c \<Longrightarrow> plain_char c"
  by (simp add: is_digit_def plain_char_def)

lemma plain_char_punct [simp]: "plain_char (CHR ''-'')" "plain_char (CHR '','')"
  by (simp_all add: plain_char_def)

section \<open>Facts about the seen-map loop\<close>

lemma set_uniq_loop [simp]: "set (uniq_loop seen xs) = set xs - seen"
  by (induction xs arbitrary: seen) auto

lemma distinct_uniq_loop [simp]: "distinct (uniq_loop seen xs)"
  by (induction xs arbitrary: seen) auto

lemma uniq_loop_id: "distinct xs \<Longrightarrow> set xs \<inter> seen = {} \<Longrightarrow> uniq_loop seen xs = xs"
  by (induction xs arbitrary: seen) auto

lemma sort_uniq_loop: "sort (uniq_loop {} xs) = sorted_list_of_set (set (xs :: 'a :: linorder list))"
  by (rule sorted_distinct_set_unique) simp_all

lemma strict_sorted_uniq: "sorted_wrt (<) (sort (uniq_loop {} (xs :: 'a :: linorder list)))"
  by (simp add: strict_sorted_iff)

section \<open>Facts about lists\<close>

lemma sort_key_Nil_iff [simp]: "sort_key f xs = [] \<longleftrightarrow> xs = []"
  by (metis length_0_conv length_sort)

lemma distinct_concat_map:
  "distinct ks \<Longrightarrow> \<forall>k \<in> set ks. distinct (f k) \<Longrightarrow> \<forall>k \<in> set ks. \<forall>l \<in> set ks. k \<noteq> l \<longrightarrow> set (f k) \<inter> set (f l) = {} \<Longrightarrow>
     distinct (concat (map f ks))"
  by (induction ks) auto

lemma map_sort_key: "map f (sort_key f xs) = sort (map f xs)"
  by (rule properties_for_sort [symmetric]) (simp_all add: multiset.map_comp [symmetric] mset_sort)

lemma map_sort_key_comp: "map f (sort_key (\<lambda>x. g (f x)) xs) = sort_key g (map f xs)"
proof -
  have "map f (insort_key (\<lambda>x. g (f x)) x xs) = insort_key g (f x) (map f xs)" for x xs by (induction xs) auto
  then show ?thesis by (induction xs) (auto simp: sort_key_def)
qed

lemma distinct_concat_mset:
  assumes "mset xs = mset ys"
  shows "distinct (concat (map f xs)) \<longleftrightarrow> distinct (concat (map f ys))"
proof -
  have "mset (concat (map f zs)) = sum_mset (image_mset (mset \<circ> f) (mset zs))" for zs
    by (induction zs) auto
  with assms show ?thesis by (metis mset_eq_imp_distinct_iff)
qed

text \<open>Grouping a list by a key and listing the groups loses and repeats nothing.\<close>

lemma mset_concat_map: "mset (concat (map f xs)) = (\<Sum>x \<leftarrow> xs. mset (f x))"
  by (induction xs) auto

lemma sum_groups_absent: "(\<forall>k \<in> set ks. k \<noteq> f x) \<Longrightarrow> (\<Sum>k \<leftarrow> ks. mset (filter (\<lambda>y. f y = k) (x # xs))) = (\<Sum>k \<leftarrow> ks. mset (filter (\<lambda>y. f y = k) xs))"
  by (induction ks) auto

lemma sum_groups_one:
  "distinct ks \<Longrightarrow> f x \<in> set ks \<Longrightarrow>
     (\<Sum>k \<leftarrow> ks. mset (filter (\<lambda>y. f y = k) (x # xs))) = add_mset x (\<Sum>k \<leftarrow> ks. mset (filter (\<lambda>y. f y = k) xs))"
proof (induction ks)
  case (Cons k ks)
  then show ?case using sum_groups_absent [of ks f x xs] by (cases "k = f x") auto
qed simp

lemma mset_groups:
  "distinct ks \<Longrightarrow> f ` set xs \<subseteq> set ks \<Longrightarrow> mset (concat (map (\<lambda>k. filter (\<lambda>x. f x = k) xs) ks)) = mset xs"
proof (induction xs)
  case Nil
  then show ?case by (simp add: mset_concat_map)
next
  case (Cons x xs)
  then show ?case using sum_groups_one [of ks f x xs] by (simp add: mset_concat_map del: filter.simps)
qed

lemma length_concat_ge: "x \<in> set xs \<Longrightarrow> length (f x) \<le> length (concat (map f xs))"
  by (induction xs) auto

section \<open>Sums over result types\<close>

definition is_ok :: "'e + 'a \<Rightarrow> bool" where
  "is_ok r \<longleftrightarrow> (case r of Inl _ \<Rightarrow> False | Inr _ \<Rightarrow> True)"

lemma is_ok_simps [simp]: "\<not> is_ok (Inl e)" "is_ok (Inr a)"
  by (simp_all add: is_ok_def)

lemma is_ok_iff: "is_ok r \<longleftrightarrow> (\<exists>a. r = Inr a)"
  by (cases r) auto

end
