(* ===== verification/Dag.thy ===== *)
theory Dag
  imports Go_Prelude "HOL-Library.AList"
begin

text \<open>
  Pipelines: their data and \<^verbatim>\<open>Validate\<close> (pkg/dag/spec.go), loading (pkg/dag/load.go) and Kahn's algorithm
  \<^verbatim>\<open>TopoOrder\<close> (pkg/dag/graph.go).

  A Go map is an association list. Go leaves the order in which \<^verbatim>\<open>range\<close> visits a map open: the order
  in which \<^verbatim>\<open>TopoOrder\<close> first visits \<^verbatim>\<open>inDeg\<close> is an argument of the model, and the theorems hold for every
  order that lists the keys once. The locale \<open>topo_sorter\<close> states what the users of an ordering rely on.
\<close>

section \<open>Model: spec.go\<close>

record Node =
  nd_ID :: string
  Cmd :: "string list"
  nd_CPUs :: int
  nd_NUMANode :: "int option"
  DependsOn :: "string list"

record Pipeline =
  pl_Name :: string
  pl_Nodes :: "Node list"

datatype dag_error =
    NilPipeline
  | NameRequired
  | NodeWithoutID
  | DuplicateNode string
  | EmptyCmd string
  | UnknownDependency string string
  | CycleOrUnresolved

fun validate_nodes :: "string set \<Rightarrow> Node list \<Rightarrow> dag_error + string set" where
  "validate_nodes ids [] = Inr ids"
| "validate_nodes ids (n # ns) =
     (if trim_space (nd_ID n) = [] then Inl NodeWithoutID
      else if nd_ID n \<in> ids then Inl (DuplicateNode (nd_ID n))
      else if Cmd n = [] then Inl (EmptyCmd (nd_ID n))
      else validate_nodes (insert (nd_ID n) ids) ns)"

fun validate_node_deps :: "string set \<Rightarrow> string \<Rightarrow> string list \<Rightarrow> dag_error + unit" where
  "validate_node_deps ids nid [] = Inr ()"
| "validate_node_deps ids nid (d # ds) =
     (if d \<notin> ids then Inl (UnknownDependency nid d) else validate_node_deps ids nid ds)"

fun validate_deps :: "string set \<Rightarrow> Node list \<Rightarrow> dag_error + unit" where
  "validate_deps ids [] = Inr ()"
| "validate_deps ids (n # ns) =
     (case validate_node_deps ids (nd_ID n) (DependsOn n) of
        Inl e \<Rightarrow> Inl e
      | Inr _ \<Rightarrow> validate_deps ids ns)"

definition Validate :: "Pipeline option \<Rightarrow> dag_error + unit" where
  "Validate p =
     (case p of
        None \<Rightarrow> Inl NilPipeline
      | Some p \<Rightarrow>
          if trim_space (pl_Name p) = [] then Inl NameRequired
          else (case validate_nodes {} (pl_Nodes p) of
                  Inl e \<Rightarrow> Inl e
                | Inr ids \<Rightarrow> validate_deps ids (pl_Nodes p)))"

section \<open>Model: load.go\<close>

text \<open>
  Reading the file and decoding YAML (package gopkg.in/yaml.v3, not part of the repository) are the
  arguments \<^verbatim>\<open>readFile\<close> and \<^verbatim>\<open>yamlUnmarshal\<close>.
\<close>

datatype 'e load_error = ReadFailed 'e | YamlFailed 'e | Invalid dag_error

definition LoadFile ::
  "(string \<Rightarrow> 'e + string) \<Rightarrow> (string \<Rightarrow> 'e + Pipeline) \<Rightarrow> string \<Rightarrow> 'e load_error + Pipeline" where
  "LoadFile readFile yamlUnmarshal path =
     (case readFile path of
        Inl e \<Rightarrow> Inl (ReadFailed e)
      | Inr raw \<Rightarrow>
          (case yamlUnmarshal raw of
             Inl e \<Rightarrow> Inl (YamlFailed e)
           | Inr doc \<Rightarrow>
               (case Validate (Some doc) of Inl e \<Rightarrow> Inl (Invalid e) | Inr _ \<Rightarrow> Inr doc)))"

section \<open>Model: graph.go\<close>

text \<open>Reading a map that has no entry for the key gives Go's zero value.\<close>

definition deg_of :: "(string \<times> int) list \<Rightarrow> string \<Rightarrow> int" where
  "deg_of m k = (case map_of m k of Some v \<Rightarrow> v | None \<Rightarrow> 0)"

definition zero_node :: Node where
  "zero_node = \<lparr>nd_ID = [], Cmd = [], nd_CPUs = 0, nd_NUMANode = None, DependsOn = []\<rparr>"

definition node_of :: "(string \<times> Node) list \<Rightarrow> string \<Rightarrow> Node" where
  "node_of m k = (case map_of m k of Some n \<Rightarrow> n | None \<Rightarrow> zero_node)"

definition index_nodes :: "Node list \<Rightarrow> (string \<times> Node) list" where
  "index_nodes nodes = fold (\<lambda>n m. AList.update (nd_ID n) n m) nodes []"

definition zero_degrees :: "Node list \<Rightarrow> (string \<times> int) list" where
  "zero_degrees nodes =
     fold (\<lambda>n m. if map_of m (nd_ID n) = None then AList.update (nd_ID n) 0 m else m) nodes []"

text \<open>The second loop: every dependency adds an edge and raises the in-degree of its node.\<close>

fun add_deps ::
  "string \<Rightarrow> string list \<Rightarrow> (string \<Rightarrow> string list) \<times> (string \<times> int) list \<Rightarrow>
   (string \<Rightarrow> string list) \<times> (string \<times> int) list" where
  "add_deps nid [] st = st"
| "add_deps nid (d # ds) (edges, deg) =
     add_deps nid ds (edges(d := edges d @ [nid]), AList.update nid (deg_of deg nid + 1) deg)"

definition link_nodes ::
  "Node list \<Rightarrow> (string \<Rightarrow> string list) \<times> (string \<times> int) list" where
  "link_nodes nodes =
     fold (\<lambda>n st. add_deps (nd_ID n) (DependsOn n) st) nodes (\<lambda>_. [], zero_degrees nodes)"

text \<open>The loop over the successors of a finished node.\<close>

fun relax ::
  "string list \<Rightarrow> (string \<times> int) list \<Rightarrow> string list \<Rightarrow> (string \<times> int) list \<times> string list" where
  "relax [] deg q = (deg, q)"
| "relax (succ # succs) deg q =
     (let deg' = AList.update succ (deg_of deg succ - 1) deg in
      relax succs deg' (if deg_of deg' succ = 0 then q @ [succ] else q))"

definition deg_sum :: "(string \<times> int) list \<Rightarrow> nat" where
  "deg_sum m = sum_list (map (\<lambda>(k, v). nat v) m)"

lemma deg_sum_decrease:
  "deg_sum (AList.update k (deg_of m k - 1) m) + (if 0 < deg_of m k then 1 else 0) = deg_sum m"
proof (induction m)
  case (Cons p m)
  obtain k' v where p: "p = (k', v)" by fastforce
  show ?case
  proof (cases "k' = k")
    case True
    then show ?thesis by (auto simp: deg_sum_def deg_of_def p nat_diff_distrib)
  next
    case False
    then have "deg_of (p # m) k = deg_of m k" by (simp add: deg_of_def p)
    with Cons.IH False show ?thesis by (simp add: deg_sum_def p split: if_splits)
  qed
qed (simp add: deg_sum_def deg_of_def)

lemma relax_measure:
  "relax succs deg q = (deg', q') \<Longrightarrow> deg_sum deg' + length q' \<le> deg_sum deg + length q"
proof (induction succs arbitrary: deg q)
  case (Cons s ss)
  let ?deg1 = "AList.update s (deg_of deg s - 1) deg"
  let ?q1 = "if deg_of ?deg1 s = 0 then q @ [s] else q"
  have "deg_sum deg' + length q' \<le> deg_sum ?deg1 + length ?q1"
    using Cons.prems by (intro Cons.IH) (simp add: Let_def)
  also have "\<dots> \<le> deg_sum deg + length q"
    using deg_sum_decrease [of s deg] by (auto simp: deg_of_def update_conv' split: if_splits)
  finally show ?case .
qed simp

function kahn ::
  "(string \<times> Node) list \<Rightarrow> (string \<Rightarrow> string list) \<Rightarrow> (string \<times> int) list \<Rightarrow> string list \<Rightarrow>
   Node list \<Rightarrow> Node list" where
  "kahn byID edges deg [] ordered = ordered"
| "kahn byID edges deg (i # q) ordered =
     (case relax (edges i) deg q of
        (deg', q') \<Rightarrow> kahn byID edges deg' q' (ordered @ [node_of byID i]))"
  by pat_completeness auto
termination
  by (relation "measure (\<lambda>(byID, edges, deg, q, ordered). deg_sum deg + length q)")
    (auto, metis le_imp_less_Suc relax_measure)

definition TopoOrder :: "string list \<Rightarrow> Node list \<Rightarrow> dag_error + Node list" where
  "TopoOrder visit nodes =
     (let byID = index_nodes nodes;
          (edges, deg) = link_nodes nodes;
          q = filter (\<lambda>i. deg_of deg i = 0) visit;
          ordered = kahn byID edges deg q []
      in if length ordered \<noteq> length nodes then Inl CycleOrUnresolved else Inr ordered)"

section \<open>Specification vocabulary\<close>

definition node_ids :: "Node list \<Rightarrow> string set" where
  "node_ids nodes = nd_ID ` set nodes"

text \<open>An order in which \<^verbatim>\<open>range inDeg\<close> may visit the map: every id once.\<close>

definition visit_order :: "string list \<Rightarrow> Node list \<Rightarrow> bool" where
  "visit_order visit nodes \<longleftrightarrow> distinct visit \<and> set visit = node_ids nodes"

definition deps_closed :: "Node list \<Rightarrow> bool" where
  "deps_closed nodes \<longleftrightarrow> (\<forall>n \<in> set nodes. set (DependsOn n) \<subseteq> node_ids nodes)"

definition dep_rel :: "Node list \<Rightarrow> (string \<times> string) set" where
  "dep_rel nodes = {(d, nd_ID n) | d n. n \<in> set nodes \<and> d \<in> set (DependsOn n)}"

text \<open>Every dependency of a node occurs earlier in the list.\<close>

definition respects_deps :: "Node list \<Rightarrow> bool" where
  "respects_deps ord \<longleftrightarrow>
     (\<forall>i < length ord. \<forall>d \<in> set (DependsOn (ord ! i)). \<exists>j < i. nd_ID (ord ! j) = d)"

definition deps_of :: "Node list \<Rightarrow> string \<Rightarrow> string list" where
  "deps_of nodes i = concat (map DependsOn (filter (\<lambda>n. nd_ID n = i) nodes))"

section \<open>Validation\<close>

lemma validate_nodes_iff:
  "validate_nodes ids ns = Inr ids' \<longleftrightarrow>
     (\<forall>n \<in> set ns. trim_space (nd_ID n) \<noteq> [] \<and> Cmd n \<noteq> []) \<and> distinct (map nd_ID ns) \<and>
     node_ids ns \<inter> ids = {} \<and> ids' = ids \<union> node_ids ns"
  by (induction ns arbitrary: ids) (auto simp: node_ids_def)

lemma validate_node_deps_iff: "validate_node_deps ids nid ds = Inr u \<longleftrightarrow> set ds \<subseteq> ids"
  by (induction ds) auto

lemma validate_deps_iff:
  "validate_deps ids ns = Inr u \<longleftrightarrow> (\<forall>n \<in> set ns. set (DependsOn n) \<subseteq> ids)"
proof (induction ns)
  case (Cons n ns)
  then show ?case
    using validate_node_deps_iff [of ids "nd_ID n" "DependsOn n"]
    by (cases "validate_node_deps ids (nd_ID n) (DependsOn n)") auto
qed simp

lemma Validate_accepts:
  "Validate (Some p) = Inr () \<longleftrightarrow>
     trim_space (pl_Name p) \<noteq> [] \<and>
     (\<forall>n \<in> set (pl_Nodes p). trim_space (nd_ID n) \<noteq> [] \<and> Cmd n \<noteq> []) \<and>
     distinct (map nd_ID (pl_Nodes p)) \<and> deps_closed (pl_Nodes p)"
proof (cases "validate_nodes {} (pl_Nodes p)")
  case (Inl e)
  then show ?thesis
    using validate_nodes_iff [of "{}" "pl_Nodes p" "node_ids (pl_Nodes p)"] by (auto simp: Validate_def)
next
  case (Inr ids)
  then have "Validate (Some p) = Inr () \<longleftrightarrow>
      trim_space (pl_Name p) \<noteq> [] \<and> (\<forall>n \<in> set (pl_Nodes p). set (DependsOn n) \<subseteq> ids)"
    by (simp add: Validate_def validate_deps_iff)
  with Inr show ?thesis by (auto simp: validate_nodes_iff deps_closed_def)
qed

text \<open>
  \<^verbatim>\<open>Validate\<close> accepts a pipeline exactly when its name is not blank, every node has an id that is not
  blank and a command, no two nodes share an id, and every dependency names a node of the pipeline.
  It does not look for cycles.
\<close>

theorem Validate_iff:
  "Validate (Some p) = Inr () \<longleftrightarrow>
     trim_space (pl_Name p) \<noteq> [] \<and>
     (\<forall>n \<in> set (pl_Nodes p). trim_space (nd_ID n) \<noteq> [] \<and> Cmd n \<noteq> []) \<and>
     distinct (map nd_ID (pl_Nodes p)) \<and> deps_closed (pl_Nodes p)"
  by (rule Validate_accepts)

section \<open>The tables TopoOrder builds\<close>

lemma deg_of_update [simp]:
  "deg_of (AList.update k v m) i = (if i = k then v else deg_of m i)"
  by (simp add: deg_of_def update_conv')

lemma index_nodes_lookup:
  assumes "distinct (map nd_ID nodes)" and "n \<in> set nodes"
  shows "node_of (index_nodes nodes) (nd_ID n) = n"
proof -
  have gen: "map_of (fold (\<lambda>n m. AList.update (nd_ID n) n m) ns m) i =
      (case find (\<lambda>n. nd_ID n = i) ns of Some n \<Rightarrow> Some n | None \<Rightarrow> map_of m i)"
    if "distinct (map nd_ID ns)" for ns m i
    using that
  proof (induction ns arbitrary: m)
    case (Cons a ns)
    then have IH: "map_of (fold (\<lambda>n m. AList.update (nd_ID n) n m) ns (AList.update (nd_ID a) a m)) i =
        (case find (\<lambda>n. nd_ID n = i) ns of Some n \<Rightarrow> Some n | None \<Rightarrow> map_of (AList.update (nd_ID a) a m) i)"
      by simp
    have "find (\<lambda>n. nd_ID n = i) ns = None" if "nd_ID a = i"
      using Cons.prems that by (auto simp: find_None_iff image_iff)
    with IH show ?case by (auto simp: update_conv' split: option.splits)
  qed simp
  have "find (\<lambda>m. nd_ID m = nd_ID n) nodes = Some n"
    using assms by (induction nodes) (auto simp: rev_image_eqI)
  then show ?thesis using gen [OF assms(1), of "[]" "nd_ID n"] by (simp add: node_of_def index_nodes_def)
qed

lemma zero_degrees_zero: "deg_of (zero_degrees nodes) i = 0"
proof -
  have "deg_of (fold (\<lambda>n m. if map_of m (nd_ID n) = None then AList.update (nd_ID n) 0 m else m) ns m) i = 0"
    if "\<And>i. deg_of m i = 0" for ns m
    using that by (induction ns arbitrary: m) auto
  from this [of "[]" nodes] show ?thesis by (simp add: zero_degrees_def) (simp add: deg_of_def)
qed

lemma add_deps_spec:
  assumes "add_deps nid ds (edges, deg) = (edges', deg')"
  shows "count_list (edges' d) i = count_list (edges d) i + (if i = nid then count_list ds d else 0)"
    and "deg_of deg' i = deg_of deg i + (if i = nid then int (length ds) else 0)"
  using assms by (induction ds arbitrary: edges deg) auto

lemma link_nodes_spec:
  assumes "link_nodes nodes = (edges, deg)"
  shows "count_list (edges d) i = count_list (deps_of nodes i) d"
    and "deg_of deg i = int (length (deps_of nodes i))"
proof -
  have gen: "count_list (e' d) i = count_list (e d) i + count_list (deps_of ns i) d \<and>
      deg_of g' i = deg_of g i + int (length (deps_of ns i))"
    if "fold (\<lambda>n st. add_deps (nd_ID n) (DependsOn n) st) ns (e, g) = (e', g')" for ns e g e' g'
    using that
  proof (induction ns arbitrary: e g)
    case (Cons n ns)
    obtain e1 g1 where s: "add_deps (nd_ID n) (DependsOn n) (e, g) = (e1, g1)" by fastforce
    with Cons.prems have f: "fold (\<lambda>n st. add_deps (nd_ID n) (DependsOn n) st) ns (e1, g1) = (e', g')"
      by simp
    show ?case using Cons.IH [OF f] add_deps_spec(1) [OF s, of d i] add_deps_spec(2) [OF s, of i] by (auto simp: deps_of_def)
  qed (auto simp: deps_of_def)
  from assms have "fold (\<lambda>n st. add_deps (nd_ID n) (DependsOn n) st) nodes
      (\<lambda>_. [], zero_degrees nodes) = (edges, deg)"
    by (simp add: link_nodes_def)
  from gen [OF this] show "count_list (edges d) i = count_list (deps_of nodes i) d"
    "deg_of deg i = int (length (deps_of nodes i))"
    by (simp_all add: zero_degrees_zero)
qed

lemma deps_of_ids: "deps_of nodes i \<noteq> [] \<Longrightarrow> i \<in> node_ids nodes"
  by (force simp: deps_of_def node_ids_def)

lemma deps_of_node:
  assumes "n \<in> set nodes"
  shows "set (DependsOn n) \<subseteq> set (deps_of nodes (nd_ID n))"
  using assms by (auto simp: deps_of_def)

section \<open>The loop\<close>

lemma relax_spec:
  assumes "relax ss deg q = (deg', q')"
  shows "deg_of deg' i = deg_of deg i - int (count_list ss i)"
    and "\<exists>new. q' = q @ new \<and> distinct new \<and>
      set new = {i \<in> set ss. 1 \<le> deg_of deg i \<and> deg_of deg i \<le> int (count_list ss i)}"
proof -
  show "deg_of deg' i = deg_of deg i - int (count_list ss i)"
    using assms by (induction ss arbitrary: deg q) (auto simp: Let_def)
  show "\<exists>new. q' = q @ new \<and> distinct new \<and>
      set new = {i \<in> set ss. 1 \<le> deg_of deg i \<and> deg_of deg i \<le> int (count_list ss i)}"
    using assms
  proof (induction ss arbitrary: deg q)
    case (Cons s ss)
    let ?deg1 = "AList.update s (deg_of deg s - 1) deg"
    let ?add = "if deg_of deg s = 1 then [s] else []"
    have "relax ss ?deg1 (q @ ?add) = (deg', q')" using Cons.prems by (auto simp: Let_def split: if_splits)
    from Cons.IH [OF this] obtain new where
      new: "q' = (q @ ?add) @ new" "distinct new"
        "set new = {i \<in> set ss. 1 \<le> deg_of ?deg1 i \<and> deg_of ?deg1 i \<le> int (count_list ss i)}"
      by blast
    have "s \<in> set ss" if "2 \<le> deg_of deg s" "deg_of deg s \<le> int (count_list ss s) + 1"
      using that count_notin [of s ss] by fastforce
    then have "set (?add @ new) =
        {i \<in> set (s # ss). 1 \<le> deg_of deg i \<and> deg_of deg i \<le> int (count_list (s # ss) i)}"
      unfolding set_append new(3) by (auto split: if_splits)
    moreover have "distinct (?add @ new)" using new(2,3) by auto
    ultimately show ?case using new(1) by (intro exI [of _ "?add @ new"]) simp
  qed simp
qed

text \<open>
  The invariant of the loop. \<open>fin\<close> lists the ids already ordered: together with the queue they are
  distinct ids of the graph, the in-degree of an id counts its dependencies that are not in \<open>fin\<close>, it is
  zero exactly for the ids in \<open>fin\<close> and in the queue, and the dependencies of each id in \<open>fin\<close> come
  earlier in it.
\<close>

definition kahn_inv :: "Node list \<Rightarrow> (string \<times> int) list \<Rightarrow> string list \<Rightarrow> string list \<Rightarrow> bool" where
  "kahn_inv nodes deg fin q \<longleftrightarrow>
     distinct (fin @ q) \<and> set (fin @ q) \<subseteq> node_ids nodes \<and>
     (\<forall>i. deg_of deg i = int (length (filter (\<lambda>d. d \<notin> set fin) (deps_of nodes i)))) \<and>
     (\<forall>i \<in> node_ids nodes. deg_of deg i = 0 \<longleftrightarrow> i \<in> set (fin @ q)) \<and>
     (\<forall>k < length fin. set (deps_of nodes (fin ! k)) \<subseteq> set (take k fin))"

lemma filter_snoc_length:
  "x \<notin> A \<Longrightarrow> length (filter (\<lambda>d. d \<notin> A) ds) = length (filter (\<lambda>d. d \<notin> insert x A) ds) + count_list ds x"
  by (induction ds) auto

lemma kahn_inv_step:
  assumes inv: "kahn_inv nodes deg fin (i # q)" and link: "link_nodes nodes = (edges, deg0)"
    and rel: "relax (edges i) deg q = (deg', q')"
  shows "kahn_inv nodes deg' (fin @ [i]) q'"
proof -
  let ?un = "\<lambda>A j. int (length (filter (\<lambda>d. d \<notin> A) (deps_of nodes j)))"
  have i: "i \<notin> set fin" "i \<in> node_ids nodes" and deg: "\<And>j. deg_of deg j = ?un (set fin) j"
    and zero: "\<And>j. j \<in> node_ids nodes \<Longrightarrow> deg_of deg j = 0 \<longleftrightarrow> j \<in> set (fin @ i # q)"
    using inv by (auto simp: kahn_inv_def)
  have cnt: "count_list (edges i) j = count_list (deps_of nodes j) i" for j
    by (rule link_nodes_spec(1) [OF link])
  have deg': "deg_of deg' j = ?un (insert i (set fin)) j" for j
    using relax_spec(1) [OF rel, of j] filter_snoc_length [OF i(1), of "deps_of nodes j"] deg [of j] cnt
    by simp
  obtain new where new: "q' = q @ new" "distinct new"
    "set new = {j \<in> set (edges i). 1 \<le> deg_of deg j \<and> deg_of deg j \<le> int (count_list (edges i) j)}"
    using relax_spec(2) [OF rel] by blast
  have edge_ids: "j \<in> node_ids nodes" if "j \<in> set (edges i)" for j
    using that cnt [of j] deps_of_ids [of nodes j] by (metis count_list.simps(1) count_list_0_iff)
  have new_zero: "j \<in> set new \<longleftrightarrow> 1 \<le> deg_of deg j \<and> deg_of deg' j = 0" for j
  proof -
    have "0 \<le> deg_of deg' j" by (simp add: deg')
    then show ?thesis
      using relax_spec(1) [OF rel, of j] new(3) count_list_0_iff [of "edges i" j] by force
  qed
  have "deg_of deg j = 0" if "j \<in> set (fin @ i # q)" for j
    using that zero [of j] inv unfolding kahn_inv_def by blast
  then have fresh: "set new \<inter> set (fin @ i # q) = {}"
    using new_zero by (metis disjoint_iff not_one_le_zero)
  have le: "deg_of deg' j \<le> deg_of deg j" and nonneg: "0 \<le> deg_of deg j" "0 \<le> deg_of deg' j" for j
    using relax_spec(1) [OF rel, of j] by (simp_all add: deg deg')
  have zero': "deg_of deg' j = 0 \<longleftrightarrow> j \<in> set (fin @ [i] @ q @ new)" if "j \<in> node_ids nodes" for j
    using zero [OF that] new_zero [of j] le [of j] nonneg [of j] by auto
  have "set (deps_of nodes i) \<subseteq> set fin"
    using zero [OF i(2)] deg [of i] by (auto simp: filter_empty_conv)
  then have pre: "set (deps_of nodes ((fin @ [i]) ! k)) \<subseteq> set (take k (fin @ [i]))"
    if "k < Suc (length fin)" for k
    using that inv by (auto simp: kahn_inv_def nth_append less_Suc_eq)
  have "distinct ((fin @ [i]) @ q')" using inv new(1,2) fresh by (auto simp: kahn_inv_def)
  moreover have "set ((fin @ [i]) @ q') \<subseteq> node_ids nodes"
    using inv new(1,3) edge_ids by (auto simp: kahn_inv_def)
  ultimately show ?thesis
    using deg' zero' pre new(1) by (simp add: kahn_inv_def)
qed

lemma kahn_result:
  assumes "kahn_inv nodes deg fin q" and "link_nodes nodes = (edges, deg0)"
    and "ordered = map (node_of byID) fin"
  shows "\<exists>fin' deg'. kahn byID edges deg q ordered = map (node_of byID) fin' \<and> kahn_inv nodes deg' fin' []"
  using assms
proof (induction byID edges deg q ordered arbitrary: fin rule: kahn.induct)
  case (1 byID edges deg ordered)
  then show ?case by auto
next
  case (2 byID edges deg i q ordered)
  obtain deg' q' where rel: "relax (edges i) deg q = (deg', q')" by fastforce
  have "kahn_inv nodes deg' (fin @ [i]) q'"
    by (rule kahn_inv_step [OF "2.prems"(1,2) rel])
  then show ?case
    using "2.IH" [OF rel [symmetric], of "fin @ [i]"] "2.prems"(2,3) rel by simp
qed

lemma kahn_inv_init:
  assumes "link_nodes nodes = (edges, deg)" and "visit_order visit nodes"
  shows "kahn_inv nodes deg [] (filter (\<lambda>i. deg_of deg i = 0) visit)"
  using assms(2) link_nodes_spec(2) [OF assms(1)] by (auto simp: kahn_inv_def visit_order_def)

text \<open>What \<^verbatim>\<open>TopoOrder\<close> computes before its final length check.\<close>

lemma TopoOrder_run:
  assumes "visit_order visit nodes"
  obtains fin deg where "kahn_inv nodes deg fin []"
    and "TopoOrder visit nodes =
      (if length fin \<noteq> length nodes then Inl CycleOrUnresolved
       else Inr (map (node_of (index_nodes nodes)) fin))"
proof -
  obtain edges deg where link: "link_nodes nodes = (edges, deg)" by fastforce
  have "\<exists>fin deg'. kahn (index_nodes nodes) edges deg (filter (\<lambda>i. deg_of deg i = 0) visit) [] =
      map (node_of (index_nodes nodes)) fin \<and> kahn_inv nodes deg' fin []"
    by (rule kahn_result [OF kahn_inv_init [OF link assms] link]) simp
  then show ?thesis using that link by (auto simp: TopoOrder_def Let_def)
qed

section \<open>Correctness of TopoOrder\<close>

lemma kahn_inv_full:
  assumes inv: "kahn_inv nodes deg fin []" and len: "length fin = length nodes"
  shows "distinct (map nd_ID nodes)" and "set fin = node_ids nodes"
proof -
  have d: "distinct fin" "set fin \<subseteq> node_ids nodes" using inv by (auto simp: kahn_inv_def)
  have "card (set fin) = length nodes" using d(1) len by (simp add: distinct_card)
  moreover have "card (set fin) \<le> card (node_ids nodes)"
    using d(2) by (intro card_mono) (auto simp: node_ids_def)
  moreover have "card (node_ids nodes) \<le> length nodes"
    by (metis card_length length_map list.set_map node_ids_def)
  ultimately have eq: "card (node_ids nodes) = length nodes" "card (set fin) = card (node_ids nodes)"
    by auto
  from eq(1) show "distinct (map nd_ID nodes)"
    by (intro card_distinct) (simp add: node_ids_def)
  from eq(2) d(2) show "set fin = node_ids nodes"
    by (intro card_subset_eq) (auto simp: node_ids_def)
qed

lemma TopoOrder_ok:
  assumes vo: "visit_order visit nodes" and ok: "TopoOrder visit nodes = Inr ord"
  shows "distinct (map nd_ID nodes)" and "mset ord = mset nodes" and "respects_deps ord"
proof -
  let ?at = "node_of (index_nodes nodes)"
  obtain fin deg where inv: "kahn_inv nodes deg fin []" and ord: "ord = map ?at fin"
    and len: "length fin = length nodes"
    using TopoOrder_run [OF vo] ok by (metis Inl_Inr_False Inr_inject)
  note full = kahn_inv_full [OF inv len]
  show dist: "distinct (map nd_ID nodes)" by (rule full(1))
  have id_at: "?at i \<in> set nodes \<and> nd_ID (?at i) = i" if "i \<in> node_ids nodes" for i
    using that index_nodes_lookup [OF dist] by (auto simp: node_ids_def)
  have ids: "map nd_ID ord = fin"
    using id_at full(2) by (auto simp: ord intro!: map_idI)
  have set_ord: "set ord = set nodes"
    using index_nodes_lookup [OF dist] full(2) by (force simp: ord node_ids_def)
  have "distinct fin" using inv by (simp add: kahn_inv_def)
  then have "distinct ord" using ids by (metis distinct_map)
  moreover have "distinct nodes" using dist by (simp add: distinct_map)
  ultimately show "mset ord = mset nodes" using set_ord by (simp add: set_eq_iff_mset_eq_distinct)
  show "respects_deps ord"
    unfolding respects_deps_def
  proof (intro allI impI ballI)
    fix k d
    assume k: "k < length ord" and d: "d \<in> set (DependsOn (ord ! k))"
    have "ord ! k \<in> set nodes" using k set_ord by (metis nth_mem)
    then have "d \<in> set (deps_of nodes (nd_ID (ord ! k)))" using d deps_of_node by blast
    moreover have "nd_ID (ord ! k) = fin ! k" using k ids by (metis nth_map)
    ultimately have "d \<in> set (take k fin)"
      using inv k by (auto simp: kahn_inv_def ord)
    then obtain j where "j < k" "j < length fin" "fin ! j = d" by (auto simp: in_set_conv_nth)
    then show "\<exists>j < k. nd_ID (ord ! j) = d" using ids k by (metis length_map nth_map)
  qed
qed

lemma respects_deps_closed:
  assumes "respects_deps ord"
  shows "deps_closed ord"
  unfolding deps_closed_def
proof (intro ballI subsetI)
  fix n d assume "n \<in> set ord" "d \<in> set (DependsOn n)"
  then obtain k where k: "k < length ord" "ord ! k = n" by (auto simp: in_set_conv_nth)
  then obtain j where "j < k" "nd_ID (ord ! j) = d"
    using assms \<open>d \<in> _\<close> by (auto simp: respects_deps_def)
  then show "d \<in> node_ids ord" using k by (force simp: node_ids_def)
qed

lemma respects_deps_acyclic:
  assumes "respects_deps ord" and "distinct (map nd_ID ord)"
  shows "acyclic (dep_rel ord)"
proof -
  define pos where "pos i = (THE k. k < length ord \<and> nd_ID (ord ! k) = i)" for i
  have pos: "pos (nd_ID (ord ! k)) = k" if "k < length ord" for k
    unfolding pos_def using that assms(2)
    by (intro the_equality) (simp, metis length_map nth_eq_iff_index_eq nth_map)
  have "pos d < pos i" if "(d, i) \<in> dep_rel ord" for d i
  proof -
    from that obtain k where k: "k < length ord" "i = nd_ID (ord ! k)" "d \<in> set (DependsOn (ord ! k))"
      by (auto simp: dep_rel_def in_set_conv_nth)
    then obtain j where "j < k" "nd_ID (ord ! j) = d" using assms(1) by (auto simp: respects_deps_def)
    with k pos show ?thesis by (metis less_trans)
  qed
  then have "dep_rel ord \<subseteq> measure pos" by auto
  then show ?thesis by (meson wf_acyclic wf_measure wf_subset)
qed

lemma dep_rel_finite: "finite (dep_rel nodes)"
proof -
  have "dep_rel nodes \<subseteq> (\<Union>n \<in> set nodes. set (DependsOn n) \<times> {nd_ID n})"
    by (auto simp: dep_rel_def)
  then show ?thesis by (rule finite_subset) auto
qed

lemma deps_of_rel: "d \<in> set (deps_of nodes i) \<Longrightarrow> (d, i) \<in> dep_rel nodes"
  by (auto simp: deps_of_def dep_rel_def)

text \<open>On an acyclic graph whose dependencies are all present no node is left over.\<close>

lemma kahn_inv_complete:
  assumes inv: "kahn_inv nodes deg fin []" and closed: "deps_closed nodes"
    and acyc: "acyclic (dep_rel nodes)"
  shows "set fin = node_ids nodes"
proof (rule ccontr)
  assume "set fin \<noteq> node_ids nodes"
  then obtain r where r: "r \<in> node_ids nodes - set fin" using inv by (auto simp: kahn_inv_def)
  have "wf (dep_rel nodes)" using acyc dep_rel_finite by (rule finite_acyclic_wf [rotated])
  from wfE_min [OF this r] obtain m where m: "m \<in> node_ids nodes - set fin"
    and least: "\<And>d. (d, m) \<in> dep_rel nodes \<Longrightarrow> d \<notin> node_ids nodes - set fin" by blast
  have "deg_of deg m \<noteq> 0" using inv m by (auto simp: kahn_inv_def)
  then have "filter (\<lambda>d. d \<notin> set fin) (deps_of nodes m) \<noteq> []"
    using inv by (auto simp: kahn_inv_def)
  then obtain d where d: "d \<in> set (deps_of nodes m)" "d \<notin> set fin"
    by (metis filter_empty_conv)
  then have "d \<in> node_ids nodes" using closed by (auto simp: deps_of_def deps_closed_def)
  then show False using least [OF deps_of_rel [OF d(1)]] d(2) by blast
qed

lemma TopoOrder_complete:
  assumes vo: "visit_order visit nodes" and dist: "distinct (map nd_ID nodes)"
    and closed: "deps_closed nodes" and acyc: "acyclic (dep_rel nodes)"
  shows "\<exists>ord. TopoOrder visit nodes = Inr ord"
proof -
  obtain fin deg where inv: "kahn_inv nodes deg fin []"
    and run: "TopoOrder visit nodes = (if length fin \<noteq> length nodes then Inl CycleOrUnresolved
       else Inr (map (node_of (index_nodes nodes)) fin))"
    by (rule TopoOrder_run [OF vo])
  have "set fin = node_ids nodes" by (rule kahn_inv_complete [OF inv closed acyc])
  then have "length fin = card (node_ids nodes)"
    using inv by (metis append_Nil2 distinct_card kahn_inv_def)
  also have "\<dots> = length nodes" using dist by (metis distinct_card length_map list.set_map node_ids_def)
  finally show ?thesis using run by simp
qed

lemma dep_rel_cong: "set xs = set ys \<Longrightarrow> dep_rel xs = dep_rel ys"
  by (simp add: dep_rel_def)

lemma deps_closed_cong: "set xs = set ys \<Longrightarrow> deps_closed xs = deps_closed ys"
  by (simp add: deps_closed_def node_ids_def)

section \<open>The contract of a topological sorter\<close>

text \<open>
  What the pipeline runner and the coordinator rely on: an accepted graph comes back as a
  permutation in which dependencies come first, and exactly the graphs with unique ids, resolved
  dependencies and no cycle are accepted.
\<close>

locale topo_sorter =
  fixes sorter :: "string list \<Rightarrow> Node list \<Rightarrow> 'e + Node list"
  assumes sorter_mset: "visit_order v nodes \<Longrightarrow> sorter v nodes = Inr ord \<Longrightarrow> mset ord = mset nodes"
    and sorter_deps: "visit_order v nodes \<Longrightarrow> sorter v nodes = Inr ord \<Longrightarrow> respects_deps ord"
    and sorter_distinct: "visit_order v nodes \<Longrightarrow> sorter v nodes = Inr ord \<Longrightarrow> distinct (map nd_ID nodes)"
    and sorter_accepts: "visit_order v nodes \<Longrightarrow> distinct (map nd_ID nodes) \<Longrightarrow> deps_closed nodes \<Longrightarrow>
      acyclic (dep_rel nodes) \<Longrightarrow> \<exists>ord. sorter v nodes = Inr ord"
begin

lemma sorter_set:
  "visit_order v nodes \<Longrightarrow> sorter v nodes = Inr ord \<Longrightarrow> set ord = set nodes"
  using sorter_mset by (metis set_mset_mset)

lemma sorter_distinct_ids:
  assumes "visit_order v nodes" and "sorter v nodes = Inr ord"
  shows "distinct (map nd_ID ord)"
  using sorter_mset [OF assms] sorter_distinct [OF assms] by (metis mset_eq_imp_distinct_iff mset_map)

lemma sorter_closed:
  assumes "visit_order v nodes" and "sorter v nodes = Inr ord"
  shows "deps_closed nodes"
  using respects_deps_closed [OF sorter_deps [OF assms]] deps_closed_cong [OF sorter_set [OF assms]]
  by simp

lemma sorter_acyclic:
  assumes "visit_order v nodes" and "sorter v nodes = Inr ord"
  shows "acyclic (dep_rel nodes)"
  using respects_deps_acyclic [OF sorter_deps [OF assms] sorter_distinct_ids [OF assms]]
    dep_rel_cong [OF sorter_set [OF assms]] by simp

lemma sorter_ok_iff:
  assumes "visit_order v nodes"
  shows "is_ok (sorter v nodes) \<longleftrightarrow>
    distinct (map nd_ID nodes) \<and> deps_closed nodes \<and> acyclic (dep_rel nodes)"
  using assms sorter_accepts sorter_distinct sorter_closed sorter_acyclic by (auto simp: is_ok_iff)

text \<open>Every proper prefix of an ordering holds the dependencies of the node that follows it.\<close>

lemma sorter_prefix:
  assumes "visit_order v nodes" and "sorter v nodes = Inr (xs @ n # ys)"
  shows "set (DependsOn n) \<subseteq> node_ids xs"
proof
  fix d assume "d \<in> set (DependsOn n)"
  then have "\<exists>j < length xs. nd_ID ((xs @ n # ys) ! j) = d"
    using sorter_deps [OF assms] unfolding respects_deps_def by (metis add_Suc_right length_Cons
        length_append less_add_Suc1 nth_append_length)
  then show "d \<in> node_ids xs" by (auto simp: nth_append node_ids_def)
qed

end

interpretation kahn: topo_sorter TopoOrder
  by unfold_locales (use TopoOrder_ok TopoOrder_complete in \<open>blast+\<close>)

text \<open>
  C1. If \<^verbatim>\<open>TopoOrder\<close> returns an order, the order is a permutation of the given nodes (none lost, none
  invented, none repeated) in which every dependency of a node stands before the node, whatever order
  Go chooses to visit the in-degree map in.
\<close>

theorem TopoOrder_sound:
  assumes "visit_order visit nodes" and "TopoOrder visit nodes = Inr ord"
  shows "mset ord = mset nodes \<and> respects_deps ord \<and> distinct (map nd_ID ord)"
  using kahn.sorter_mset [OF assms] kahn.sorter_deps [OF assms] kahn.sorter_distinct_ids [OF assms]
  by blast

definition diamond :: "Node list" where
  "diamond =
     [\<lparr>nd_ID = ''d'', Cmd = [''x''], nd_CPUs = 0, nd_NUMANode = None, DependsOn = [''b'', ''c'']\<rparr>,
      \<lparr>nd_ID = ''b'', Cmd = [''x''], nd_CPUs = 0, nd_NUMANode = None, DependsOn = [''a'']\<rparr>,
      \<lparr>nd_ID = ''c'', Cmd = [''x''], nd_CPUs = 0, nd_NUMANode = None, DependsOn = [''a'']\<rparr>,
      \<lparr>nd_ID = ''a'', Cmd = [''x''], nd_CPUs = 0, nd_NUMANode = None, DependsOn = []\<rparr>]"

lemma diamond_visit: "visit_order [''c'', ''a'', ''d'', ''b''] diamond"
  by code_simp

lemma diamond_order:
  "TopoOrder [''c'', ''a'', ''d'', ''b''] diamond = Inr [diamond ! 3, diamond ! 1, diamond ! 2, diamond ! 0]"
  by code_simp

theorem Validate_iff_witness:
  "Validate (Some \<lparr>pl_Name = ''demo'', pl_Nodes = diamond\<rparr>) = Inr () \<and>
   distinct (map nd_ID diamond) \<and> deps_closed diamond"
proof -
  have v: "Validate (Some \<lparr>pl_Name = ''demo'', pl_Nodes = diamond\<rparr>) = Inr ()" by code_simp
  then show ?thesis using Validate_iff [of "\<lparr>pl_Name = ''demo'', pl_Nodes = diamond\<rparr>"] by simp
qed

theorem TopoOrder_sound_witness:
  "visit_order [''c'', ''a'', ''d'', ''b''] diamond \<and>
   respects_deps [diamond ! 3, diamond ! 1, diamond ! 2, diamond ! 0]"
  using TopoOrder_sound [OF diamond_visit diamond_order] diamond_visit by blast

text \<open>
  \<^verbatim>\<open>TopoOrder\<close> terminates with an order exactly on the graphs that have one: node ids are unique, every
  dependency is a node of the graph, and the dependency relation has no cycle. On every other graph
  it reports its one error.
\<close>

theorem TopoOrder_ok_iff:
  assumes "visit_order visit nodes"
  shows "is_ok (TopoOrder visit nodes) \<longleftrightarrow>
    distinct (map nd_ID nodes) \<and> deps_closed nodes \<and> acyclic (dep_rel nodes)"
  using assms by (rule kahn.sorter_ok_iff)

theorem TopoOrder_ok_iff_witness:
  "visit_order [''c'', ''a'', ''d'', ''b''] diamond \<and> acyclic (dep_rel diamond)"
  using TopoOrder_ok_iff [OF diamond_visit] diamond_order diamond_visit by simp

text \<open>
  Validated pipelines: \<^verbatim>\<open>Validate\<close> leaves \<^verbatim>\<open>TopoOrder\<close> only cycles to object to, so for a pipeline it
  accepted the error of \<^verbatim>\<open>TopoOrder\<close> means exactly that the dependencies form a cycle.
\<close>

theorem Validate_then_cycle:
  assumes "Validate (Some p) = Inr ()" and "visit_order visit (pl_Nodes p)"
  shows "TopoOrder visit (pl_Nodes p) = Inl CycleOrUnresolved \<longleftrightarrow> \<not> acyclic (dep_rel (pl_Nodes p))"
proof -
  have "distinct (map nd_ID (pl_Nodes p))" "deps_closed (pl_Nodes p)"
    using assms(1) by (auto simp: Validate_accepts)
  moreover have "\<not> is_ok (TopoOrder visit (pl_Nodes p)) \<longleftrightarrow>
      TopoOrder visit (pl_Nodes p) = Inl CycleOrUnresolved"
    by (auto simp: TopoOrder_def Let_def is_ok_def split: prod.splits)
  ultimately show ?thesis using kahn.sorter_ok_iff [OF assms(2)] by blast
qed

definition two_cycle :: Pipeline where
  "two_cycle = \<lparr>pl_Name = ''p'', pl_Nodes =
     [\<lparr>nd_ID = ''a'', Cmd = [''x''], nd_CPUs = 0, nd_NUMANode = None, DependsOn = [''b'']\<rparr>,
      \<lparr>nd_ID = ''b'', Cmd = [''x''], nd_CPUs = 0, nd_NUMANode = None, DependsOn = [''a'']\<rparr>]\<rparr>"

lemma two_cycle_valid: "Validate (Some two_cycle) = Inr ()"
  by code_simp

lemma two_cycle_visit: "visit_order [''a'', ''b''] (pl_Nodes two_cycle)"
  by code_simp

theorem Validate_then_cycle_witness:
  "Validate (Some two_cycle) = Inr () \<and> \<not> acyclic (dep_rel (pl_Nodes two_cycle))"
proof -
  have "TopoOrder [''a'', ''b''] (pl_Nodes two_cycle) = Inl CycleOrUnresolved" by code_simp
  then show ?thesis
    using Validate_then_cycle [OF two_cycle_valid two_cycle_visit] two_cycle_valid by blast
qed

end
