(* ===== verification/Cpulist.thy ===== *)
theory Cpulist
  imports Go_Prelude
begin

text \<open>
  CPU lists in the Linux notation, e.g. \<^verbatim>\<open>0-3,8\<close>: \<^verbatim>\<open>ParseCPUList\<close> and \<^verbatim>\<open>FormatCPUList\<close>
  (pkg/topology/cpulist.go) and \<^verbatim>\<open>CPUsToTasksetSpec\<close> (pkg/affinity/cpuset.go).

  The counting loop of \<^verbatim>\<open>ParseCPUList\<close> uses a 64-bit counter and need not end, so the parser returns
  an option: \<open>None\<close> means that it does not return. The locale \<open>cpulist_codec\<close> is what the users of
  these lists rely on; both printers are instances of it.
\<close>

section \<open>Model\<close>

datatype cpulist_error = InvalidRange string | InvalidCpu string num_error

text \<open>\<^verbatim>\<open>for i := lo; i <= hi; i++ { out = append(out, i) }\<close>\<close>

partial_function (option) range_loop :: "int \<Rightarrow> int \<Rightarrow> int list \<Rightarrow> int list option" where
  "range_loop i hi out =
     (if i \<le> hi then range_loop (wrap64 (i + 1)) hi (out @ [i]) else Some out)"

fun parse_parts :: "string list \<Rightarrow> int list \<Rightarrow> (cpulist_error + int list) option" where
  "parse_parts [] out = Some (Inr out)"
| "parse_parts (p # ps) out =
     (let part = trim_space p in
      if part = [] then parse_parts ps out
      else if CHR ''-'' \<in> set part then
        (case cut (CHR ''-'') part of (a, b, ok) \<Rightarrow>
           if \<not> ok then Some (Inl (InvalidRange part))
           else (case atoi (trim_space a) of (lo, err1) \<Rightarrow>
                 case atoi (trim_space b) of (hi, err2) \<Rightarrow>
                   if err1 \<noteq> None \<or> err2 \<noteq> None \<or> lo > hi then Some (Inl (InvalidRange part))
                   else (case range_loop lo hi out of
                           None \<Rightarrow> None
                         | Some out' \<Rightarrow> parse_parts ps out')))
      else
        (case atoi part of (n, err) \<Rightarrow>
           (case err of
              Some e \<Rightarrow> Some (Inl (InvalidCpu part e))
            | None \<Rightarrow> parse_parts ps (out @ [n]))))"

definition ParseCPUList :: "string \<Rightarrow> (cpulist_error + int list) option" where
  "ParseCPUList s0 =
     (let s = trim_space s0 in
      if s = [] then Some (Inr []) else parse_parts (split_on (CHR '','') s) [])"

text \<open>One run of ids appended to the builder: the end of the loop body of \<^verbatim>\<open>FormatCPUList\<close>.\<close>

definition emit_run :: "string \<Rightarrow> int \<Rightarrow> int \<Rightarrow> string" where
  "emit_run b start prev =
     (if b \<noteq> [] then b @ '','' else b) @
     (if start = prev then itoa start else itoa start @ ''-'' @ itoa prev)"

fun format_loop :: "string \<Rightarrow> int \<Rightarrow> int \<Rightarrow> int list \<Rightarrow> string" where
  "format_loop b start prev [] = emit_run b start prev"
| "format_loop b start prev (next # rest) =
     (if next = prev + 1 then format_loop b start next rest
      else format_loop (emit_run b start prev) next next rest)"

definition FormatCPUList :: "int list \<Rightarrow> string" where
  "FormatCPUList ids =
     (if ids = [] then []
      else (case sort (uniq_loop {} ids) of
              [] \<Rightarrow> []
            | u # us \<Rightarrow> format_loop [] u u us))"

text \<open>
  The inner loop of \<^verbatim>\<open>CPUsToTasksetSpec\<close>, \<^verbatim>\<open>for j < len(xs) && xs[j] == xs[j-1]+1\<close>: the last id of the
  run that \<^verbatim>\<open>prev\<close> continues, and the ids from \<^verbatim>\<open>xs[j]\<close> on.
\<close>

fun run_end :: "int \<Rightarrow> int list \<Rightarrow> int \<times> int list" where
  "run_end prev [] = (prev, [])"
| "run_end prev (y # ys) = (if y = prev + 1 then run_end y ys else (prev, y # ys))"

lemma run_end_length: "length (snd (run_end prev ys)) \<le> length ys"
  by (induction ys arbitrary: prev) (auto intro: le_SucI)

function taskset_parts :: "int list \<Rightarrow> string list" where
  "taskset_parts [] = []"
| "taskset_parts (x # xs) =
     (case run_end x xs of (y, rest) \<Rightarrow>
        (if length rest = length xs then itoa x else itoa x @ ''-'' @ itoa y) # taskset_parts rest)"
  by pat_completeness auto
termination
  by (relation "measure length") (auto, metis le_imp_less_Suc run_end_length snd_conv)

definition CPUsToTasksetSpec :: "int list \<Rightarrow> string" where
  "CPUsToTasksetSpec cpuIDs =
     (if cpuIDs = [] then [] else join '','' (taskset_parts (sort (uniq_loop {} cpuIDs))))"

declare range_loop.simps [code]

section \<open>The counting loop\<close>

text \<open>Below the largest integer the loop counts; at it, it never ends.\<close>

lemma range_loop_upto:
  assumes "hi < maxInt" and "minInt \<le> i"
  shows "range_loop i hi out = Some (out @ [i..hi])"
  using assms
proof (induction i hi arbitrary: out rule: upto.induct)
  case (1 i hi)
  show ?case
  proof (cases "i \<le> hi")
    case True
    with "1.prems" have "wrap64 (i + 1) = i + 1" by (intro wrap64_id) (simp add: int64_def)
    with True show ?thesis
      using "1.IH" [of "out @ [i]"] "1.prems"
      by (simp add: range_loop.simps [of i] upto_rec1)
  next
    case False
    then show ?thesis by (simp add: range_loop.simps [of i])
  qed
qed

lemma range_loop_diverges:
  assumes "int64 i"
  shows "range_loop i maxInt out = None"
proof -
  have False if ret: "range_loop i maxInt out = Some r" for r
  proof -
    have "hi = maxInt \<longrightarrow> int64 i \<longrightarrow> False" if "range_loop i hi out = Some r" for i hi out r
    proof (rule range_loop.raw_induct [where P = "\<lambda>i hi out r. hi = maxInt \<longrightarrow> int64 i \<longrightarrow> False", OF _ that])
      fix f i hi out r
      assume IH: "\<And>i hi out r. f i hi out = Some r \<Longrightarrow> hi = maxInt \<longrightarrow> int64 i \<longrightarrow> False"
        and eq: "(if i \<le> hi then f (wrap64 (i + 1)) hi (out @ [i]) else Some out) = Some r"
      show "hi = maxInt \<longrightarrow> int64 i \<longrightarrow> False"
        using eq IH [of "wrap64 (i + 1)" hi "out @ [i]" r] by (auto simp: int64_def [of i])
    qed
    with ret assms show False by blast
  qed
  then show ?thesis by (cases "range_loop i maxInt out") auto
qed

lemma range_loop_int64:
  assumes "int64 lo" and "int64 hi"
  shows "range_loop lo hi out = (if hi < maxInt then Some (out @ [lo..hi]) else None)"
  using assms range_loop_upto [of hi lo out] range_loop_diverges [of lo out]
  by (cases "hi = maxInt") (auto simp: int64_def)

section \<open>What a part of the list denotes\<close>

text \<open>
  A part denotes ids (or an error, or nothing at all when the loop does not end); the parser
  concatenates what its parts denote.
\<close>

definition part_value :: "string \<Rightarrow> (cpulist_error + int list) option" where
  "part_value p =
     (let part = trim_space p in
      if part = [] then Some (Inr [])
      else if CHR ''-'' \<in> set part then
        (case cut (CHR ''-'') part of (a, b, ok) \<Rightarrow>
          (case atoi (trim_space a) of (lo, e1) \<Rightarrow>
           case atoi (trim_space b) of (hi, e2) \<Rightarrow>
             if e1 \<noteq> None \<or> e2 \<noteq> None \<or> lo > hi then Some (Inl (InvalidRange part))
             else if hi < maxInt then Some (Inr [lo..hi]) else None))
      else (case atoi part of (n, None) \<Rightarrow> Some (Inr [n]) | (n, Some e) \<Rightarrow> Some (Inl (InvalidCpu part e))))"

lemma parse_parts_step:
  "parse_parts (p # ps) out =
     (case part_value p of
        None \<Rightarrow> None
      | Some (Inl e) \<Rightarrow> Some (Inl e)
      | Some (Inr xs) \<Rightarrow> parse_parts ps (out @ xs))"
  by (auto simp: part_value_def Let_def cut_def range_loop_int64 atoi_int64
      split: prod.splits option.splits if_splits)

declare parse_parts.simps(2) [simp del]

lemma parse_parts_values:
  assumes "list_all2 (\<lambda>p xs. part_value p = Some (Inr xs)) ps xss"
  shows "parse_parts ps out = Some (Inr (out @ concat xss))"
  using assms
  by (induction arbitrary: out rule: list_all2_induct) (auto simp: parse_parts_step)

lemma parse_parts_returns:
  assumes "\<And>p. p \<in> set ps \<Longrightarrow> part_value p \<noteq> None"
  shows "parse_parts ps out \<noteq> None"
  using assms
  by (induction ps arbitrary: out) (auto simp: parse_parts_step split: option.splits sum.splits)

lemma cut_no_sep: "cut c s = (a, b, ok) \<Longrightarrow> c \<notin> set a \<or> \<not> ok"
  by (auto simp: cut_def split: if_splits dest: set_takeWhileD)

lemma atoi_trim_nonneg:
  assumes "CHR ''-'' \<notin> set a" and "atoi (trim_space a) = (i, e)"
  shows "0 \<le> i"
proof -
  from assms(1) set_trim_space [of a] have "CHR ''-'' \<notin> set (trim_space a)" by blast
  with assms(2) show ?thesis by (rule atoi_nonneg [rotated])
qed

lemma part_value_nonneg:
  assumes "part_value p = Some (Inr xs)" and "x \<in> set xs"
  shows "0 \<le> x"
proof (cases "CHR ''-'' \<in> set (trim_space p)")
  case True
  let ?a = "takeWhile (\<lambda>x. x \<noteq> CHR ''-'') (trim_space p)"
  have a: "CHR ''-'' \<notin> set ?a" by (auto dest: set_takeWhileD)
  obtain lo e1 where lo: "atoi (trim_space ?a) = (lo, e1)" by fastforce
  have "0 \<le> lo" using a lo by (rule atoi_trim_nonneg)
  with assms True lo show ?thesis
    by (auto simp: part_value_def Let_def cut_def split: prod.splits if_splits)
next
  case False
  then show ?thesis using assms
    by (auto simp: part_value_def Let_def split: prod.splits option.splits if_splits dest: atoi_nonneg)
qed

lemma parse_parts_nonneg:
  assumes "parse_parts ps out = Some (Inr xs)" and "\<And>x. x \<in> set out \<Longrightarrow> 0 \<le> x"
  shows "\<forall>x \<in> set xs. 0 \<le> x"
  using assms
proof (induction ps arbitrary: out)
  case (Cons p ps)
  then obtain ys where ys: "part_value p = Some (Inr ys)" "parse_parts ps (out @ ys) = Some (Inr xs)"
    by (auto simp: parse_parts_step split: option.splits sum.splits)
  with Cons.prems(2) part_value_nonneg [OF ys(1)] show ?case
    by (intro Cons.IH [OF ys(2)]) auto
qed auto

section \<open>The two printers agree\<close>

lemma run_end_spec:
  assumes "run_end prev ys = (y, rest)"
  shows "\<exists>n. y = prev + int n \<and> ys = map (\<lambda>k. prev + 1 + int k) [0..<n] @ rest"
  using assms
proof (induction ys arbitrary: prev)
  case Nil
  then show ?case by (intro exI [of _ 0]) simp
next
  case (Cons z zs)
  show ?case
  proof (cases "z = prev + 1")
    case True
    with Cons.prems have "run_end z zs = (y, rest)" by simp
    from Cons.IH [OF this] obtain n where
      n: "y = z + int n" "zs = map (\<lambda>k. z + 1 + int k) [0..<n] @ rest" by blast
    have "z # map (\<lambda>k. z + 1 + int k) [0..<n] = map (\<lambda>k. prev + 1 + int k) [0..<Suc n]"
      using True by (simp add: upt_conv_Cons map_Suc_upt [symmetric] del: upt_Suc)
    with n True show ?thesis by (intro exI [of _ "Suc n"]) auto
  next
    case False
    with Cons.prems show ?thesis by (intro exI [of _ 0]) simp
  qed
qed

lemma run_end_upto:
  assumes "run_end prev ys = (y, rest)"
  shows "prev # ys = [prev..y] @ rest" and "prev \<le> y" and "length rest = length ys \<longleftrightarrow> y = prev"
proof -
  from run_end_spec [OF assms] obtain n where
    n: "y = prev + int n" "ys = map (\<lambda>k. prev + 1 + int k) [0..<n] @ rest" by blast
  have "[prev + 1..prev + int n] = map (\<lambda>k. prev + 1 + int k) [0..<n]"
    by (induction n) (simp_all add: upto_rec2)
  with n show "prev # ys = [prev..y] @ rest" by (simp add: upto_rec1 [of prev])
  from n show "prev \<le> y" "length rest = length ys \<longleftrightarrow> y = prev" by auto
qed

lemma format_loop_run_end:
  assumes "run_end prev ys = (y, rest)"
  shows "format_loop b start prev ys =
    (case rest of [] \<Rightarrow> emit_run b start y | z # zs \<Rightarrow> format_loop (emit_run b start y) z z zs)"
  using assms
  by (induction ys arbitrary: prev) (auto split: if_splits list.splits)

lemma format_loop_taskset:
  "format_loop b x x xs =
     (if b \<noteq> [] then b @ '','' else b) @ join '','' (taskset_parts (x # xs))"
proof (induction "x # xs" arbitrary: b x xs rule: taskset_parts.induct)
  case (2 x xs)
  obtain y rest where re: "run_end x xs = (y, rest)" by fastforce
  have part: "(if length rest = length xs then itoa x else itoa x @ ''-'' @ itoa y) =
      (if x = y then itoa x else itoa x @ ''-'' @ itoa y)"
    using run_end_upto [OF re] by auto
  have fl: "format_loop b x x xs =
      (case rest of [] \<Rightarrow> emit_run b x y | z # zs \<Rightarrow> format_loop (emit_run b x y) z z zs)"
    by (rule format_loop_run_end [OF re])
  show ?case
  proof (cases rest)
    case Nil
    with re part fl show ?thesis by (simp add: emit_run_def)
  next
    case (Cons z zs)
    have ne: "emit_run b x y \<noteq> []" by (simp add: emit_run_def)
    have "format_loop (emit_run b x y) z z zs =
        emit_run b x y @ '','' @ join '','' (taskset_parts (z # zs))"
      using "2.hyps" [of y z zs "emit_run b x y"] re Cons ne by simp
    moreover obtain v vs where v: "taskset_parts (z # zs) = v # vs"
      by (cases "run_end z zs") auto
    moreover have "join '','' (taskset_parts (x # xs)) =
        (if x = y then itoa x else itoa x @ ''-'' @ itoa y) @ '','' @ join '','' (taskset_parts (z # zs))"
      using re part Cons v by (simp del: append_assoc)
    ultimately show ?thesis using fl Cons by (simp add: emit_run_def)
  qed
qed

lemma format_taskset_same: "FormatCPUList ids = CPUsToTasksetSpec ids"
proof (cases "sort (uniq_loop {} ids)")
  case Nil
  then have "set (sort (uniq_loop {} ids)) = {}" by simp
  then have "ids = []" by simp
  then show ?thesis by (simp add: FormatCPUList_def CPUsToTasksetSpec_def)
next
  case (Cons u us)
  then show ?thesis
    by (simp add: FormatCPUList_def CPUsToTasksetSpec_def format_loop_taskset del: taskset_parts.simps)
qed

text \<open>
  C36. \<^verbatim>\<open>topology.FormatCPUList\<close> (a single pass that extends the current run) and
  \<^verbatim>\<open>affinity.CPUsToTasksetSpec\<close> (a nested loop that finds the end of each run and joins the parts) are
  two implementations of one function: on every list of ids, in any order and with repetitions, they
  give the same text. The \<^verbatim>\<open>taskset\<close> argument and the CPU list of the hints cannot disagree.
\<close>

theorem format_eq_taskset: "FormatCPUList ids = CPUsToTasksetSpec ids"
  by (rule format_taskset_same)

section \<open>Printing and parsing back\<close>

definition valid_ids :: "int list \<Rightarrow> bool" where
  "valid_ids ids \<longleftrightarrow> (\<forall>id \<in> set ids. 0 \<le> id \<and> id < maxInt)"

lemma dash_not_digit: "0 \<le> i \<Longrightarrow> CHR ''-'' \<notin> set (itoa i)"
  using itoa_nonneg_digits [of i "CHR ''-''"] by auto

lemma comma_not_digit: "0 \<le> i \<Longrightarrow> CHR '','' \<notin> set (itoa i)"
  using itoa_nonneg_digits [of i "CHR '',''"] by auto

lemma trim_itoa: "0 \<le> i \<Longrightarrow> trim_space (itoa i) = itoa i"
  by (rule trim_space_all_plain) (auto dest: itoa_nonneg_digits)

lemma trim_range:
  assumes "0 \<le> x" "0 \<le> y"
  shows "trim_space (itoa x @ ''-'' @ itoa y) = itoa x @ ''-'' @ itoa y"
  using assms by (intro trim_space_all_plain) (auto dest: itoa_nonneg_digits)

lemma part_value_run:
  assumes "0 \<le> x" and "x \<le> y" and "y < maxInt"
  shows "part_value (if x = y then itoa x else itoa x @ ''-'' @ itoa y) = Some (Inr [x..y])"
proof -
  from assms have i64: "int64 x" "int64 y"
    by (auto simp: int64_def minInt_def)
  show ?thesis
  proof (cases "x = y")
    case True
    with assms i64 show ?thesis
      by (simp add: part_value_def Let_def trim_itoa dash_not_digit atoi_itoa)
  next
    case False
    have "cut (CHR ''-'') (itoa x @ CHR ''-'' # itoa y) = (itoa x, itoa y, True)"
      using assms by (intro cut_append) (simp add: dash_not_digit)
    with False assms i64 show ?thesis
      using trim_range [of x y] by (simp add: part_value_def Let_def trim_itoa atoi_itoa)
  qed
qed

lemma taskset_parts_values:
  assumes "valid_ids xs"
  shows "\<exists>xss. list_all2 (\<lambda>p xs. part_value p = Some (Inr xs)) (taskset_parts xs) xss \<and> concat xss = xs"
  using assms
proof (induction xs rule: taskset_parts.induct)
  case 1
  then show ?case by simp
next
  case (2 x xs)
  obtain y rest where re: "run_end x xs = (y, rest)" by fastforce
  note up = run_end_upto [OF re]
  have "y \<in> set (x # xs)" and rest: "set rest \<subseteq> set (x # xs)"
    using up(1,2) by auto
  with "2.prems" have b: "0 \<le> x" "y < maxInt" "valid_ids rest"
    by (auto simp: valid_ids_def)
  with "2.IH" [OF re [symmetric]] obtain xss where
    xss: "list_all2 (\<lambda>p xs. part_value p = Some (Inr xs)) (taskset_parts rest) xss" "concat xss = rest"
    by blast
  have "part_value (if length rest = length xs then itoa x else itoa x @ ''-'' @ itoa y)
      = Some (Inr [x..y])"
    using part_value_run [OF b(1) up(2) b(2)] up(3) by (simp split: if_splits)
  with xss(1) re have "list_all2 (\<lambda>p xs. part_value p = Some (Inr xs)) (taskset_parts (x # xs)) ([x..y] # xss)"
    by simp
  moreover from xss(2) up(1) have "concat ([x..y] # xss) = x # xs" by simp
  ultimately show ?case by blast
qed

lemma taskset_parts_chars:
  assumes "valid_ids xs" and "p \<in> set (taskset_parts xs)" and "c \<in> set p"
  shows "is_digit c \<or> c = CHR ''-''"
  using assms
proof (induction xs arbitrary: p rule: taskset_parts.induct)
  case (2 x xs)
  obtain y rest where re: "run_end x xs = (y, rest)" by fastforce
  note up = run_end_upto [OF re]
  have "0 \<le> x" "0 \<le> y" and v: "valid_ids rest"
    using "2.prems"(1) up(1,2) by (auto simp: valid_ids_def)
  with "2.prems" re "2.IH" [OF re [symmetric] v] show ?case
    by (auto split: if_splits dest: itoa_nonneg_digits)
qed simp

lemma taskset_parts_strings: "w \<in> set (taskset_parts xs) \<Longrightarrow> w \<noteq> []"
  by (induction xs rule: taskset_parts.induct) (auto split: prod.splits if_splits)

lemma taskset_parts_Nil [simp]: "taskset_parts xs = [] \<longleftrightarrow> xs = []"
  by (cases xs) (auto split: prod.splits)

lemma parse_taskset:
  assumes "valid_ids ids"
  shows "ParseCPUList (CPUsToTasksetSpec ids) = Some (Inr (sorted_list_of_set (set ids)))"
proof (cases "ids = []")
  case True
  then show ?thesis by (simp add: CPUsToTasksetSpec_def ParseCPUList_def trim_space_plain)
next
  case False
  let ?us = "sort (uniq_loop {} ids)" and ?ps = "taskset_parts (sort (uniq_loop {} ids))"
  have v: "valid_ids ?us" using assms by (simp add: valid_ids_def)
  have ne: "?ps \<noteq> []" using False by simp (metis False set_empty set_sort set_uniq_loop Diff_empty)
  have chars: "is_digit c \<or> c = CHR ''-''" if "p \<in> set ?ps" "c \<in> set p" for p c
    using v that by (rule taskset_parts_chars)
  then have "plain_char c" if "c \<in> set (join '','' ?ps)" for c
    using that set_join [of "'',''" ?ps] by fastforce
  then have trim: "trim_space (join '','' ?ps) = join '','' ?ps"
    by (rule trim_space_all_plain)
  have split: "split_on (CHR '','') (join '','' ?ps) = ?ps"
    using ne chars by (intro split_on_join) fastforce+
  from taskset_parts_values [OF v] obtain xss where
    xss: "list_all2 (\<lambda>p xs. part_value p = Some (Inr xs)) ?ps xss" "concat xss = ?us"
    by blast
  have "join '','' ?ps \<noteq> []"
    using ne taskset_parts_strings [of "[]" ?us] by (auto simp: join_eq_Nil)
  with trim split parse_parts_values [OF xss(1), of "[]"] xss(2) False show ?thesis
    by (simp add: CPUsToTasksetSpec_def ParseCPUList_def sort_uniq_loop)
qed

section \<open>The contract of a CPU-list codec\<close>

text \<open>
  What a printer and a parser of CPU lists promise their users: the text denotes exactly the set
  that was printed, listed in ascending order.
\<close>

locale cpulist_codec =
  fixes print_ids :: "int list \<Rightarrow> string"
    and parse_ids :: "string \<Rightarrow> (cpulist_error + int list) option"
  assumes parse_print: "valid_ids ids \<Longrightarrow> parse_ids (print_ids ids) = Some (Inr (sorted_list_of_set (set ids)))"
begin

lemma print_faithful:
  assumes "valid_ids ids" and "valid_ids ids'" and "print_ids ids = print_ids ids'"
  shows "set ids = set ids'"
proof -
  have "sorted_list_of_set (set ids) = sorted_list_of_set (set ids')"
    using assms parse_print [of ids] parse_print [of ids'] by simp
  then show ?thesis by (metis List.finite_set set_sorted_list_of_set)
qed

lemma print_parse_stable:
  assumes "valid_ids ids" and "parse_ids (print_ids ids) = Some (Inr xs)"
  shows "sorted xs \<and> distinct xs \<and> set xs = set ids"
  using assms parse_print by auto

end

interpretation taskset_codec: cpulist_codec CPUsToTasksetSpec ParseCPUList
  by unfold_locales (rule parse_taskset)

interpretation format_codec: cpulist_codec FormatCPUList ParseCPUList
  by unfold_locales (simp add: format_taskset_same parse_taskset)

text \<open>
  C9. Printing CPU ids with either encoder of the program, the \<^verbatim>\<open>taskset\<close> specification of pkg/affinity or
  \<^verbatim>\<open>FormatCPUList\<close> of pkg/topology, and parsing the text with \<^verbatim>\<open>ParseCPUList\<close> returns,
  without an error, exactly the ids that were printed: each once, in ascending order, whatever the
  order and the repetitions of the input. The ids are those a machine can have: not negative and
  below the largest 64-bit integer.
\<close>

theorem cpulist_roundtrip:
  assumes "valid_ids ids"
  shows "ParseCPUList (CPUsToTasksetSpec ids) = Some (Inr (sorted_list_of_set (set ids))) \<and>
    ParseCPUList (FormatCPUList ids) = Some (Inr (sorted_list_of_set (set ids)))"
  using taskset_codec.parse_print [OF assms] format_codec.parse_print [OF assms] by (rule conjI)

theorem cpulist_roundtrip_witness:
  "valid_ids [8, 1, 0, 2, 8] \<and>
   ParseCPUList (CPUsToTasksetSpec [8, 1, 0, 2, 8]) = Some (Inr [0, 1, 2, 8]) \<and>
   ParseCPUList (FormatCPUList [8, 1, 0, 2, 8]) = Some (Inr [0, 1, 2, 8])"
proof -
  have v: "valid_ids [8, 1, 0, 2, 8]" by (simp add: valid_ids_def maxInt_def)
  have "sorted_list_of_set (set [8, 1, 0, 2, 8 :: int]) = [0, 1, 2, 8]"
    by (simp only: sorted_list_of_set_sort_remdups) simp
  with v cpulist_roundtrip [OF v] show ?thesis by simp
qed

text \<open>
  What \<^verbatim>\<open>ParseCPUList\<close> accepts is a list of valid CPU ids: whenever it returns ids, none is
  negative, although \<^verbatim>\<open>strconv.Atoi\<close> accepts a sign (a minus sign makes the part a range, whose
  lower end then cannot carry one).
\<close>

theorem parse_nonneg:
  assumes "ParseCPUList s = Some (Inr ids)"
  shows "\<forall>id \<in> set ids. 0 \<le> id"
  using assms parse_parts_nonneg [of "split_on (CHR '','') (trim_space s)" "[]" ids]
  by (auto simp: ParseCPUList_def Let_def split: if_splits)

theorem parse_nonneg_witness:
  "ParseCPUList ''0-1, +8'' = Some (Inr [0, 1, 8]) \<and> set [0, 1, 8 :: int] \<subseteq> {0..}"
proof -
  have h: "ParseCPUList ''0-1, +8'' = Some (Inr [0, 1, 8])" by code_simp
  from parse_nonneg [OF h] h show ?thesis by auto
qed

text \<open>
  \<^verbatim>\<open>ParseCPUList\<close> does not return on a range that ends at the largest 64-bit integer: its counter
  wraps around to the smallest one and stays below the bound for ever, appending an id each time.
  The text is accepted by \<^verbatim>\<open>strconv.Atoi\<close> and passes the \<^verbatim>\<open>lo > hi\<close> check.
\<close>

theorem parse_max_diverges:
  "ParseCPUList ''9223372036854775807-9223372036854775807'' = None"
proof -
  define m s where "m = ''9223372036854775807''" and "s = ''9223372036854775807-9223372036854775807''"
  have a: "atoi m = (maxInt, None)" unfolding m_def by code_simp
  have c: "cut (CHR ''-'') s = (m, m, True)" unfolding m_def s_def by code_simp
  have t: "trim_space s = s" "trim_space m = m" unfolding m_def s_def
    by (simp_all add: trim_space_plain plain_char_def)
  have d: "s \<noteq> []" "CHR ''-'' \<in> set s" unfolding s_def by simp_all
  have sp: "split_on (CHR '','') s = [s]" unfolding s_def by (rule split_on_none) simp
  have "part_value s = None" using a c t d by (simp add: part_value_def)
  then have "ParseCPUList s = None" using t sp d by (simp add: ParseCPUList_def parse_parts_step)
  then show ?thesis unfolding s_def .
qed

text \<open>
  C39. That is the only way not to return: if no part of the text is a range whose upper end reads as
  the largest 64-bit integer, \<^verbatim>\<open>ParseCPUList\<close> returns, with ids or with an error.
\<close>

theorem parse_returns:
  assumes "\<And>p. p \<in> set (split_on (CHR '','') (trim_space s)) \<Longrightarrow>
    atoi (trim_space (fst (snd (cut (CHR ''-'') (trim_space p))))) \<noteq> (maxInt, None)"
  shows "ParseCPUList s \<noteq> None"
proof -
  have "part_value p \<noteq> None" if "p \<in> set (split_on (CHR '','') (trim_space s))" for p
    using assms [OF that] atoi_int64 [of "trim_space (fst (snd (cut (CHR ''-'') (trim_space p))))"]
    by (auto simp: part_value_def Let_def int64_def split: prod.splits option.splits if_splits)
  then show ?thesis
    using parse_parts_returns by (auto simp: ParseCPUList_def Let_def)
qed

theorem parse_returns_witness: "ParseCPUList ''0-3,8'' \<noteq> None"
proof (rule parse_returns)
  fix p
  assume "p \<in> set (split_on (CHR '','') (trim_space ''0-3,8''))"
  moreover have "split_on (CHR '','') (trim_space ''0-3,8'') = [''0-3'', ''8'']" by code_simp
  ultimately consider "p = ''0-3''" | "p = ''8''" by auto
  then show "atoi (trim_space (fst (snd (cut (CHR ''-'') (trim_space p))))) \<noteq> (maxInt, None)"
  proof cases
    case 1
    show ?thesis unfolding 1 by code_simp
  next
    case 2
    show ?thesis unfolding 2 by code_simp
  qed
qed

end
