(* ===== verification/Topology.thy ===== *)
theory Topology
  imports Cpulist
begin

text \<open>
  The machine snapshot (pkg/topology/types.go) and CPU placement (pkg/topology/placement.go).

  Placement chooses the CPUs a command is pinned to. Its contract is the locale \<open>placement\<close>, which the
  runners of the pipelines rely on; \<^verbatim>\<open>SelectCPUs\<close> is shown to satisfy it on well-formed snapshots.
\<close>

section \<open>Model: types.go\<close>

record CPU =
  cpu_ID :: int
  PackageID :: int
  CoreID :: int
  cpu_NUMANode :: int \<comment> \<open>-1 if unknown\<close>
  Siblings :: "int list"

record NUMANode =
  node_ID :: int
  node_CPUs :: "int list"
  Distance :: "int list"

record Topology =
  topo_CPUs :: "CPU list"
  topo_NUMANodes :: "NUMANode list"

fun find_node :: "int \<Rightarrow> NUMANode list \<Rightarrow> int list" where
  "find_node nodeID [] = []"
| "find_node nodeID (n # ns) = (if node_ID n = nodeID then node_CPUs n else find_node nodeID ns)"

definition CPUsOnNode :: "Topology \<Rightarrow> int \<Rightarrow> int list" where
  "CPUsOnNode t nodeID = find_node nodeID (topo_NUMANodes t)"

text \<open>
  The keys of the \<^verbatim>\<open>seen\<close> map come in an order Go leaves open; sorting removes the choice, so the
  model lists them by first occurrence.
\<close>

definition PackageIDs :: "Topology \<Rightarrow> int list" where
  "PackageIDs t = sort (uniq_loop {} (map PackageID (topo_CPUs t)))"

section \<open>Model: placement.go\<close>

datatype placement_error =
    UnknownStrategy string
  | NodeTooSmall int nat int
  | NotEnough int nat

definition allCPUIDs :: "Topology \<Rightarrow> int list" where
  "allCPUIDs t = sort (map cpu_ID (topo_CPUs t))"

record cand =
  cand_id :: int
  cand_size :: nat
  cand_cpus :: "int list"

definition candidates :: "Topology \<Rightarrow> int \<Rightarrow> cand list" where
  "candidates t want =
     concat (map (\<lambda>n. let cp = sort (node_CPUs n) in
       if int (length cp) \<ge> want then [\<lparr>cand_id = node_ID n, cand_size = length cp, cand_cpus = cp\<rparr>] else [])
       (topo_NUMANodes t))"

text \<open>The comparison of \<^verbatim>\<open>sort.Slice\<close>: larger first, then the smaller node id.\<close>

definition cand_key :: "cand \<Rightarrow> int \<times> int" where
  "cand_key c = (- int (cand_size c), cand_id c)"

text \<open>The two nested loops that spill over the nodes in order until \<^verbatim>\<open>want\<close> CPUs are taken.\<close>

fun take_cpus :: "int \<Rightarrow> int list \<Rightarrow> int list \<Rightarrow> int list" where
  "take_cpus want acc [] = acc"
| "take_cpus want acc (cid # cp) =
     (if int (length acc) \<ge> want then acc else take_cpus want (acc @ [cid]) cp)"

fun spill :: "int \<Rightarrow> int list \<Rightarrow> NUMANode list \<Rightarrow> int list" where
  "spill want acc [] = acc"
| "spill want acc (n # ns) =
     (let acc' = take_cpus want acc (sort (node_CPUs n)) in
      if int (length acc') \<ge> want then acc' else spill want acc' ns)"

definition SelectCPUs ::
  "Topology \<Rightarrow> int \<Rightarrow> int option \<Rightarrow> string \<Rightarrow> placement_error + int list" where
  "SelectCPUs t want numaPrefer strategy =
     (let ids = allCPUIDs t in
      if want \<le> 0 \<or> want \<ge> int (length ids) then Inr ids
      else if strategy \<noteq> [] \<and> strategy \<noteq> ''same-numa'' then Inl (UnknownStrategy strategy)
      else if topo_NUMANodes t = [] then Inr (take (nat want) ids)
      else (case numaPrefer of
        Some p \<Rightarrow>
          (let cpus = sort (CPUsOnNode t p) in
           if int (length cpus) < want then Inl (NodeTooSmall p (length cpus) want)
           else Inr (take (nat want) cpus))
      | None \<Rightarrow>
          (case sort_key cand_key (candidates t want) of
             c # _ \<Rightarrow> Inr (take (nat want) (cand_cpus c))
           | [] \<Rightarrow>
               (let acc = sort (spill want [] (topo_NUMANodes t)) in
                if int (length acc) < want then Inl (NotEnough want (length acc))
                else Inr (take (nat want) acc)))))"

text \<open>The loop of \<^verbatim>\<open>PrimaryNUMANodeForCPUs\<close>: \<open>None\<close> is its early \<^verbatim>\<open>return -1, false\<close>.\<close>

fun primary_loop ::
  "int set \<Rightarrow> int option \<Rightarrow> nat \<Rightarrow> CPU list \<Rightarrow> (int option \<times> nat) option" where
  "primary_loop want first seen [] = Some (first, seen)"
| "primary_loop want first seen (cpu # cpus) =
     (if cpu_ID cpu \<notin> want then primary_loop want first seen cpus
      else
        (let nid = cpu_NUMANode cpu in
         if nid < 0 then None
         else (case first of
                 None \<Rightarrow> primary_loop want (Some nid) (seen + 1) cpus
               | Some f \<Rightarrow> if f \<noteq> nid then None else primary_loop want first (seen + 1) cpus)))"

text \<open>The result is \<^verbatim>\<open>(node, ok)\<close>; the topology pointer may be \<^verbatim>\<open>nil\<close>.\<close>

definition PrimaryNUMANodeForCPUs :: "Topology option \<Rightarrow> int list \<Rightarrow> int \<times> bool" where
  "PrimaryNUMANodeForCPUs t cpus =
     (case t of
        None \<Rightarrow> (-1, False)
      | Some t \<Rightarrow>
          if cpus = [] then (-1, False)
          else (case primary_loop (set cpus) None 0 (topo_CPUs t) of
                  None \<Rightarrow> (-1, False)
                | Some (first, seen) \<Rightarrow>
                    (case first of
                       None \<Rightarrow> (-1, False)
                     | Some f \<Rightarrow> if seen \<noteq> card (set cpus) then (-1, False) else (f, True))))"

section \<open>Well-formed snapshots\<close>

text \<open>
  What the two discovery routes produce: CPU ids are unique, node ids are unique, a node lists each
  of its CPUs once, the nodes share no CPU and list only CPUs of the snapshot.
\<close>

definition wf_topology :: "Topology \<Rightarrow> bool" where
  "wf_topology t \<longleftrightarrow>
     distinct (map cpu_ID (topo_CPUs t)) \<and>
     distinct (map node_ID (topo_NUMANodes t)) \<and>
     distinct (concat (map node_CPUs (topo_NUMANodes t))) \<and>
     set (concat (map node_CPUs (topo_NUMANodes t))) \<subseteq> set (map cpu_ID (topo_CPUs t))"

lemma set_allCPUIDs [simp]: "set (allCPUIDs t) = cpu_ID ` set (topo_CPUs t)"
  by (simp add: allCPUIDs_def)

lemma length_allCPUIDs [simp]: "length (allCPUIDs t) = length (topo_CPUs t)"
  by (simp add: allCPUIDs_def)

lemma sorted_allCPUIDs [simp]: "sorted (allCPUIDs t)"
  by (simp add: allCPUIDs_def)

lemma wf_distinct_ids: "wf_topology t \<Longrightarrow> distinct (allCPUIDs t)"
  by (simp add: wf_topology_def allCPUIDs_def)

lemma wf_node_cpus:
  assumes "wf_topology t" and "n \<in> set (topo_NUMANodes t)"
  shows "distinct (node_CPUs n)" and "set (node_CPUs n) \<subseteq> set (allCPUIDs t)"
  using assms by (auto simp: wf_topology_def distinct_concat_iff)

lemma find_node_cases:
  "find_node i ns = [] \<and> i \<notin> node_ID ` set ns \<or> (\<exists>n \<in> set ns. node_ID n = i \<and> find_node i ns = node_CPUs n)"
  by (induction ns) auto

lemma wf_CPUsOnNode:
  assumes "wf_topology t"
  shows "distinct (CPUsOnNode t i)" and "set (CPUsOnNode t i) \<subseteq> set (allCPUIDs t)"
  using find_node_cases [of i "topo_NUMANodes t"] wf_node_cpus [OF assms]
  by (auto simp: CPUsOnNode_def simp del: set_allCPUIDs) force

lemma CPUsOnNode_node:
  assumes "wf_topology t" and "n \<in> set (topo_NUMANodes t)"
  shows "CPUsOnNode t (node_ID n) = node_CPUs n"
proof -
  have d: "distinct (map node_ID (topo_NUMANodes t))" using assms(1) by (simp add: wf_topology_def)
  have "find_node (node_ID n) ns = node_CPUs n"
    if "distinct (map node_ID ns)" "n \<in> set ns" for ns
    using that by (induction ns) (auto simp: rev_image_eqI)
  with d assms(2) show ?thesis by (simp add: CPUsOnNode_def)
qed

section \<open>Lemmas on the loops\<close>

lemma take_cpus_eq: "take_cpus want acc cp = acc @ take (nat want - length acc) cp"
  by (induction cp arbitrary: acc) (auto simp: take_Cons' nat_le_iff Suc_diff_le)

lemma spill_eq:
  "length acc \<le> nat want \<Longrightarrow>
   spill want acc ns = take (nat want) (acc @ concat (map (\<lambda>n. sort (node_CPUs n)) ns))"
proof (induction ns arbitrary: acc)
  case (Cons n ns)
  show ?case
  proof (cases "want \<le> int (length (take_cpus want acc (sort (node_CPUs n))))")
    case True
    then have "nat want - (length acc + length (node_CPUs n)) = 0"
      by (auto simp: take_cpus_eq)
    with True Cons.prems show ?thesis by (simp add: take_cpus_eq Let_def)
  next
    case False
    then have le: "length acc + length (node_CPUs n) < nat want"
      by (auto simp: take_cpus_eq min_def split: if_splits)
    then have "take_cpus want acc (sort (node_CPUs n)) = acc @ sort (node_CPUs n)"
      by (simp add: take_cpus_eq)
    with False le Cons.IH [of "acc @ sort (node_CPUs n)"] show ?thesis by (simp add: Let_def)
  qed
qed simp

lemma mset_concat_sort: "mset (concat (map (\<lambda>n. sort (f n)) ns)) = mset (concat (map f ns))"
  by (induction ns) auto

lemma candidates_iff:
  "c \<in> set (candidates t want) \<longleftrightarrow>
     (\<exists>n \<in> set (topo_NUMANodes t). want \<le> int (length (node_CPUs n)) \<and>
        c = \<lparr>cand_id = node_ID n, cand_size = length (node_CPUs n), cand_cpus = sort (node_CPUs n)\<rparr>)"
  by (auto simp: candidates_def Let_def)

lemma sort_key_hd_least:
  assumes "sort_key f xs = c # cs" and "x \<in> set xs"
  shows "f c \<le> f x" and "c \<in> set xs"
proof -
  have "sorted (map f (c # cs))" using assms(1) by (metis sorted_sort_key)
  moreover have s: "set (c # cs) = set xs" using assms(1) by (metis set_sort)
  ultimately show "f c \<le> f x" using assms(2) by auto
  from s show "c \<in> set xs" by auto
qed

section \<open>The contract of placement\<close>

text \<open>
  What the runners rely on: a chosen CPU set is ascending, names existing CPUs only, each once, and
  has the requested size (all CPUs when the request is not positive or exceeds the machine).
\<close>

definition request_size :: "Topology \<Rightarrow> int \<Rightarrow> nat" where
  "request_size t want =
     (if want \<le> 0 then length (topo_CPUs t) else min (nat want) (length (topo_CPUs t)))"

locale placement =
  fixes select :: "Topology \<Rightarrow> int \<Rightarrow> int option \<Rightarrow> string \<Rightarrow> 'e + int list"
  assumes select_sorted: "wf_topology t \<Longrightarrow> select t want p s = Inr cpus \<Longrightarrow> sorted cpus"
    and select_distinct: "wf_topology t \<Longrightarrow> select t want p s = Inr cpus \<Longrightarrow> distinct cpus"
    and select_known: "wf_topology t \<Longrightarrow> select t want p s = Inr cpus \<Longrightarrow> set cpus \<subseteq> set (allCPUIDs t)"
    and select_length: "select t want p s = Inr cpus \<Longrightarrow> length cpus = request_size t want"
begin

lemma select_nonempty:
  assumes "select t want p s = Inr cpus" and "topo_CPUs t \<noteq> []"
  shows "cpus \<noteq> []"
  using select_length [OF assms(1)] assms(2) by (auto simp: request_size_def min_def split: if_splits)

lemma select_card:
  "wf_topology t \<Longrightarrow> select t want p s = Inr cpus \<Longrightarrow> card (set cpus) = request_size t want"
  using select_distinct select_length distinct_card by metis

text \<open>The \<^verbatim>\<open>taskset\<close> argument built from a chosen set denotes exactly that set.\<close>

lemma select_taskset:
  assumes "wf_topology t" and "valid_ids (allCPUIDs t)" and "select t want p s = Inr cpus"
  shows "ParseCPUList (CPUsToTasksetSpec cpus) = Some (Inr cpus)"
proof -
  have "valid_ids cpus" using select_known [OF assms(1,3)] assms(2) by (auto simp: valid_ids_def)
  then have "ParseCPUList (CPUsToTasksetSpec cpus) = Some (Inr (sorted_list_of_set (set cpus)))"
    by (rule taskset_codec.parse_print)
  moreover have "sorted_list_of_set (set cpus) = cpus"
    using select_sorted [OF assms(1,3)] select_distinct [OF assms(1,3)]
    by (simp add: sorted_list_of_set_sort_remdups distinct_remdups_id sort_key_id_if_sorted)
  ultimately show ?thesis by simp
qed

end

section \<open>SelectCPUs satisfies the contract\<close>

lemma SelectCPUs_all:
  "want \<le> 0 \<or> int (length (topo_CPUs t)) \<le> want \<Longrightarrow> SelectCPUs t want p s = Inr (allCPUIDs t)"
  by (auto simp: SelectCPUs_def)

definition strategy_ok :: "string \<Rightarrow> bool" where
  "strategy_ok s \<longleftrightarrow> s = [] \<or> s = ''same-numa''"

text \<open>The four sources of a proper selection, as one case rule.\<close>

lemma SelectCPUs_cases:
  assumes "SelectCPUs t want p s = Inr cpus"
  obtains
    (all) "want \<le> 0 \<or> int (length (topo_CPUs t)) \<le> want" "cpus = allCPUIDs t"
  | (no_numa) "0 < want" "want < int (length (topo_CPUs t))" "topo_NUMANodes t = []"
      "cpus = take (nat want) (allCPUIDs t)"
  | (preferred) i where "0 < want" "want < int (length (topo_CPUs t))" "p = Some i"
      "want \<le> int (length (CPUsOnNode t i))" "cpus = take (nat want) (sort (CPUsOnNode t i))"
  | (one_node) c cs where "0 < want" "want < int (length (topo_CPUs t))" "p = None"
      "sort_key cand_key (candidates t want) = c # cs" "cpus = take (nat want) (cand_cpus c)"
  | (spilled) "0 < want" "want < int (length (topo_CPUs t))" "p = None" "candidates t want = []"
      "want \<le> int (length (spill want [] (topo_NUMANodes t)))"
      "cpus = take (nat want) (sort (spill want [] (topo_NUMANodes t)))"
proof (cases "want \<le> 0 \<or> int (length (topo_CPUs t)) \<le> want")
  case True
  with assms show ?thesis by (intro all) (simp_all add: SelectCPUs_all)
next
  case False
  then have w: "0 < want" "want < int (length (topo_CPUs t))" by auto
  show ?thesis
  proof (cases "topo_NUMANodes t = []")
    case True
    with assms w show ?thesis by (intro no_numa) (auto simp: SelectCPUs_def split: if_splits)
  next
    case ns: False
    show ?thesis
    proof (cases p)
      case (Some i)
      with assms w ns show ?thesis
        by (intro preferred [of i]) (auto simp: SelectCPUs_def Let_def split: if_splits)
    next
      case None
      show ?thesis
      proof (cases "sort_key cand_key (candidates t want)")
        case Nil
        then have "candidates t want = []" by (metis length_0_conv length_sort)
        with assms w ns None Nil show ?thesis
          by (intro spilled) (auto simp: SelectCPUs_def Let_def split: if_splits)
      next
        case (Cons c cs)
        with assms w ns None show ?thesis
          by (intro one_node [of c cs]) (auto simp: SelectCPUs_def Let_def split: if_splits)
      qed
    qed
  qed
qed

lemma spill_length: "0 < want \<Longrightarrow> length (spill want [] ns) \<le> nat want"
  by (simp add: spill_eq)

lemma spill_wf:
  assumes "wf_topology t"
  shows "distinct (spill want [] (topo_NUMANodes t))"
    and "set (spill want [] (topo_NUMANodes t)) \<subseteq> set (allCPUIDs t)"
proof -
  let ?all = "concat (map (\<lambda>n. sort (node_CPUs n)) (topo_NUMANodes t))"
  have m: "mset ?all = mset (concat (map node_CPUs (topo_NUMANodes t)))" by (rule mset_concat_sort)
  then have "distinct ?all" using assms by (metis mset_eq_imp_distinct_iff wf_topology_def)
  then show "distinct (spill want [] (topo_NUMANodes t))" by (simp add: spill_eq)
  have "set ?all \<subseteq> set (allCPUIDs t)"
    using assms mset_eq_setD [OF m] by (simp add: wf_topology_def)
  then show "set (spill want [] (topo_NUMANodes t)) \<subseteq> set (allCPUIDs t)"
    using set_take_subset [of "nat want" ?all] by (simp add: spill_eq)
qed

lemma cand_head:
  assumes "sort_key cand_key (candidates t want) = c # cs"
  obtains n where "n \<in> set (topo_NUMANodes t)" "want \<le> int (length (node_CPUs n))"
    "cand_cpus c = sort (node_CPUs n)" "cand_size c = length (node_CPUs n)" "cand_id c = node_ID n"
proof -
  have "c \<in> set (candidates t want)" using assms by (metis list.set_intros(1) set_sort)
  then show ?thesis using that by (auto simp: candidates_iff)
qed

interpretation select: placement SelectCPUs
proof
  fix t want p s cpus
  assume wf: "wf_topology t" and sel: "SelectCPUs t want p s = Inr cpus"
  show "sorted cpus"
    using sel by (cases rule: SelectCPUs_cases) (auto simp: sorted_wrt_take elim!: cand_head)
  show "distinct cpus"
    using sel
    by (cases rule: SelectCPUs_cases)
      (use wf spill_wf(1) wf_CPUsOnNode(1) wf_node_cpus(1) wf_distinct_ids in \<open>auto elim!: cand_head\<close>)
  show "set cpus \<subseteq> set (allCPUIDs t)"
    using sel
  proof (cases rule: SelectCPUs_cases)
    case preferred
    with wf_CPUsOnNode(2) [OF wf] show ?thesis by (metis set_sort set_take_subset subset_trans)
  next
    case one_node
    with wf_node_cpus(2) [OF wf] show ?thesis
      by (metis cand_head set_sort set_take_subset subset_trans)
  next
    case spilled
    with spill_wf(2) [OF wf] show ?thesis by (metis set_sort set_take_subset subset_trans)
  qed (auto dest: in_set_takeD simp del: set_allCPUIDs)
next
  fix t want p s cpus
  assume "SelectCPUs t want p s = Inr cpus"
  then show "length cpus = request_size t want"
    by (cases rule: SelectCPUs_cases) (auto simp: request_size_def elim!: cand_head)
qed

section \<open>Properties of placement\<close>

text \<open>
  C2. Whenever \<^verbatim>\<open>SelectCPUs\<close> succeeds on a well-formed snapshot, whichever of its five routes was taken
  (all CPUs, no NUMA information, preferred node, one fitting node, spill over several nodes), the
  result is a set of existing CPUs listed in ascending order without repetition, and its size is
  exactly the request: \<^verbatim>\<open>want\<close>, or every CPU when \<^verbatim>\<open>want\<close> is not positive or exceeds the machine.
\<close>

theorem SelectCPUs_sound:
  assumes "wf_topology t" and "SelectCPUs t want p s = Inr cpus"
  shows "sorted cpus \<and> distinct cpus \<and> set cpus \<subseteq> set (allCPUIDs t) \<and> length cpus = request_size t want"
  using select.select_sorted [OF assms] select.select_distinct [OF assms] select.select_known [OF assms]
    select.select_length [OF assms(2)] by blast

definition two_node_machine :: Topology where
  "two_node_machine =
     \<lparr>topo_CPUs =
        [\<lparr>cpu_ID = 0, PackageID = 0, CoreID = 0, cpu_NUMANode = 0, Siblings = [0]\<rparr>,
         \<lparr>cpu_ID = 1, PackageID = 0, CoreID = 1, cpu_NUMANode = 0, Siblings = [1]\<rparr>,
         \<lparr>cpu_ID = 2, PackageID = 1, CoreID = 0, cpu_NUMANode = 1, Siblings = [2]\<rparr>,
         \<lparr>cpu_ID = 3, PackageID = 1, CoreID = 1, cpu_NUMANode = 1, Siblings = [3]\<rparr>],
      topo_NUMANodes =
        [\<lparr>node_ID = 0, node_CPUs = [0, 1], Distance = []\<rparr>,
         \<lparr>node_ID = 1, node_CPUs = [2, 3], Distance = []\<rparr>]\<rparr>"

lemma two_node_machine_wf: "wf_topology two_node_machine"
  by code_simp

theorem SelectCPUs_sound_witness:
  "wf_topology two_node_machine \<and>
   SelectCPUs two_node_machine 3 None ''same-numa'' = Inr [0, 1, 2] \<and>
   length [0, 1, 2 :: int] = request_size two_node_machine 3"
proof -
  have sel: "SelectCPUs two_node_machine 3 None ''same-numa'' = Inr [0, 1, 2]" by code_simp
  from SelectCPUs_sound [OF two_node_machine_wf sel] sel two_node_machine_wf show ?thesis by simp
qed

text \<open>
  C33. Locality: without a preferred node, if some NUMA node has at least \<^verbatim>\<open>want\<close> CPUs, the selection
  succeeds and stays inside one node. That node is the largest one and, among the largest, the one
  with the smallest id, and its \<^verbatim>\<open>want\<close> smallest CPUs are taken.
\<close>

theorem SelectCPUs_local:
  assumes "wf_topology t" and "0 < want" and "want < int (length (topo_CPUs t))" and "strategy_ok s"
    and "\<exists>n \<in> set (topo_NUMANodes t). want \<le> int (length (node_CPUs n))"
  shows "\<exists>n \<in> set (topo_NUMANodes t).
    SelectCPUs t want None s = Inr (take (nat want) (sort (node_CPUs n))) \<and>
    (\<forall>m \<in> set (topo_NUMANodes t).
       length (node_CPUs m) < length (node_CPUs n) \<or>
       length (node_CPUs m) = length (node_CPUs n) \<and> node_ID n \<le> node_ID m)"
proof -
  have "candidates t want \<noteq> []" using assms(5) candidates_iff [of _ t want] by fastforce
  then obtain c cs where c: "sort_key cand_key (candidates t want) = c # cs"
    by (metis length_0_conv length_sort list.exhaust)
  then obtain n where n: "n \<in> set (topo_NUMANodes t)" "want \<le> int (length (node_CPUs n))"
    "cand_cpus c = sort (node_CPUs n)" "cand_size c = length (node_CPUs n)" "cand_id c = node_ID n"
    by (rule cand_head)
  have "SelectCPUs t want None s = Inr (take (nat want) (sort (node_CPUs n)))"
    using assms(2,3,4) n(1,3) c
    by (auto simp: SelectCPUs_def Let_def strategy_ok_def)
  moreover have "length (node_CPUs m) < length (node_CPUs n) \<or>
      length (node_CPUs m) = length (node_CPUs n) \<and> node_ID n \<le> node_ID m"
    if m: "m \<in> set (topo_NUMANodes t)" for m
  proof (cases "want \<le> int (length (node_CPUs m))")
    case True
    let ?d = "\<lparr>cand_id = node_ID m, cand_size = length (node_CPUs m), cand_cpus = sort (node_CPUs m)\<rparr>"
    have "?d \<in> set (candidates t want)" using m True by (auto simp: candidates_iff)
    from sort_key_hd_least(1) [OF c this] n(4,5) show ?thesis
      by (auto simp: cand_key_def less_eq_prod_def)
  qed (use n(2) in linarith)
  ultimately show ?thesis using n(1) by blast
qed

theorem SelectCPUs_local_witness:
  "\<exists>n \<in> set (topo_NUMANodes two_node_machine).
    SelectCPUs two_node_machine 2 None ''same-numa'' = Inr (take 2 (sort (node_CPUs n)))"
proof -
  have "(0 :: int) < 2" "2 < int (length (topo_CPUs two_node_machine))" "strategy_ok ''same-numa''"
    "\<exists>n \<in> set (topo_NUMANodes two_node_machine). 2 \<le> int (length (node_CPUs n))"
    by (simp_all add: two_node_machine_def strategy_ok_def)
  from SelectCPUs_local [OF two_node_machine_wf this] show ?thesis by auto
qed

definition numa_total :: "Topology \<Rightarrow> nat" where
  "numa_total t = length (concat (map node_CPUs (topo_NUMANodes t)))"

lemma spill_total: "0 < want \<Longrightarrow> length (spill want [] (topo_NUMANodes t)) = min (nat want) (numa_total t)"
  using mset_eq_length [OF mset_concat_sort [of node_CPUs "topo_NUMANodes t"]] by (simp add: spill_eq numa_total_def)

lemma candidates_total: "candidates t want \<noteq> [] \<Longrightarrow> want \<le> int (numa_total t)"
proof -
  assume "candidates t want \<noteq> []"
  then obtain n where n: "n \<in> set (topo_NUMANodes t)" "want \<le> int (length (node_CPUs n))"
    by (metis candidates_iff list.set_intros(1) neq_Nil_conv)
  from n(1) have "length (node_CPUs n) \<le> numa_total t" unfolding numa_total_def by (rule length_concat_ge)
  with n(2) show ?thesis by linarith
qed

lemma SelectCPUs_unpreferred:
  assumes "0 < want" and "want < int (length (topo_CPUs t))" and "strategy_ok s" and "topo_NUMANodes t \<noteq> []"
  shows "is_ok (SelectCPUs t want None s) \<longleftrightarrow> want \<le> int (numa_total t)"
proof (cases "sort_key cand_key (candidates t want)")
  case Nil
  then have "SelectCPUs t want None s =
      (if min (nat want) (numa_total t) < nat want then Inl (NotEnough want (min (nat want) (numa_total t)))
       else Inr (take (nat want) (sort (spill want [] (topo_NUMANodes t)))))"
    using assms spill_total [of want t] by (auto simp: SelectCPUs_def Let_def strategy_ok_def)
  with assms(1) show ?thesis by (auto simp: is_ok_def)
next
  case (Cons c cs)
  then have "candidates t want \<noteq> []" by auto
  from candidates_total [OF this] Cons assms show ?thesis by (auto simp: SelectCPUs_def Let_def strategy_ok_def is_ok_def)
qed

text \<open>
  When \<^verbatim>\<open>SelectCPUs\<close> fails: exactly for a request of some but not all CPUs where the strategy is
  unknown, or a preferred node has fewer CPUs than requested (an unknown node counts as empty), or no
  node is preferred and all nodes together hold fewer CPUs than requested. In particular an unknown
  strategy and an unknown node pass unnoticed when all CPUs are requested.
\<close>

theorem SelectCPUs_error_iff:
  assumes "wf_topology t"
  shows "\<not> is_ok (SelectCPUs t want p s) \<longleftrightarrow>
    (0 < want \<and> want < int (length (topo_CPUs t))) \<and>
    (\<not> strategy_ok s \<or>
     topo_NUMANodes t \<noteq> [] \<and>
       (case p of
          Some i \<Rightarrow> int (length (CPUsOnNode t i)) < want
        | None \<Rightarrow> int (length (concat (map node_CPUs (topo_NUMANodes t)))) < want))"
    (is "?L \<longleftrightarrow> ?W \<and> (\<not> strategy_ok s \<or> ?N)")
proof (cases ?W)
  case False
  then have "SelectCPUs t want p s = Inr (allCPUIDs t)" by (intro SelectCPUs_all) auto
  with False show ?thesis by (auto simp: is_ok_def)
next
  case w: True
  show ?thesis
  proof (cases "strategy_ok s \<and> topo_NUMANodes t \<noteq> [] \<and> p = None")
    case True
    with w SelectCPUs_unpreferred [of want t s] show ?thesis by (auto simp: numa_total_def)
  next
    case False
    with w show ?thesis
      by (auto simp: SelectCPUs_def Let_def strategy_ok_def is_ok_def split: option.splits)
  qed
qed

theorem SelectCPUs_error_iff_witness:
  "wf_topology two_node_machine \<and>
   \<not> is_ok (SelectCPUs two_node_machine 3 (Some 7) ''same-numa'')"
proof -
  have "int (length (CPUsOnNode two_node_machine 7)) < 3" "(0 :: int) < 3"
    "3 < int (length (topo_CPUs two_node_machine))" "topo_NUMANodes two_node_machine \<noteq> []"
    by (simp_all add: two_node_machine_def CPUsOnNode_def)
  then show ?thesis
    using SelectCPUs_error_iff [OF two_node_machine_wf, of 3 "Some 7" "''same-numa''"] two_node_machine_wf
    by simp
qed

section \<open>The NUMA node of a CPU set\<close>

lemma primary_loop_Some:
  assumes "0 \<le> f"
  shows "primary_loop want (Some f) seen cpus =
    (let hits = filter (\<lambda>c. cpu_ID c \<in> want) cpus in
     if \<forall>c \<in> set hits. cpu_NUMANode c = f then Some (Some f, seen + length hits) else None)"
  using assms by (induction cpus arbitrary: seen) (auto simp: Let_def)

lemma primary_loop_None:
  "primary_loop want None seen cpus =
    (case filter (\<lambda>c. cpu_ID c \<in> want) cpus of
       [] \<Rightarrow> Some (None, seen)
     | h # hs \<Rightarrow>
         if 0 \<le> cpu_NUMANode h \<and> (\<forall>c \<in> set hs. cpu_NUMANode c = cpu_NUMANode h)
         then Some (Some (cpu_NUMANode h), seen + Suc (length hs)) else None)"
  by (induction cpus) (auto simp: Let_def primary_loop_Some)

text \<open>
  \<^verbatim>\<open>PrimaryNUMANodeForCPUs\<close> decides exactly whether a CPU set lies in one NUMA domain: on a snapshot
  with unique CPU ids it answers \<^verbatim>\<open>(node, true)\<close> if and only if the set is not empty and every listed
  id is a CPU of the snapshot whose known node is \<^verbatim>\<open>node\<close>. An unknown id, an unknown node and a set
  that spans nodes all give \<^verbatim>\<open>false\<close>.
\<close>

theorem primary_iff:
  assumes "distinct (map cpu_ID (topo_CPUs t))"
  shows "PrimaryNUMANodeForCPUs (Some t) cpus = (node, True) \<longleftrightarrow>
    cpus \<noteq> [] \<and> 0 \<le> node \<and>
    (\<forall>i \<in> set cpus. \<exists>c \<in> set (topo_CPUs t). cpu_ID c = i \<and> cpu_NUMANode c = node)"
    (is "_ \<longleftrightarrow> ?R")
proof -
  let ?hits = "filter (\<lambda>c. cpu_ID c \<in> set cpus) (topo_CPUs t)"
  have "distinct (map cpu_ID ?hits)" using assms by (rule distinct_map_filter)
  then have len: "length ?hits = card (cpu_ID ` set ?hits)"
    by (metis distinct_card length_map set_map)
  have sub: "cpu_ID ` set ?hits \<subseteq> set cpus" by auto
  have all: "length ?hits = card (set cpus) \<longleftrightarrow> set cpus = cpu_ID ` set ?hits"
    unfolding len using sub by (metis List.finite_set card_subset_eq)
  have "PrimaryNUMANodeForCPUs (Some t) cpus = (node, True) \<longleftrightarrow>
      cpus \<noteq> [] \<and> ?hits \<noteq> [] \<and> (\<forall>c \<in> set ?hits. 0 \<le> cpu_NUMANode c \<and> cpu_NUMANode c = node) \<and>
      set cpus = cpu_ID ` set ?hits"
    using all
    by (cases ?hits) (auto simp: PrimaryNUMANodeForCPUs_def primary_loop_None simp del: set_filter)
  also have "\<dots> \<longleftrightarrow> ?R"
  proof
    assume L: "cpus \<noteq> [] \<and> ?hits \<noteq> [] \<and> (\<forall>c \<in> set ?hits. 0 \<le> cpu_NUMANode c \<and> cpu_NUMANode c = node) \<and>
      set cpus = cpu_ID ` set ?hits"
    then have "0 \<le> node" using hd_in_set [of ?hits] by metis
    moreover have "\<exists>c \<in> set (topo_CPUs t). cpu_ID c = i \<and> cpu_NUMANode c = node" if "i \<in> set cpus" for i
    proof -
      from that L obtain c where "c \<in> set ?hits" "cpu_ID c = i" by (metis imageE)
      with L show ?thesis by auto
    qed
    ultimately show ?R using L by blast
  next
    assume R: ?R
    have one: "cpu_NUMANode c = node" if "c \<in> set ?hits" for c
      using that R assms by (auto simp: distinct_map inj_on_def) blast
    have eq: "set cpus = cpu_ID ` set ?hits" using R by fastforce
    then have "?hits \<noteq> []" using R by (metis image_is_empty list.set(1) set_empty)
    with eq R one show "cpus \<noteq> [] \<and> ?hits \<noteq> [] \<and>
        (\<forall>c \<in> set ?hits. 0 \<le> cpu_NUMANode c \<and> cpu_NUMANode c = node) \<and> set cpus = cpu_ID ` set ?hits"
      by auto
  qed
  finally show ?thesis .
qed

theorem primary_iff_witness: "PrimaryNUMANodeForCPUs (Some two_node_machine) [3, 2] = (1, True)"
proof -
  have "distinct (map cpu_ID (topo_CPUs two_node_machine))" by (simp add: two_node_machine_def)
  then show ?thesis
    by (subst primary_iff) (simp_all add: two_node_machine_def)
qed

text \<open>
  Memory follows the CPUs: on a well-formed snapshot whose CPUs name the node that lists them, a
  request that fits into one node is placed on a node for which \<^verbatim>\<open>PrimaryNUMANodeForCPUs\<close> then answers
  \<^verbatim>\<open>true\<close> with that node's id, so the run command binds memory to the very node its CPUs belong to.
\<close>

theorem local_selection_has_primary:
  assumes "wf_topology t" and "0 < want" and "want < int (length (topo_CPUs t))" and "strategy_ok s"
    and "\<exists>n \<in> set (topo_NUMANodes t). want \<le> int (length (node_CPUs n))"
    and "\<And>n i. n \<in> set (topo_NUMANodes t) \<Longrightarrow> i \<in> set (node_CPUs n) \<Longrightarrow>
      0 \<le> node_ID n \<and> (\<exists>c \<in> set (topo_CPUs t). cpu_ID c = i \<and> cpu_NUMANode c = node_ID n)"
  shows "\<exists>cpus. \<exists>n \<in> set (topo_NUMANodes t). SelectCPUs t want None s = Inr cpus \<and>
    set cpus \<subseteq> set (node_CPUs n) \<and> PrimaryNUMANodeForCPUs (Some t) cpus = (node_ID n, True)"
proof -
  have "candidates t want \<noteq> []" using assms(5) candidates_iff [of _ t want] by fastforce
  then obtain c cs where c: "sort_key cand_key (candidates t want) = c # cs"
    by (metis length_0_conv length_sort list.exhaust)
  then obtain n where n: "n \<in> set (topo_NUMANodes t)" "want \<le> int (length (node_CPUs n))"
    "cand_cpus c = sort (node_CPUs n)" by (rule cand_head)
  let ?cpus = "take (nat want) (sort (node_CPUs n))"
  have sel: "SelectCPUs t want None s = Inr ?cpus"
    using assms(2,3,4) n(1,3) c by (auto simp: SelectCPUs_def Let_def strategy_ok_def)
  have sub: "set ?cpus \<subseteq> set (node_CPUs n)" by (metis set_sort set_take_subset)
  have ne: "?cpus \<noteq> []" using assms(2) n(2) by auto
  have "distinct (map cpu_ID (topo_CPUs t))" using assms(1) by (simp add: wf_topology_def)
  moreover have "0 \<le> node_ID n" using assms(6) [OF n(1)] ne sub by (meson hd_in_set subsetD)
  ultimately have "PrimaryNUMANodeForCPUs (Some t) ?cpus = (node_ID n, True)"
    using ne sub assms(6) [OF n(1)] by (subst primary_iff) blast+
  with sel sub n(1) show ?thesis by blast
qed

theorem local_selection_has_primary_witness:
  "\<exists>cpus. \<exists>n \<in> set (topo_NUMANodes two_node_machine).
    SelectCPUs two_node_machine 2 None ''same-numa'' = Inr cpus \<and> set cpus \<subseteq> set (node_CPUs n) \<and>
    PrimaryNUMANodeForCPUs (Some two_node_machine) cpus = (node_ID n, True)"
  by (rule local_selection_has_primary [OF two_node_machine_wf])
    (auto simp: two_node_machine_def strategy_ok_def)

end
