(* ===== verification/Affinity.thy ===== *)
theory Affinity
  imports Topology
begin

text \<open>
  Pinning commands (pkg/affinity): \<^verbatim>\<open>Command\<close> wraps an argument vector in \<^verbatim>\<open>taskset\<close>
  (command_linux.go, command_stub.go), \<^verbatim>\<open>Run\<close> pins the process itself and replaces it (run_linux.go,
  run_stub.go, opts.go).

  The operating system is an argument: \<^verbatim>\<open>lookPath\<close> for \<^verbatim>\<open>exec.LookPath\<close> and, for \<^verbatim>\<open>Run\<close>, the outcome of each
  system call (\<open>None\<close> for success). A successful \<^verbatim>\<open>syscall.Exec\<close> does not return; the model records the
  system calls made, in order.
\<close>

section \<open>Model\<close>

datatype 'e affinity_error =
    EmptyArgv
  | TasksetRequired 'e
  | PinningNeedsLinux

text \<open>The result is the \<^verbatim>\<open>Args\<close> of the \<^verbatim>\<open>exec.Cmd\<close>: the program and its arguments.\<close>

definition Command :: "(string \<Rightarrow> 'e + string) \<Rightarrow> int list \<Rightarrow> string list \<Rightarrow> 'e affinity_error + string list" where
  "Command lookPath cpuIDs argv =
     (if argv = [] then Inl EmptyArgv
      else if cpuIDs = [] then Inr argv
      else (case lookPath ''taskset'' of
              Inl e \<Rightarrow> Inl (TasksetRequired e)
            | Inr _ \<Rightarrow>
                (let spec = CPUsToTasksetSpec cpuIDs in
                 if spec = [] then Inr argv
                 else Inr ([''taskset'', ''-c'', spec] @ argv))))"

definition Command_stub :: "int list \<Rightarrow> string list \<Rightarrow> 'e affinity_error + string list" where
  "Command_stub cpuIDs argv =
     (if argv = [] then Inl EmptyArgv
      else if cpuIDs \<noteq> [] then Inl PinningNeedsLinux
      else Inr argv)"

record RunOpts =
  Nice :: "int option"

datatype sys_call =
    Setpriority int
  | SchedSetaffinity "int set"
  | Exec string "string list"

datatype 'e run_error =
    EmptyCommand
  | EmptyCPUList
  | LookPathFailed string 'e
  | InvalidCPU int
  | SetpriorityFailed 'e
  | SetaffinityFailed 'e
  | ExecFailed 'e

text \<open>
  A \<^verbatim>\<open>unix.CPUSet\<close> of golang.org/x/sys is a mask of \<^verbatim>\<open>_CPU_SETSIZE\<close> bits, and its \<^verbatim>\<open>Set\<close> ignores a CPU that the mask has no
  bit for, without an error. \<open>build_set\<close> is \<^verbatim>\<open>set.Zero(); for _, id := range cpuIDs { ...; set.Set(id) }\<close>.
\<close>

definition CPU_SETSIZE :: int where
  "CPU_SETSIZE = 1024"

definition CPUSet_Set :: "int \<Rightarrow> int set \<Rightarrow> int set" where
  "CPUSet_Set i s = (if 0 \<le> i \<and> i < CPU_SETSIZE then insert i s else s)"

fun build_set :: "int set \<Rightarrow> int list \<Rightarrow> int + int set" where
  "build_set s [] = Inr s"
| "build_set s (i # is) = (if i < 0 then Inl i else build_set (CPUSet_Set i s) is)"

text \<open>The error \<^verbatim>\<open>Run\<close> returns, if it returns at all, and the system calls it made.\<close>

definition Run ::
  "(string \<Rightarrow> 'e + string) \<Rightarrow> (sys_call \<Rightarrow> 'e option) \<Rightarrow> int list \<Rightarrow> string list \<Rightarrow> RunOpts \<Rightarrow>
   'e run_error option \<times> sys_call list" where
  "Run lookPath sys cpuIDs argv opts =
     (case argv of
        [] \<Rightarrow> (Some EmptyCommand, [])
      | prog # _ \<Rightarrow>
          if cpuIDs = [] then (Some EmptyCPUList, [])
          else (case lookPath prog of
            Inl e \<Rightarrow> (Some (LookPathFailed prog e), [])
          | Inr path \<Rightarrow>
              (case build_set {} cpuIDs of
                 Inl i \<Rightarrow> (Some (InvalidCPU i), [])
               | Inr cset \<Rightarrow>
                   (let pre = (case Nice opts of None \<Rightarrow> [] | Some n \<Rightarrow> [Setpriority n]) in
                    case (case Nice opts of None \<Rightarrow> None | Some n \<Rightarrow> sys (Setpriority n)) of
                      Some e \<Rightarrow> (Some (SetpriorityFailed e), pre)
                    | None \<Rightarrow>
                        (case sys (SchedSetaffinity cset) of
                           Some e \<Rightarrow> (Some (SetaffinityFailed e), pre @ [SchedSetaffinity cset])
                         | None \<Rightarrow>
                             (map_option ExecFailed (sys (Exec path argv)),
                              pre @ [SchedSetaffinity cset, Exec path argv]))))))"

section \<open>Lemmas\<close>

lemma CPUsToTasksetSpec_nonempty: "ids \<noteq> [] \<Longrightarrow> CPUsToTasksetSpec ids \<noteq> []"
proof -
  assume "ids \<noteq> []"
  moreover from this have "sort (uniq_loop {} ids) \<noteq> []"
    by simp (metis Diff_empty set_empty set_uniq_loop)
  ultimately show ?thesis
    using taskset_parts_strings [of "[]" "sort (uniq_loop {} ids)"]
    by (auto simp: CPUsToTasksetSpec_def join_eq_Nil)
qed

lemma Command_ok_iff:
  "Command lookPath cpus argv = Inr args \<longleftrightarrow>
     argv \<noteq> [] \<and>
     (cpus = [] \<and> args = argv \<or>
      cpus \<noteq> [] \<and> is_ok (lookPath ''taskset'') \<and> args = [''taskset'', ''-c'', CPUsToTasksetSpec cpus] @ argv)"
  by (auto simp: Command_def Let_def is_ok_def CPUsToTasksetSpec_nonempty split: sum.splits)

text \<open>The mask passed to \<^verbatim>\<open>sched_setaffinity\<close> for a list of CPUs: those of them that it has a bit for.\<close>

definition affinity_mask :: "int list \<Rightarrow> int set" where
  "affinity_mask cpus = set (filter (\<lambda>i. i < CPU_SETSIZE) cpus)"

lemma affinity_mask_simps [simp]:
  "affinity_mask [] = {}"
  "affinity_mask (i # is) = (if i < CPU_SETSIZE then insert i (affinity_mask is) else affinity_mask is)"
  by (simp_all add: affinity_mask_def)

lemma affinity_mask_set: "affinity_mask cpus = {i \<in> set cpus. i < 1024}"
  by (auto simp: affinity_mask_def CPU_SETSIZE_def)

lemma build_set_spec:
  "build_set s is = (case find (\<lambda>i. i < 0) is of Some i \<Rightarrow> Inl i | None \<Rightarrow> Inr (s \<union> affinity_mask is))"
  by (induction "is" arbitrary: s) (auto simp: CPUSet_Set_def split: option.splits)

section \<open>Properties\<close>

text \<open>
  A pinned command is confined to the CPUs that were chosen for it: for CPUs selected from a
  well-formed snapshot, the command line built by \<^verbatim>\<open>Command\<close> is \<^verbatim>\<open>taskset -c SPEC\<close> followed by the given
  command unchanged, and \<^verbatim>\<open>SPEC\<close> denotes exactly the selected CPUs.
\<close>

theorem pinned_command_confined:
  assumes "wf_topology t" and "valid_ids (allCPUIDs t)" and "topo_CPUs t \<noteq> []"
    and "SelectCPUs t want p s = Inr cpus" and "Command lookPath cpus argv = Inr args"
  shows "\<exists>spec. args = [''taskset'', ''-c'', spec] @ argv \<and> ParseCPUList spec = Some (Inr cpus)"
proof -
  have "cpus \<noteq> []" using select.select_nonempty [OF assms(4,3)] .
  with assms(5) have "args = [''taskset'', ''-c'', CPUsToTasksetSpec cpus] @ argv"
    by (auto simp: Command_ok_iff)
  with select.select_taskset [OF assms(1,2,4)] show ?thesis by blast
qed

theorem pinned_command_confined_witness:
  "\<exists>spec. [''taskset'', ''-c'', ''0-2'', ''make''] = [''taskset'', ''-c'', spec] @ [''make''] \<and>
     ParseCPUList spec = Some (Inr [0, 1, 2])"
proof -
  have v: "valid_ids (allCPUIDs two_node_machine)" by code_simp
  have ne: "topo_CPUs two_node_machine \<noteq> []" by (simp add: two_node_machine_def)
  have sel: "SelectCPUs two_node_machine 3 None ''same-numa'' = Inr [0, 1, 2]" by code_simp
  have "Command (\<lambda>_. Inr ''/usr/bin/taskset'' :: unit + string) [0, 1, 2] [''make''] =
      Inr [''taskset'', ''-c'', ''0-2'', ''make'']"
    by code_simp
  from pinned_command_confined [OF two_node_machine_wf v ne sel this] show ?thesis .
qed

text \<open>
  \<^verbatim>\<open>Run\<close> replaces the process only after it has been pinned: if the last system call is the exec, then
  the CPU affinity was set before it, successfully and to exactly the requested CPUs below 1024, none of them
  negative, and so was the priority when one is requested; and if \<^verbatim>\<open>Run\<close> returns an error of its own
  checks, no system call was made at all.
\<close>

theorem Run_pins_before_exec:
  assumes "Run lookPath sys cpus argv opts = (err, calls)"
  shows "(Exec path args \<in> set calls \<longrightarrow>
      args = argv \<and> cpus \<noteq> [] \<and> (\<forall>i \<in> set cpus. 0 \<le> i) \<and> sys (SchedSetaffinity (affinity_mask cpus)) = None \<and>
      calls = (case Nice opts of None \<Rightarrow> [] | Some n \<Rightarrow> [Setpriority n]) @
        [SchedSetaffinity (affinity_mask cpus), Exec path args] \<and>
      (\<forall>n. Nice opts = Some n \<longrightarrow> sys (Setpriority n) = None)) \<and>
    (err \<in> {Some EmptyCommand, Some EmptyCPUList} \<union> range (\<lambda>i. Some (InvalidCPU i)) \<longrightarrow> calls = [])"
  using assms
  by (auto simp: Run_def Let_def build_set_spec find_None_iff not_less
      split: list.splits if_splits sum.splits option.splits)

theorem Run_pins_before_exec_witness:
  "[SchedSetaffinity {2, 3}, Exec ''/bin/app'' [''app'']] =
     (case Nice \<lparr>Nice = None\<rparr> of None \<Rightarrow> [] | Some n \<Rightarrow> [Setpriority n]) @
     [SchedSetaffinity (affinity_mask [2, 3]), Exec ''/bin/app'' [''app'']]"
proof -
  have r: "Run (\<lambda>_. Inr ''/bin/app'' :: unit + string) (\<lambda>_. None) [2, 3] [''app''] \<lparr>Nice = None\<rparr> =
      (None, [SchedSetaffinity {2, 3}, Exec ''/bin/app'' [''app'']])"
    by (simp add: Run_def CPUSet_Set_def CPU_SETSIZE_def insert_commute)
  from Run_pins_before_exec [OF r, of "''/bin/app''" "[''app'']"] show ?thesis by auto
qed

text \<open>
  A CPU that the mask has no bit for is lost without an error: a request for CPUs 1023 and 1024 pins the command to CPU 1023 alone.
\<close>

lemma Run_drops_high_cpus:
  "Run (\<lambda>_. Inr ''/bin/app'' :: unit + string) (\<lambda>_. None) [1023, 1024] [''app''] \<lparr>Nice = None\<rparr> =
     (None, [SchedSetaffinity {1023}, Exec ''/bin/app'' [''app'']])"
  by (simp add: Run_def CPUSet_Set_def CPU_SETSIZE_def)

end
