(* ===== verification/Dag_Run.thy ===== *)
theory Dag_Run
  imports Dag Affinity
begin

text \<open>
  Running a pipeline (pkg/dag/run.go) and its Prometheus report (pkg/dag/prom.go).

  \<^verbatim>\<open>Runner.Run\<close> starts one command after the other; the environment is an argument: whether the context is
  cancelled before the k-th node, what the k-th command returns and how long it takes, what
  \<^verbatim>\<open>exec.LookPath\<close> and \<^verbatim>\<open>os.WriteFile\<close> answer, and how \<^verbatim>\<open>%g\<close> prints a duration in seconds. The result is the
  error (or none), the commands started in order, and the files written.
\<close>

section \<open>Model: prom.go\<close>

record StepTiming =
  st_ID :: string
  Duration :: int
  ExitCode :: int

definition nl :: string where
  "nl = [CHR 0x0A]"

definition quote :: string where
  "quote = [CHR 0x22]"

definition backslash :: char where
  "backslash = CHR 0x5C"

definition promEscLabel :: "string \<Rightarrow> string" where
  "promEscLabel s =
     replace_all (CHR 0x0A) '' ''
       (replace_all (CHR 0x22) [backslash, CHR 0x22]
         (replace_all backslash [backslash, backslash] s))"

definition prom_line :: "string \<Rightarrow> string \<Rightarrow> string \<Rightarrow> string \<Rightarrow> string" where
  "prom_line metric pl step val =
     metric @ ''{pipeline='' @ quote @ pl @ quote @ '',step='' @ quote @ step @ quote @ ''} '' @ val @ nl"

definition WritePrometheusText :: "(int \<Rightarrow> string) \<Rightarrow> string \<Rightarrow> StepTiming list \<Rightarrow> string" where
  "WritePrometheusText fmtSeconds pipeline steps =
     (let pl = promEscLabel pipeline in
      ''# HELP nexusflow_dag_step_duration_seconds Wall-clock duration of one DAG node.'' @ nl @
      ''# TYPE nexusflow_dag_step_duration_seconds gauge'' @ nl @
      ''# HELP nexusflow_dag_step_exit_code Exit code of DAG node subprocess (-1 if launch failed).'' @ nl @
      ''# TYPE nexusflow_dag_step_exit_code gauge'' @ nl @
      concat (map (\<lambda>st.
        prom_line ''nexusflow_dag_step_duration_seconds'' pl (promEscLabel (st_ID st)) (fmtSeconds (Duration st)) @
        prom_line ''nexusflow_dag_step_exit_code'' pl (promEscLabel (st_ID st)) (itoa (ExitCode st))) steps))"

text \<open>The error of the write and the files written: nothing when no path is configured.\<close>

definition WritePrometheusTextFile ::
  "(int \<Rightarrow> string) \<Rightarrow> (string \<Rightarrow> string \<Rightarrow> 'e option) \<Rightarrow> string \<Rightarrow> string \<Rightarrow> StepTiming list \<Rightarrow>
   'e option \<times> (string \<times> string) list" where
  "WritePrometheusTextFile fmtSeconds writeFile path pipeline steps =
     (if path = [] then (None, [])
      else (let content = WritePrometheusText fmtSeconds pipeline steps in
            (writeFile path content, [(path, content)])))"

section \<open>Model: run.go\<close>

text \<open>What \<^verbatim>\<open>cmd.Run\<close> returns: no error, an \<^verbatim>\<open>*exec.ExitError\<close> with its code, or another error.\<close>

datatype 'e cmd_result = CmdOK | CmdExit int 'e | CmdFailed 'e

record 'e runner_env =
  ctxDone :: "nat \<Rightarrow> 'e option"
  envLookPath :: "string \<Rightarrow> 'e + string"
  runCmd :: "nat \<Rightarrow> string list \<Rightarrow> 'e cmd_result \<times> int"
  fmtSeconds :: "int \<Rightarrow> string"
  writeFile :: "string \<Rightarrow> string \<Rightarrow> 'e option"

datatype 'e runner_error =
    TopologyRequired
  | OrderError dag_error
  | Cancelled 'e
  | SelectError string placement_error
  | CommandError string "'e affinity_error"
  | NodeError string 'e
  | PromError 'e

text \<open>The loop over the ordered nodes. \<open>log\<close> holds the commands started so far.\<close>

fun run_nodes ::
  "'e runner_env \<Rightarrow> Topology \<Rightarrow> string \<Rightarrow> string \<Rightarrow> StepTiming list \<Rightarrow> (Node \<times> string list) list \<Rightarrow>
   Node list \<Rightarrow> 'e runner_error option \<times> (Node \<times> string list) list \<times> (string \<times> string) list" where
  "run_nodes env topo path name timings log [] =
     (case WritePrometheusTextFile (fmtSeconds env) (writeFile env) path name timings of
        (err, files) \<Rightarrow> (map_option PromError err, log, files))"
| "run_nodes env topo path name timings log (n # ns) =
     (case ctxDone env (length log) of
        Some e \<Rightarrow> (Some (Cancelled e), log, [])
      | None \<Rightarrow>
        (case SelectCPUs topo (nd_CPUs n) (nd_NUMANode n) ''same-numa'' of
           Inl e \<Rightarrow> (Some (SelectError (nd_ID n) e), log, [])
         | Inr cpus \<Rightarrow>
           (case Command (envLookPath env) cpus (Cmd n) of
              Inl e \<Rightarrow> (Some (CommandError (nd_ID n) e), log, [])
            | Inr args \<Rightarrow>
              (case runCmd env (length log) args of
                 (res, dur) \<Rightarrow>
                   (let step = (\<lambda>exit. timings @ [\<lparr>st_ID = nd_ID n, Duration = dur, ExitCode = exit\<rparr>]);
                        fail = (\<lambda>exit e.
                          (Some (NodeError (nd_ID n) e), log @ [(n, args)],
                           snd (WritePrometheusTextFile (fmtSeconds env) (writeFile env) path name (step exit))))
                    in case res of
                         CmdExit code e \<Rightarrow> fail code e
                       | CmdFailed e \<Rightarrow> fail (-1) e
                       | CmdOK \<Rightarrow> run_nodes env topo path name (step 0) (log @ [(n, args)]) ns)))))"

definition Runner_Run ::
  "'e runner_env \<Rightarrow> string list \<Rightarrow> Topology option \<Rightarrow> string \<Rightarrow> Pipeline \<Rightarrow>
   'e runner_error option \<times> (Node \<times> string list) list \<times> (string \<times> string) list" where
  "Runner_Run env visit topo promFile p =
     (case topo of
        None \<Rightarrow> (Some TopologyRequired, [], [])
      | Some t \<Rightarrow>
          (case TopoOrder visit (pl_Nodes p) of
             Inl e \<Rightarrow> (Some (OrderError e), [], [])
           | Inr order \<Rightarrow> run_nodes env t promFile (pl_Name p) [] [] order))"

section \<open>Labels\<close>

text \<open>
  How a reader of the exposition format takes a label value: up to the closing quote, where a
  backslash makes the next character literal (and \<^verbatim>\<open>\n\<close> a line feed). The value and the rest.
\<close>

fun read_label :: "string \<Rightarrow> (string \<times> string) option" where
  "read_label [] = None"
| "read_label (c # cs) =
     (if c = CHR 0x22 then Some ([], cs)
      else if c = backslash then
        (case cs of
           [] \<Rightarrow> None
         | d # ds \<Rightarrow> map_option (\<lambda>(v, r). ((if d = CHR 0x6E then CHR 0x0A else d) # v, r)) (read_label ds))
      else if c = CHR 0x0A then None
      else map_option (\<lambda>(v, r). (c # v, r)) (read_label cs))"

lemma replace_all_Cons: "replace_all c w (x # xs) = (if x = c then w else [x]) @ replace_all c w xs"
  by (simp add: replace_all_def)

lemma replace_all_append: "replace_all c w (xs @ ys) = replace_all c w xs @ replace_all c w ys"
  by (simp add: replace_all_def)

lemma replace_all_Nil [simp]: "replace_all c w [] = []"
  by (simp add: replace_all_def)

lemma promEscLabel_Cons:
  "promEscLabel (x # xs) =
     (if x = CHR 0x22 then [backslash, CHR 0x22] else if x = backslash then [backslash, backslash]
      else if x = CHR 0x0A then '' '' else [x]) @ promEscLabel xs"
  by (simp add: promEscLabel_def replace_all_Cons replace_all_append backslash_def)

lemma promEscLabel_Nil [simp]: "promEscLabel [] = []"
  by (simp add: promEscLabel_def)

text \<open>
  Labels in the Prometheus report cannot break out of their quotes: a reader of the exposition
  format that meets an escaped node id or pipeline name followed by the closing quote gets back the
  name itself, line feeds turned into spaces, and continues exactly after that quote.
\<close>

theorem label_roundtrip:
  "read_label (promEscLabel s @ quote @ rest) =
     Some (map (\<lambda>c. if c = CHR 0x0A then CHR 0x20 else c) s, rest)"
proof (induction s)
  case Nil
  then show ?case by (simp add: quote_def)
next
  case (Cons c s)
  then show ?case by (simp add: promEscLabel_Cons backslash_def)
qed

section \<open>What a run does\<close>

definition node_timing :: "'e runner_env \<Rightarrow> nat \<times> Node \<times> string list \<Rightarrow> StepTiming" where
  "node_timing env = (\<lambda>(k, n, args). case runCmd env k args of (res, dur) \<Rightarrow>
     \<lparr>st_ID = nd_ID n, Duration = dur,
      ExitCode = (case res of CmdOK \<Rightarrow> 0 | CmdExit code _ \<Rightarrow> code | CmdFailed _ \<Rightarrow> -1)\<rparr>)"

definition log_timings :: "'e runner_env \<Rightarrow> (Node \<times> string list) list \<Rightarrow> StepTiming list" where
  "log_timings env log = map (node_timing env) (enumerate 0 log)"

definition step_ok :: "'e runner_env \<Rightarrow> (Node \<times> string list) list \<Rightarrow> nat \<Rightarrow> bool" where
  "step_ok env log k \<longleftrightarrow> fst (runCmd env k (snd (log ! k))) = CmdOK"

definition report :: "'e runner_env \<Rightarrow> string \<Rightarrow> string \<Rightarrow> (Node \<times> string list) list \<Rightarrow> (string \<times> string) list" where
  "report env path name log =
     (if path = [] then [] else [(path, WritePrometheusText (fmtSeconds env) name (log_timings env log))])"

definition log_entry_ok :: "'e runner_env \<Rightarrow> Topology \<Rightarrow> Node \<times> string list \<Rightarrow> bool" where
  "log_entry_ok env topo = (\<lambda>(n, args). \<exists>cpus.
     SelectCPUs topo (nd_CPUs n) (nd_NUMANode n) ''same-numa'' = Inr cpus \<and>
     Command (envLookPath env) cpus (Cmd n) = Inr args)"

lemma log_timings_snoc:
  "log_timings env (log @ [(n, args)]) = log_timings env log @ [node_timing env (length log, n, args)]"
  by (simp add: log_timings_def enumerate_append_eq)

text \<open>
  What the loop guarantees when it starts with the entries \<open>log\<close> and the nodes \<open>ns\<close>: the new entries are for the first of these nodes, each as
  the code builds it; all but the last entry succeeded; a run that reaches the report ran every node; a run that
  ends in a failed node reports all entries, the last of which failed.
\<close>

definition run_post ::
  "'e runner_env \<Rightarrow> Topology \<Rightarrow> string \<Rightarrow> string \<Rightarrow> (Node \<times> string list) list \<Rightarrow> Node list \<Rightarrow>
   'e runner_error option \<times> (Node \<times> string list) list \<times> (string \<times> string) list \<Rightarrow> bool" where
  "run_post env topo path name log ns = (\<lambda>(err, log', files). \<exists>new.
     log' = log @ new \<and> prefix (map fst new) ns \<and> list_all (log_entry_ok env topo) new \<and>
     (\<forall>k. Suc k < length log' \<longrightarrow> step_ok env log' k) \<and>
     (err = None \<or> (\<exists>e. err = Some (PromError e)) \<longrightarrow>
        map fst new = ns \<and> (\<forall>k < length log'. step_ok env log' k) \<and> files = report env path name log') \<and>
     (\<forall>i e. err = Some (NodeError i e) \<longrightarrow> files = report env path name log' \<and> log' \<noteq> [] \<and>
        nd_ID (fst (last log')) = i \<and> \<not> step_ok env log' (length log' - 1)))"

lemma run_post_end:
  assumes "\<forall>k < length log. step_ok env log k"
  shows "run_post env topo path name log [] (run_nodes env topo path name (log_timings env log) log [])"
  using assms by (auto simp: run_post_def report_def WritePrometheusTextFile_def Let_def)

text \<open>The loop stops before the node: the context, the placement or the command is at fault.\<close>

lemma run_post_stop:
  assumes "\<forall>k < length log. step_ok env log k" and "err \<noteq> None" and "\<forall>i e. err \<noteq> Some (NodeError i e)"
    and "\<forall>e. err \<noteq> Some (PromError e)"
  shows "run_post env topo path name log ns (err, log, files)"
  using assms by (auto simp: run_post_def)

lemma run_post_failed:
  assumes "\<forall>k < length log. step_ok env log k" and "log_entry_ok env topo (n, args)" and "\<not> step_ok env (log @ [(n, args)]) (length log)"
    and "files = report env path name (log @ [(n, args)])"
  shows "run_post env topo path name log (n # ns) (Some (NodeError (nd_ID n) e), log @ [(n, args)], files)"
proof -
  have "\<forall>k < length log. step_ok env (log @ [(n, args)]) k" using assms(1) by (simp add: step_ok_def nth_append)
  with assms show ?thesis by (auto simp: run_post_def intro!: exI [of _ "[(n, args)]"])
qed

lemma run_post_next:
  assumes "run_post env topo path name (log @ [(n, args)]) ns r" and "log_entry_ok env topo (n, args)"
  shows "run_post env topo path name log (n # ns) r"
proof -
  obtain err log' files where r: "r = (err, log', files)" by (metis prod_cases3)
  from assms(1) obtain new where "log' = (log @ [(n, args)]) @ new" "prefix (map fst new) ns" "list_all (log_entry_ok env topo) new"
    "\<forall>k. Suc k < length log' \<longrightarrow> step_ok env log' k"
    "err = None \<or> (\<exists>e. err = Some (PromError e)) \<longrightarrow>
       map fst new = ns \<and> (\<forall>k < length log'. step_ok env log' k) \<and> files = report env path name log'"
    "\<forall>i e. err = Some (NodeError i e) \<longrightarrow> files = report env path name log' \<and> log' \<noteq> [] \<and>
       nd_ID (fst (last log')) = i \<and> \<not> step_ok env log' (length log' - 1)"
    unfolding run_post_def r prod.case by blast
  then show ?thesis using assms(2) unfolding run_post_def r prod.case by (intro exI [of _ "(n, args) # new"]) auto
qed

text \<open>One turn of the loop, when the node can be placed and its command built.\<close>

lemma run_nodes_turn:
  assumes "ctxDone env (length log) = None" and "SelectCPUs topo (nd_CPUs n) (nd_NUMANode n) ''same-numa'' = Inr cpus"
    and "Command (envLookPath env) cpus (Cmd n) = Inr args" and "runCmd env (length log) args = (res, dur)"
  shows "res = CmdOK \<Longrightarrow> run_nodes env topo path name (log_timings env log) log (n # ns) =
      run_nodes env topo path name (log_timings env (log @ [(n, args)])) (log @ [(n, args)]) ns"
    and "res \<noteq> CmdOK \<Longrightarrow> \<exists>e. run_nodes env topo path name (log_timings env log) log (n # ns) =
      (Some (NodeError (nd_ID n) e), log @ [(n, args)], report env path name (log @ [(n, args)]))"
  using assms
  by (simp_all add: log_timings_snoc node_timing_def,
      cases res) (auto simp: log_timings_snoc node_timing_def report_def WritePrometheusTextFile_def Let_def)

lemma run_nodes_post:
  "\<forall>k < length log. step_ok env log k \<Longrightarrow>
     run_post env topo path name log ns (run_nodes env topo path name (log_timings env log) log ns)"
proof (induction ns arbitrary: log)
  case Nil
  then show ?case by (rule run_post_end)
next
  case (Cons n ns)
  show ?case
  proof (cases "\<exists>cpus args. ctxDone env (length log) = None \<and>
      SelectCPUs topo (nd_CPUs n) (nd_NUMANode n) ''same-numa'' = Inr cpus \<and>
      Command (envLookPath env) cpus (Cmd n) = Inr args")
    case False
    then have "\<exists>err. run_nodes env topo path name (log_timings env log) log (n # ns) = (Some err, log, []) \<and>
        (\<forall>i e. err \<noteq> NodeError i e) \<and> (\<forall>e. err \<noteq> PromError e)"
      by (auto split: option.splits sum.splits)
    then show ?thesis using run_post_stop [OF Cons.prems] by fastforce
  next
    case True
    then obtain cpus args where sel: "ctxDone env (length log) = None"
      "SelectCPUs topo (nd_CPUs n) (nd_NUMANode n) ''same-numa'' = Inr cpus"
      "Command (envLookPath env) cpus (Cmd n) = Inr args" by blast
    then have entry: "log_entry_ok env topo (n, args)" by (auto simp: log_entry_ok_def)
    obtain res dur where r: "runCmd env (length log) args = (res, dur)" by fastforce
    have done_iff: "step_ok env (log @ [(n, args)]) (length log) \<longleftrightarrow> res = CmdOK" using r by (simp add: step_ok_def)
    show ?thesis
    proof (cases "res = CmdOK")
      case ok: True
      then have "\<forall>k < length (log @ [(n, args)]). step_ok env (log @ [(n, args)]) k"
        using Cons.prems done_iff by (auto simp: less_Suc_eq step_ok_def nth_append)
      from run_post_next [OF Cons.IH [OF this] entry] show ?thesis by (simp only: run_nodes_turn(1) [OF sel r ok])
    next
      case bad: False
      with run_nodes_turn(2) [OF sel r] run_post_failed [OF Cons.prems entry _ refl] done_iff show ?thesis by metis
    qed
  qed
qed

lemma run_nodes_spec:
  assumes "run_nodes env topo path name (log_timings env log) log ns = (err, log', files)"
    and "\<forall>k < length log. step_ok env log k"
  shows "\<exists>new. log' = log @ new \<and> prefix (map fst new) ns \<and> list_all (log_entry_ok env topo) new \<and>
    (\<forall>k. Suc k < length log' \<longrightarrow> step_ok env log' k) \<and>
    (err = None \<or> (\<exists>e. err = Some (PromError e)) \<longrightarrow>
       map fst new = ns \<and> (\<forall>k < length log'. step_ok env log' k) \<and> files = report env path name log') \<and>
    (\<forall>i e. err = Some (NodeError i e) \<longrightarrow> files = report env path name log' \<and> log' \<noteq> [] \<and>
       nd_ID (fst (last log')) = i \<and> \<not> step_ok env log' (length log' - 1))"
  using run_nodes_post [OF assms(2), of topo path name ns] by (simp only: assms(1) run_post_def prod.case)

lemma Runner_Run_cases:
  assumes "Runner_Run env visit (Some t) path p = (err, log, files)"
  obtains (refused) e where "err = Some (OrderError e)" "log = []" "files = []"
  | (ran) order where "TopoOrder visit (pl_Nodes p) = Inr order" "prefix (map fst log) order"
      "list_all (log_entry_ok env t) log" "\<forall>k. Suc k < length log \<longrightarrow> step_ok env log k"
      "err = None \<or> (\<exists>e. err = Some (PromError e)) \<longrightarrow>
         map fst log = order \<and> (\<forall>k < length log. step_ok env log k) \<and> files = report env path (pl_Name p) log"
      "\<forall>i e. err = Some (NodeError i e) \<longrightarrow> files = report env path (pl_Name p) log \<and> log \<noteq> [] \<and>
         nd_ID (fst (last log)) = i \<and> \<not> step_ok env log (length log - 1)"
proof (cases "TopoOrder visit (pl_Nodes p)")
  case (Inl e)
  with assms show ?thesis by (intro refused [of e]) (simp_all add: Runner_Run_def)
next
  case (Inr order)
  with assms have "run_nodes env t path (pl_Name p) (log_timings env []) [] order = (err, log, files)"
    by (simp add: Runner_Run_def log_timings_def)
  from run_nodes_spec [OF this] Inr show ?thesis using ran by auto
qed

section \<open>Properties\<close>

text \<open>
  C12. No node of a pipeline starts before all its dependencies have finished with exit status 0: for
  every command \<^verbatim>\<open>Runner.Run\<close> starts and every dependency of its node, an earlier command ran that
  dependency and succeeded. This holds for failed, cancelled and complete runs alike.
\<close>

theorem run_deps_first:
  assumes "visit_order visit (pl_Nodes p)" and "Runner_Run env visit topo path p = (err, log, files)"
    and "k < length log" and "d \<in> set (DependsOn (fst (log ! k)))"
  shows "\<exists>j < k. nd_ID (fst (log ! j)) = d \<and> step_ok env log j"
proof -
  obtain t where t: "topo = Some t"
    using assms(2,3) by (cases topo) (auto simp: Runner_Run_def)
  from assms(2) [unfolded t] show ?thesis
  proof (cases rule: Runner_Run_cases)
    case (ran order)
    have at: "order ! j = fst (log ! j)" if "j < length log" for j
      using ran(2) that by (auto simp: prefix_def nth_append)
    have "length log \<le> length order" using ran(2) prefix_length_le by fastforce
    then obtain j where "j < k" "nd_ID (order ! j) = d"
      using kahn.sorter_deps [OF assms(1) ran(1)] assms(3,4) at [of k]
      unfolding respects_deps_def by (metis order_less_le_trans)
    then show ?thesis using ran(4) assms(3) at [of j] by auto
  qed (use assms(3) in simp)
qed

definition ok_env :: "unit runner_env" where
  "ok_env = \<lparr>ctxDone = \<lambda>_. None, envLookPath = \<lambda>_. Inr ''/usr/bin/taskset'',
     runCmd = \<lambda>k args. (CmdOK, 5), fmtSeconds = \<lambda>_. ''1'', writeFile = \<lambda>_ _. None\<rparr>"

definition demo_pipeline :: Pipeline where
  "demo_pipeline = \<lparr>pl_Name = ''demo'', pl_Nodes =
     [\<lparr>nd_ID = ''b'', Cmd = [''true''], nd_CPUs = 2, nd_NUMANode = None, DependsOn = [''a'']\<rparr>,
      \<lparr>nd_ID = ''a'', Cmd = [''true''], nd_CPUs = 0, nd_NUMANode = None, DependsOn = []\<rparr>]\<rparr>"

lemma demo_visit: "visit_order [''a'', ''b''] (pl_Nodes demo_pipeline)"
  by code_simp

lemma demo_run:
  "Runner_Run ok_env [''a'', ''b''] (Some two_node_machine) [] demo_pipeline =
     (None, [(pl_Nodes demo_pipeline ! 1, [''taskset'', ''-c'', ''0-3'', ''true'']),
             (pl_Nodes demo_pipeline ! 0, [''taskset'', ''-c'', ''0-1'', ''true''])], [])"
  by code_simp

theorem run_deps_first_witness:
  "\<exists>j < 1. nd_ID (fst ([(pl_Nodes demo_pipeline ! 1, [''taskset'', ''-c'', ''0-3'', ''true'']),
     (pl_Nodes demo_pipeline ! 0, [''taskset'', ''-c'', ''0-1'', ''true''])] ! j)) = ''a''"
  using run_deps_first [OF demo_visit demo_run, of 1 "''a''"] by (auto simp: demo_pipeline_def)

text \<open>
  C13. A run that reports success is complete: every node of the pipeline was executed exactly once, every
  command exited with status 0, and when a report file is configured it was written with the timings
  of all of them.
\<close>

theorem run_success_complete:
  assumes "visit_order visit (pl_Nodes p)" and "Runner_Run env visit topo path p = (None, log, files)"
  shows "mset (map fst log) = mset (pl_Nodes p) \<and> (\<forall>k < length log. step_ok env log k) \<and>
    files = report env path (pl_Name p) log"
proof -
  obtain t where t: "topo = Some t"
    using assms(2) by (cases topo) (auto simp: Runner_Run_def)
  from assms(2) [unfolded t] show ?thesis
    by (cases rule: Runner_Run_cases) (auto dest: kahn.sorter_mset [OF assms(1)])
qed

theorem run_success_complete_witness:
  "length (pl_Nodes demo_pipeline) = 2 \<and>
   mset (map fst [(pl_Nodes demo_pipeline ! 1, [''taskset'', ''-c'', ''0-3'', ''true'']),
     (pl_Nodes demo_pipeline ! 0, [''taskset'', ''-c'', ''0-1'', ''true''])]) = mset (pl_Nodes demo_pipeline)"
  using run_success_complete [OF demo_visit demo_run] by (simp add: demo_pipeline_def)

text \<open>
  C14. A failing node stops the run, and the report still covers it: when \<^verbatim>\<open>Runner.Run\<close> returns the error of
  a node, that node was the last one started, every earlier one succeeded, and the report (when one
  is configured) holds the timings of all started nodes, the failing one with its exit code.
\<close>

theorem run_failure_reported:
  assumes "Runner_Run env visit topo path p = (Some (NodeError i e), log, files)"
  shows "log \<noteq> [] \<and> nd_ID (fst (last log)) = i \<and> \<not> step_ok env log (length log - 1) \<and>
    (\<forall>k < length log - 1. step_ok env log k) \<and> files = report env path (pl_Name p) log"
proof -
  obtain t where t: "topo = Some t"
    using assms by (cases topo) (auto simp: Runner_Run_def)
  from assms [unfolded t] show ?thesis
    by (cases rule: Runner_Run_cases) auto
qed

theorem run_failure_reported_witness:
  "snd (last [(pl_Nodes demo_pipeline ! 1, [''taskset'', ''-c'', ''0-3'', ''true''])]) \<noteq> [] \<and>
   nd_ID (fst (last [(pl_Nodes demo_pipeline ! 1, [''taskset'', ''-c'', ''0-3'', ''true''])])) = ''a''"
proof -
  let ?env = "ok_env\<lparr>runCmd := \<lambda>k args. (CmdExit 3 (), 5)\<rparr>"
  have r: "Runner_Run ?env [''a'', ''b''] (Some two_node_machine) [] demo_pipeline =
     (Some (NodeError ''a'' ()), [(pl_Nodes demo_pipeline ! 1, [''taskset'', ''-c'', ''0-3'', ''true''])], [])"
    by code_simp
  from run_failure_reported [OF r] show ?thesis by simp
qed

text \<open>
  Every command a run starts is pinned to a placement of its own node: on a well-formed machine it is
  \<^verbatim>\<open>taskset -c SPEC\<close> followed by the node's command, \<^verbatim>\<open>SPEC\<close> denotes the CPUs selected for the node's
  request, and these are existing CPUs of the requested number.
\<close>

theorem run_pinned:
  assumes "wf_topology t" and "valid_ids (allCPUIDs t)" and "topo_CPUs t \<noteq> []"
    and "Runner_Run env visit (Some t) path p = (err, log, files)" and "(n, args) \<in> set log"
  shows "\<exists>spec cpus. args = [''taskset'', ''-c'', spec] @ Cmd n \<and> ParseCPUList spec = Some (Inr cpus) \<and>
    set cpus \<subseteq> set (allCPUIDs t) \<and> card (set cpus) = request_size t (nd_CPUs n)"
proof -
  from assms(4,5) have "log_entry_ok env t (n, args)"
    by (cases rule: Runner_Run_cases) (auto simp: list_all_iff)
  then obtain cpus where sel: "SelectCPUs t (nd_CPUs n) (nd_NUMANode n) ''same-numa'' = Inr cpus"
    and cmd: "Command (envLookPath env) cpus (Cmd n) = Inr args"
    by (auto simp: log_entry_ok_def)
  have "cpus \<noteq> []" by (rule select.select_nonempty [OF sel assms(3)])
  with cmd have "args = [''taskset'', ''-c'', CPUsToTasksetSpec cpus] @ Cmd n" by (auto simp: Command_ok_iff)
  then show ?thesis
    using select.select_taskset [OF assms(1,2) sel] select.select_known [OF assms(1) sel]
      select.select_card [OF assms(1) sel] by blast
qed

theorem run_pinned_witness:
  "\<exists>spec cpus. [''taskset'', ''-c'', ''0-1'', ''true''] = [''taskset'', ''-c'', spec] @ [''true''] \<and>
     ParseCPUList spec = Some (Inr cpus) \<and> card (set cpus) = request_size two_node_machine 2"
proof -
  have v: "valid_ids (allCPUIDs two_node_machine)" by code_simp
  have ne: "topo_CPUs two_node_machine \<noteq> []" by (simp add: two_node_machine_def)
  from run_pinned [OF two_node_machine_wf v ne demo_run,
      of "pl_Nodes demo_pipeline ! 0" "[''taskset'', ''-c'', ''0-1'', ''true'']"]
  show ?thesis by (auto simp: demo_pipeline_def)
qed

end
