(* ===== verification/Plasma_Graph.thy ===== *)
theory Plasma_Graph
  imports Dag
begin

text \<open>
  The dynamic graph of the Plasma coordinator (pkg/plasma/graph.go): \<^verbatim>\<open>AppendDAG\<close> merges new vertices,
  \<^verbatim>\<open>PickRunnable\<close> chooses the next vertex to execute. The lemmas here are the scheduler's part of the
  coordinator's invariant.
\<close>

section \<open>Model\<close>

fun append_fresh :: "string set \<Rightarrow> string set \<Rightarrow> Node list \<Rightarrow> dag_error + string set" where
  "append_fresh ids pending [] = Inr pending"
| "append_fresh ids pending (n # ns) =
     (if nd_ID n \<in> ids then Inl (DuplicateNode (nd_ID n))
      else append_fresh ids (insert (nd_ID n) pending) ns)"

fun append_node_deps :: "string set \<Rightarrow> string set \<Rightarrow> string \<Rightarrow> string list \<Rightarrow> dag_error + unit" where
  "append_node_deps ids pending nid [] = Inr ()"
| "append_node_deps ids pending nid (d # ds) =
     (if d \<notin> ids \<and> d \<notin> pending then Inl (UnknownDependency nid d)
      else append_node_deps ids pending nid ds)"

fun append_deps :: "string set \<Rightarrow> string set \<Rightarrow> Node list \<Rightarrow> dag_error + unit" where
  "append_deps ids pending [] = Inr ()"
| "append_deps ids pending (n # ns) =
     (if Cmd n = [] then Inl (EmptyCmd (nd_ID n))
      else (case append_node_deps ids pending (nd_ID n) (DependsOn n) of
              Inl e \<Rightarrow> Inl e
            | Inr _ \<Rightarrow> append_deps ids pending ns))"

definition AppendDAG :: "string list \<Rightarrow> Node list \<Rightarrow> Node list \<Rightarrow> dag_error + Node list" where
  "AppendDAG visit existing add =
     (if add = [] then Inr existing
      else
        (let ids = set (map nd_ID existing) in
         case append_fresh ids {} add of
           Inl e \<Rightarrow> Inl e
         | Inr pending \<Rightarrow>
             (case append_deps ids pending add of
                Inl e \<Rightarrow> Inl e
              | Inr _ \<Rightarrow>
                  (let merged = existing @ add in
                   case TopoOrder visit merged of Inl e \<Rightarrow> Inl e | Inr _ \<Rightarrow> Inr merged))))"

definition runnable :: "string set \<Rightarrow> string set \<Rightarrow> Node \<Rightarrow> bool" where
  "runnable completed running n \<longleftrightarrow>
     nd_ID n \<notin> completed \<and> nd_ID n \<notin> running \<and> list_all (\<lambda>d. d \<in> completed) (DependsOn n)"

definition PickRunnable :: "Node list \<Rightarrow> string set \<Rightarrow> string set \<Rightarrow> Node option" where
  "PickRunnable nodes completed running =
     (case sort_key nd_ID (filter (runnable completed running) nodes) of
        [] \<Rightarrow> None
      | n # _ \<Rightarrow> Some n)"

section \<open>Merging\<close>

text \<open>The graphs the coordinator may run: unique ids, resolved dependencies, no cycle.\<close>

definition good_graph :: "Node list \<Rightarrow> bool" where
  "good_graph nodes \<longleftrightarrow> distinct (map nd_ID nodes) \<and> deps_closed nodes \<and> acyclic (dep_rel nodes)"

lemma append_fresh_iff:
  "append_fresh ids pending ns = Inr p \<longleftrightarrow> node_ids ns \<inter> ids = {} \<and> p = pending \<union> node_ids ns"
  by (induction ns arbitrary: pending) (auto simp: node_ids_def)

lemma append_node_deps_iff:
  "append_node_deps ids pending nid ds = Inr u \<longleftrightarrow> set ds \<subseteq> ids \<union> pending"
  by (induction ds) auto

lemma append_deps_iff:
  "append_deps ids pending ns = Inr u \<longleftrightarrow>
     (\<forall>n \<in> set ns. Cmd n \<noteq> [] \<and> set (DependsOn n) \<subseteq> ids \<union> pending)"
proof (induction ns)
  case (Cons n ns)
  then show ?case
    using append_node_deps_iff [of ids pending "nd_ID n" "DependsOn n"]
    by (cases "append_node_deps ids pending (nd_ID n) (DependsOn n)") auto
qed simp

lemma AppendDAG_ok:
  assumes "visit_order visit (existing @ add)" and "AppendDAG visit existing add = Inr merged"
  shows "merged = existing @ add" and "add \<noteq> [] \<Longrightarrow> good_graph merged"
    and "\<forall>n \<in> set add. Cmd n \<noteq> []"
proof -
  show "merged = existing @ add" "\<forall>n \<in> set add. Cmd n \<noteq> []"
    using assms(2)
    by (auto simp: AppendDAG_def Let_def append_deps_iff append_fresh_iff split: if_splits sum.splits)
  assume "add \<noteq> []"
  then have "is_ok (TopoOrder visit (existing @ add))"
    using assms(2) by (auto simp: AppendDAG_def Let_def is_ok_def split: if_splits sum.splits)
  with \<open>merged = existing @ add\<close> show "good_graph merged"
    using kahn.sorter_ok_iff [OF assms(1)] by (simp add: good_graph_def)
qed

lemma AppendDAG_complete:
  assumes "visit_order visit (existing @ add)" and "good_graph (existing @ add)"
    and "\<forall>n \<in> set add. Cmd n \<noteq> []"
  shows "AppendDAG visit existing add = Inr (existing @ add)"
proof -
  let ?ids = "set (map nd_ID existing)"
  have sub: "set (DependsOn n) \<subseteq> ?ids \<union> node_ids add" if "n \<in> set add" for n
  proof -
    have "set (DependsOn n) \<subseteq> node_ids (existing @ add)"
      using assms(2) that unfolding good_graph_def deps_closed_def by simp
    then show ?thesis by (simp add: node_ids_def image_Un)
  qed
  have "node_ids add \<inter> ?ids = {}" using assms(2) by (auto simp: good_graph_def node_ids_def)
  then have p: "append_fresh ?ids {} add = Inr (node_ids add)"
    using append_fresh_iff [of ?ids "{}" add "node_ids add"] by simp
  have d: "append_deps ?ids (node_ids add) add = Inr ()"
    using append_deps_iff [of ?ids "node_ids add" add "()"] assms(3) sub by blast
  have "is_ok (TopoOrder visit (existing @ add))"
    using kahn.sorter_ok_iff [OF assms(1)] assms(2) by (simp add: good_graph_def)
  then obtain ord where "TopoOrder visit (existing @ add) = Inr ord"
    by (cases "TopoOrder visit (existing @ add)") (simp_all add: is_ok_def)
  with p d show ?thesis by (simp add: AppendDAG_def)
qed

text \<open>
  C5. A branch request is accepted exactly when the merged graph is sound: for a non-empty set of new
  vertices, \<^verbatim>\<open>AppendDAG\<close> succeeds if and only if every new vertex has a command and the old and new
  vertices together have unique ids, resolved dependencies and no cycle; it then returns the old
  vertices followed by the new ones. In particular two new vertices with the same id are refused,
  although the function never compares them with each other.
\<close>

theorem AppendDAG_iff:
  assumes "visit_order visit (existing @ add)" and "add \<noteq> []"
  shows "AppendDAG visit existing add = Inr merged \<longleftrightarrow>
    merged = existing @ add \<and> good_graph (existing @ add) \<and> (\<forall>n \<in> set add. Cmd n \<noteq> [])"
  using AppendDAG_ok [OF assms(1)] AppendDAG_complete [OF assms(1)] assms(2) by metis

definition mk_node :: "string \<Rightarrow> string list \<Rightarrow> Node" where
  "mk_node i ds = \<lparr>nd_ID = i, Cmd = [''true''], nd_CPUs = 0, nd_NUMANode = None, DependsOn = ds\<rparr>"

theorem AppendDAG_iff_witness:
  "good_graph [mk_node ''a'' [], mk_node ''b'' [''a'']] \<and>
   \<not> good_graph [mk_node ''a'' [], mk_node ''b'' [], mk_node ''b'' []]"
proof -
  have v: "visit_order [''b'', ''a''] ([mk_node ''a'' []] @ [mk_node ''b'' [''a'']])"
    "visit_order [''b'', ''a''] ([mk_node ''a'' []] @ [mk_node ''b'' [], mk_node ''b'' []])"
    by code_simp+
  have ok: "AppendDAG [''b'', ''a''] [mk_node ''a'' []] [mk_node ''b'' [''a'']] =
      Inr [mk_node ''a'' [], mk_node ''b'' [''a'']]"
    by code_simp
  have no: "AppendDAG [''b'', ''a''] [mk_node ''a'' []] [mk_node ''b'' [], mk_node ''b'' []] =
      Inl CycleOrUnresolved"
    by code_simp
  from AppendDAG_iff [OF v(1), of "[mk_node ''a'' [], mk_node ''b'' [''a'']]"] ok
  have "good_graph [mk_node ''a'' [], mk_node ''b'' [''a'']]" by simp
  moreover from AppendDAG_iff [OF v(2), of "[mk_node ''a'' [], mk_node ''b'' [], mk_node ''b'' []]"] no
  have "\<not> good_graph [mk_node ''a'' [], mk_node ''b'' [], mk_node ''b'' []]"
    by (auto simp: mk_node_def)
  ultimately show ?thesis by blast
qed

section \<open>Picking\<close>

lemma PickRunnable_Some:
  assumes "PickRunnable nodes completed running = Some n"
  shows "n \<in> set nodes" and "runnable completed running n"
    and "m \<in> set nodes \<Longrightarrow> runnable completed running m \<Longrightarrow> nd_ID n \<le> nd_ID m"
proof -
  let ?c = "filter (runnable completed running) nodes"
  from assms obtain ns where s: "sort_key nd_ID ?c = n # ns"
    by (auto simp: PickRunnable_def split: list.splits)
  then have set: "set (n # ns) = set ?c" by (metis set_sort)
  then show "n \<in> set nodes" "runnable completed running n" by auto
  have "sorted (map nd_ID (n # ns))" using s by (metis sorted_sort_key)
  then show "nd_ID n \<le> nd_ID m" if "m \<in> set nodes" "runnable completed running m"
    using that set by auto
qed

lemma PickRunnable_None:
  "PickRunnable nodes completed running = None \<longleftrightarrow> (\<forall>n \<in> set nodes. \<not> runnable completed running n)"
  by (auto simp: PickRunnable_def filter_empty_conv split: list.splits)
    (metis filter_False list.distinct(1) sort_key_Nil_iff)

text \<open>
  \<^verbatim>\<open>PickRunnable\<close> chooses a vertex that may run (neither completed nor running, all dependencies
  completed) and among those the one with the smallest id in byte order, so on a graph with unique
  ids its choice is determined; it chooses none only if there is none.
\<close>

theorem PickRunnable_iff:
  assumes "distinct (map nd_ID nodes)"
  shows "PickRunnable nodes completed running = Some n \<longleftrightarrow>
    n \<in> set nodes \<and> runnable completed running n \<and>
    (\<forall>m \<in> set nodes. runnable completed running m \<longrightarrow> nd_ID n \<le> nd_ID m)" (is "?L \<longleftrightarrow> ?R")
proof
  assume ?L
  then show ?R using PickRunnable_Some by blast
next
  assume R: ?R
  then obtain m where m: "PickRunnable nodes completed running = Some m"
    using PickRunnable_None [of nodes completed running] by fastforce
  have "nd_ID m = nd_ID n"
    using PickRunnable_Some [OF m] R by (meson antisym)
  then have "m = n" using PickRunnable_Some(1) [OF m] R assms by (auto simp: distinct_map inj_on_def)
  with m show ?L by simp
qed

theorem PickRunnable_iff_witness:
  "runnable {''a''} {} (mk_node ''b'' [''a'']) \<and>
   PickRunnable [mk_node ''c'' [], mk_node ''b'' [''a''], mk_node ''a'' []] {''a''} {} =
     Some (mk_node ''b'' [''a''])"
proof -
  have d: "distinct (map nd_ID [mk_node ''c'' [], mk_node ''b'' [''a''], mk_node ''a'' []])" by code_simp
  have p: "PickRunnable [mk_node ''c'' [], mk_node ''b'' [''a''], mk_node ''a'' []] {''a''} {} =
     Some (mk_node ''b'' [''a''])" by code_simp
  from PickRunnable_iff [OF d] p show ?thesis by blast
qed

text \<open>The scheduler cannot get stuck on a good graph: some vertex is ready until all are done.\<close>

lemma good_graph_progress:
  assumes good: "good_graph nodes" and todo: "\<not> node_ids nodes \<subseteq> completed"
  shows "PickRunnable nodes completed {} \<noteq> None"
proof -
  have "wf (dep_rel nodes)"
    using good dep_rel_finite by (intro finite_acyclic_wf) (simp_all add: good_graph_def)
  moreover from todo obtain r where "r \<in> node_ids nodes - completed" by blast
  ultimately obtain m where m: "m \<in> node_ids nodes - completed"
    and least: "\<And>d. (d, m) \<in> dep_rel nodes \<Longrightarrow> d \<notin> node_ids nodes - completed"
    by (metis wfE_min)
  from m obtain n where n: "n \<in> set nodes" "nd_ID n = m" by (auto simp: node_ids_def)
  have "d \<in> completed" if "d \<in> set (DependsOn n)" for d
  proof -
    have "(d, m) \<in> dep_rel nodes" using that n by (auto simp: dep_rel_def)
    moreover have "d \<in> node_ids nodes" using good n(1) that by (auto simp: good_graph_def deps_closed_def)
    ultimately show ?thesis using least by blast
  qed
  then have "runnable completed {} n" using m n(2) by (auto simp: runnable_def list_all_iff)
  with n(1) show ?thesis unfolding PickRunnable_None by blast
qed

end
