(* ===== verification/Plasma_Coordinator.thy ===== *)
theory Plasma_Coordinator
  imports Plasma_Graph Dag_Run "HOL-Library.Word"
begin

text \<open>
  The Plasma coordinator (pkg/plasma/coordinator_linux.go, msgs.go): one scheduling loop and any number
  of connection handlers that share the graph, the sample log, the activity clock and the wake-up
  channel.

  The goroutines interleave: the step relation \<open>cstep\<close> makes one step of the loop, of a handler, or of
  the clock. A step is the code between two points where another goroutine can be seen, that is a
  critical section, a channel operation or a system call. What the operating system, the clients and
  the JSON decoder do is left open by the relation: a theorem about reachable states holds whatever
  they do.
\<close>

section \<open>Model: messages\<close>

type_synonym byte = "8 word"

record SampleRecord =
  sr_NodeID :: string
  sr_Cycles :: "64 word option"
  sr_Instructions :: "64 word option"
  sr_TsNs :: int

record msgSample =
  ms_Op :: string
  ms_NodeID :: string
  ms_Cycles :: "64 word option"
  ms_Instructions :: "64 word option"
  ms_TsNs :: int

record msgBranch =
  mb_Op :: string
  mb_Parent :: string
  mb_Nodes :: "Node list"

record msgRequestFD =
  mr_Op :: string
  mr_Kind :: string

record MsgFDReply =
  fr_Op :: string
  fr_Kind :: string
  fr_Error :: string
  fr_ShmPath :: string
  fr_ShmSize :: int
  fr_IOCReset :: "64 word"
  fr_IOCEnable :: "64 word"
  fr_IOCDisable :: "64 word"

datatype error_text =
    InvalidJSON
  | DecodeError string
  | GraphError dag_error
  | OSError string
  | UnknownKind string
  | UnknownOp string

datatype envelope =
    AckEnvelope string bool
  | ErrEnvelope string error_text
  | FDEnvelope MsgFDReply

text \<open>\<^verbatim>\<open>json.Unmarshal\<close> into the four structs the handler decodes into.\<close>

record decoders =
  dec_op :: "byte list \<Rightarrow> string option"
  dec_sample :: "byte list \<Rightarrow> string + msgSample"
  dec_branch :: "byte list \<Rightarrow> string + msgBranch"
  dec_fd :: "byte list \<Rightarrow> string + msgRequestFD"

section \<open>Model: state\<close>

text \<open>What a handler still has to do for the frame it has read.\<close>

datatype act =
    ABump
  | AWake
  | AReply envelope
  | ASendFD MsgFDReply

datatype coord_error =
    CtxErr string
  | NodeSelect string placement_error
  | NodeCommand string "string affinity_error"
  | NodeRun string string

text \<open>Where the scheduling loop is.\<close>

datatype pc =
    PcTop
  | PcPick
  | PcMark Node
  | PcExec Node
  | PcChild Node "string list"
  | PcRan Node
  | PcFinish Node "coord_error option"
  | PcSignal
  | PcWaitRunning
  | PcQuiesce
  | PcIdle
  | PcTimer
  | PcDone "coord_error option"

text \<open>
  \<open>c_conns\<close> gives for every open connection what its handler has left to do (nothing: it reads the
  next frame). \<open>c_started\<close> and \<open>c_sent\<close> record the processes started and the replies sent, in order.
\<close>

record coordinator =
  c_nodes :: "Node list"
  c_completed :: "string set"
  c_running :: "string set"
  c_samples :: "SampleRecord list"
  c_lastBump :: int
  c_idleAnnounced :: bool
  c_wake :: bool
  c_now :: int
  c_pc :: pc
  c_conns :: "nat \<rightharpoonup> act list"
  c_started :: "(Node \<times> string list) list"
  c_sent :: "(nat \<times> envelope) list"

record coord_cfg =
  cc_topo :: Topology
  cc_lookPath :: "string \<Rightarrow> string + string"
  cc_dec :: decoders
  cc_IdleExit :: int
  cc_ShmPath :: string
  cc_ShmSize :: int

definition bumpActivity :: "coordinator \<Rightarrow> coordinator" where
  "bumpActivity s = s\<lparr>c_lastBump := c_now s\<rparr>"

definition idleSince :: "coordinator \<Rightarrow> int" where
  "idleSince s = c_now s - c_lastBump s"

text \<open>The channel holds one signal; sending to a full channel does nothing.\<close>

definition signalWake :: "coordinator \<Rightarrow> coordinator" where
  "signalWake s = s\<lparr>c_wake := True\<rparr>"

definition coord_init :: "Node list \<Rightarrow> int \<Rightarrow> coordinator" where
  "coord_init nodes now =
     bumpActivity \<lparr>c_nodes = nodes, c_completed = {}, c_running = {}, c_samples = [], c_lastBump = 0,
       c_idleAnnounced = False, c_wake = False, c_now = now, c_pc = PcTop, c_conns = Map.empty,
       c_started = [], c_sent = []\<rparr>"

section \<open>Model: the connection handler\<close>

text \<open>The outcome of the system calls a request for a descriptor makes, and the perf ioctl numbers.\<close>

record fd_os =
  os_open :: "string option"
  os_dup :: "string option"
  os_perf :: "string \<Rightarrow> string option"
  ioc_reset :: "64 word"
  ioc_enable :: "64 word"
  ioc_disable :: "64 word"

definition fd_perf_reply :: "fd_os \<Rightarrow> string \<Rightarrow> act list" where
  "fd_perf_reply os k =
     (case os_perf os k of
        Some e \<Rightarrow> [AReply (ErrEnvelope ''error'' (OSError e))]
      | None \<Rightarrow>
        (case os_dup os of
           Some e \<Rightarrow> [AReply (ErrEnvelope ''error'' (OSError e))]
         | None \<Rightarrow>
             [ABump, ASendFD \<lparr>fr_Op = ''fd_reply'', fr_Kind = k, fr_Error = [], fr_ShmPath = [], fr_ShmSize = 0,
                fr_IOCReset = ioc_reset os, fr_IOCEnable = ioc_enable os, fr_IOCDisable = ioc_disable os\<rparr>]))"

definition handleRequestFD :: "coord_cfg \<Rightarrow> fd_os \<Rightarrow> msgRequestFD \<Rightarrow> act list" where
  "handleRequestFD cfg os m =
     (let k = mr_Kind m in
      if k = ''shm'' then
        (case os_open os of
           Some e \<Rightarrow> [AReply (ErrEnvelope ''error'' (OSError e))]
         | None \<Rightarrow>
           (case os_dup os of
              Some e \<Rightarrow> [AReply (ErrEnvelope ''error'' (OSError e))]
            | None \<Rightarrow>
                [ABump, ASendFD \<lparr>fr_Op = ''fd_reply'', fr_Kind = ''shm'', fr_Error = [], fr_ShmPath = cc_ShmPath cfg,
                   fr_ShmSize = cc_ShmSize cfg, fr_IOCReset = 0, fr_IOCEnable = 0, fr_IOCDisable = 0\<rparr>]))
      else if k = ''perf_cycles'' \<or> k = ''perf_instructions'' then fd_perf_reply os k
      else [AReply (ErrEnvelope ''error'' (UnknownKind k))])"

text \<open>
  One turn of the handler's loop: the body of the frame just read changes the shared state under its
  lock at once; the rest is left to do. \<open>visit\<close> is the map order of the sort inside \<^verbatim>\<open>AppendDAG\<close>.
\<close>

definition handle_frame ::
  "coord_cfg \<Rightarrow> fd_os \<Rightarrow> string list \<Rightarrow> byte list \<Rightarrow> coordinator \<Rightarrow> coordinator \<times> act list" where
  "handle_frame cfg os visit body s =
     (let ack = [ABump, AWake, AReply (AckEnvelope ''ack'' True)];
          fail = (\<lambda>e. (s, [AReply (ErrEnvelope ''error'' e)])) in
      if body = [] then (s, [])
      else (case dec_op (cc_dec cfg) body of
        None \<Rightarrow> fail InvalidJSON
      | Some op \<Rightarrow>
          if op = ''hello'' then (s, [AReply (AckEnvelope ''ack'' True)])
          else if op = ''sample'' then
            (case dec_sample (cc_dec cfg) body of
               Inl e \<Rightarrow> fail (DecodeError e)
             | Inr m \<Rightarrow>
                 (s\<lparr>c_samples := c_samples s @ [\<lparr>sr_NodeID = ms_NodeID m, sr_Cycles = ms_Cycles m,
                     sr_Instructions = ms_Instructions m, sr_TsNs = ms_TsNs m\<rparr>]\<rparr>, ack))
          else if op = ''branch'' then
            (case dec_branch (cc_dec cfg) body of
               Inl e \<Rightarrow> fail (DecodeError e)
             | Inr m \<Rightarrow>
                 (case AppendDAG visit (c_nodes s) (mb_Nodes m) of
                    Inl e \<Rightarrow> fail (GraphError e)
                  | Inr merged \<Rightarrow> (s\<lparr>c_nodes := merged, c_idleAnnounced := False\<rparr>, ack)))
          else if op = ''request_fd'' then
            (case dec_fd (cc_dec cfg) body of
               Inl e \<Rightarrow> fail (DecodeError e)
             | Inr m \<Rightarrow> (s, handleRequestFD cfg os m))
          else fail (UnknownOp op)))"

section \<open>Model: the scheduling loop\<close>

text \<open>The part of \<^verbatim>\<open>execNode\<close> before the process is started: the command line, or the error.\<close>

definition execNode :: "coord_cfg \<Rightarrow> Node \<Rightarrow> coord_error + string list" where
  "execNode cfg n =
     (case SelectCPUs (cc_topo cfg) (nd_CPUs n) (nd_NUMANode n) ''same-numa'' of
        Inl e \<Rightarrow> Inl (NodeSelect (nd_ID n) e)
      | Inr cpus \<Rightarrow>
          (case Command (cc_lookPath cfg) cpus (Cmd n) of
             Inl e \<Rightarrow> Inl (NodeCommand (nd_ID n) e)
           | Inr args \<Rightarrow> Inr args))"

text \<open>The steps of the loop that depend on nothing but the state.\<close>

definition loop_pick :: "coordinator \<Rightarrow> coordinator" where
  "loop_pick s =
     (case PickRunnable (c_nodes s) (c_completed s) (c_running s) of
        Some n \<Rightarrow> s\<lparr>c_pc := PcMark n\<rparr>
      | None \<Rightarrow> if c_running s \<noteq> {} then s\<lparr>c_pc := PcWaitRunning\<rparr> else s\<lparr>c_pc := PcQuiesce\<rparr>)"

definition loop_mark :: "Node \<Rightarrow> coordinator \<Rightarrow> coordinator" where
  "loop_mark n s = s\<lparr>c_running := insert (nd_ID n) (c_running s), c_pc := PcExec n\<rparr>"

definition loop_exec :: "coord_cfg \<Rightarrow> Node \<Rightarrow> coordinator \<Rightarrow> coordinator" where
  "loop_exec cfg n s =
     (case execNode cfg n of
        Inl e \<Rightarrow> s\<lparr>c_pc := PcFinish n (Some e)\<rparr>
      | Inr args \<Rightarrow> s\<lparr>c_started := c_started s @ [(n, args)], c_pc := PcChild n args\<rparr>)"

definition loop_finish :: "Node \<Rightarrow> coord_error option \<Rightarrow> coordinator \<Rightarrow> coordinator" where
  "loop_finish n err s =
     (let s1 = s\<lparr>c_running := c_running s - {nd_ID n}\<rparr> in
      case err of
        Some e \<Rightarrow> s1\<lparr>c_pc := PcDone (Some e)\<rparr>
      | None \<Rightarrow> s1\<lparr>c_completed := insert (nd_ID n) (c_completed s1), c_idleAnnounced := False, c_pc := PcSignal\<rparr>)"

definition loop_quiesce :: "coordinator \<Rightarrow> coordinator" where
  "loop_quiesce s =
     (let st = card (c_running s); total = length (c_nodes s); done = card (c_completed s) in
      s\<lparr>c_idleAnnounced := (st = 0 \<and> total > 0 \<and> done = total \<or> c_idleAnnounced s), c_pc := PcIdle\<rparr>)"

definition loop_timer :: "coord_cfg \<Rightarrow> coordinator \<Rightarrow> coordinator" where
  "loop_timer cfg s =
     (if idleSince s \<ge> cc_IdleExit cfg then s\<lparr>c_pc := PcDone None\<rparr> else s\<lparr>c_pc := PcTop\<rparr>)"

inductive loop_step :: "coord_cfg \<Rightarrow> coordinator \<Rightarrow> coordinator \<Rightarrow> bool" for cfg where
  ctx_done: "c_pc s \<in> {PcTop, PcWaitRunning, PcIdle} \<Longrightarrow> loop_step cfg s (s\<lparr>c_pc := PcDone (Some (CtxErr e))\<rparr>)"
| ctx_default: "c_pc s = PcTop \<Longrightarrow> loop_step cfg s (s\<lparr>c_pc := PcPick\<rparr>)"
| pick: "c_pc s = PcPick \<Longrightarrow> loop_step cfg s (loop_pick s)"
| mark: "c_pc s = PcMark n \<Longrightarrow> loop_step cfg s (loop_mark n s)"
| exec: "c_pc s = PcExec n \<Longrightarrow> loop_step cfg s (loop_exec cfg n s)"
| child_ok: "c_pc s = PcChild n args \<Longrightarrow> loop_step cfg s (s\<lparr>c_pc := PcRan n\<rparr>)"
| child_fail: "c_pc s = PcChild n args \<Longrightarrow> loop_step cfg s (s\<lparr>c_pc := PcFinish n (Some (NodeRun (nd_ID n) e))\<rparr>)"
| ran: "c_pc s = PcRan n \<Longrightarrow> loop_step cfg s ((bumpActivity s)\<lparr>c_pc := PcFinish n None\<rparr>)"
| finish: "c_pc s = PcFinish n err \<Longrightarrow> loop_step cfg s (loop_finish n err s)"
| signal: "c_pc s = PcSignal \<Longrightarrow> loop_step cfg s ((signalWake s)\<lparr>c_pc := PcTop\<rparr>)"
| wait_wake: "c_pc s \<in> {PcWaitRunning, PcIdle} \<Longrightarrow> c_wake s \<Longrightarrow> loop_step cfg s (s\<lparr>c_wake := False, c_pc := PcTop\<rparr>)"
| wait_after: "c_pc s = PcWaitRunning \<Longrightarrow> loop_step cfg s (s\<lparr>c_pc := PcTop\<rparr>)"
| quiesce: "c_pc s = PcQuiesce \<Longrightarrow> loop_step cfg s (loop_quiesce s)"
| idle_after: "c_pc s = PcIdle \<Longrightarrow> loop_step cfg s (s\<lparr>c_pc := PcTimer\<rparr>)"
| timer: "c_pc s = PcTimer \<Longrightarrow> loop_step cfg s (loop_timer cfg s)"

section \<open>Model: the handlers and the whole system\<close>

text \<open>A failed write is ignored, except the one of a descriptor, which is answered with an error.\<close>

inductive conn_step :: "coord_cfg \<Rightarrow> nat \<Rightarrow> coordinator \<Rightarrow> coordinator \<Rightarrow> bool" for cfg c where
  accept: "c_conns s c = None \<Longrightarrow> conn_step cfg c s (s\<lparr>c_conns := (c_conns s)(c \<mapsto> [])\<rparr>)"
| read_error: "c_conns s c = Some [] \<Longrightarrow> conn_step cfg c s (s\<lparr>c_conns := (c_conns s)(c := None)\<rparr>)"
| frame: "c_conns s c = Some [] \<Longrightarrow>
    \<forall>m. dec_branch (cc_dec cfg) body = Inr m \<longrightarrow> visit_order visit (c_nodes s @ mb_Nodes m) \<Longrightarrow>
    handle_frame cfg os visit body s = (s', acts) \<Longrightarrow>
    conn_step cfg c s (s'\<lparr>c_conns := (c_conns s')(c \<mapsto> acts)\<rparr>)"
| act_bump: "c_conns s c = Some (ABump # as) \<Longrightarrow>
    conn_step cfg c s ((bumpActivity s)\<lparr>c_conns := (c_conns s)(c \<mapsto> as)\<rparr>)"
| act_wake: "c_conns s c = Some (AWake # as) \<Longrightarrow>
    conn_step cfg c s ((signalWake s)\<lparr>c_conns := (c_conns s)(c \<mapsto> as)\<rparr>)"
| act_reply: "c_conns s c = Some (AReply r # as) \<Longrightarrow>
    conn_step cfg c s (s\<lparr>c_conns := (c_conns s)(c \<mapsto> as), c_sent := c_sent s @ [(c, r)]\<rparr>)"
| act_reply_lost: "c_conns s c = Some (AReply r # as) \<Longrightarrow>
    conn_step cfg c s (s\<lparr>c_conns := (c_conns s)(c \<mapsto> as)\<rparr>)"
| act_fd: "c_conns s c = Some (ASendFD r # as) \<Longrightarrow>
    conn_step cfg c s (s\<lparr>c_conns := (c_conns s)(c \<mapsto> as), c_sent := c_sent s @ [(c, FDEnvelope r)]\<rparr>)"
| act_fd_fail: "c_conns s c = Some (ASendFD r # as) \<Longrightarrow>
    conn_step cfg c s (s\<lparr>c_conns := (c_conns s)(c \<mapsto> AReply (ErrEnvelope ''error'' (OSError e)) # as)\<rparr>)"

inductive cstep :: "coord_cfg \<Rightarrow> coordinator \<Rightarrow> coordinator \<Rightarrow> bool" for cfg where
  loop: "loop_step cfg s s' \<Longrightarrow> cstep cfg s s'"
| conn: "conn_step cfg c s s' \<Longrightarrow> cstep cfg s s'"
| tick: "0 \<le> d \<Longrightarrow> cstep cfg s (s\<lparr>c_now := c_now s + d\<rparr>)"

inductive coord_reach :: "coord_cfg \<Rightarrow> Node list \<Rightarrow> coordinator \<Rightarrow> bool" for cfg nodes where
  start: "coord_reach cfg nodes (coord_init nodes now)"
| step: "coord_reach cfg nodes s \<Longrightarrow> cstep cfg s s' \<Longrightarrow> coord_reach cfg nodes s'"

section \<open>The invariant\<close>

text \<open>The vertex marked as running, and the vertex whose process was started but is not yet recorded.\<close>

fun busy :: "pc \<Rightarrow> string set" where
  "busy (PcExec n) = {nd_ID n}"
| "busy (PcChild n _) = {nd_ID n}"
| "busy (PcRan n) = {nd_ID n}"
| "busy (PcFinish n _) = {nd_ID n}"
| "busy _ = {}"

fun begun :: "pc \<Rightarrow> string set" where
  "begun (PcChild n _) = {nd_ID n}"
| "begun (PcRan n) = {nd_ID n}"
| "begun (PcFinish n None) = {nd_ID n}"
| "begun _ = {}"

fun chosen :: "pc \<Rightarrow> Node option" where
  "chosen (PcMark n) = Some n"
| "chosen (PcExec n) = Some n"
| "chosen _ = None"

fun failed_pc :: "pc \<Rightarrow> bool" where
  "failed_pc (PcFinish _ (Some _)) = True"
| "failed_pc (PcDone _) = True"
| "failed_pc _ = False"

definition started_ids :: "(Node \<times> string list) list \<Rightarrow> string set" where
  "started_ids log = node_ids (map fst log)"

definition log_inv :: "coord_cfg \<Rightarrow> Node list \<Rightarrow> (Node \<times> string list) list \<Rightarrow> bool" where
  "log_inv cfg nodes log \<longleftrightarrow>
     fst ` set log \<subseteq> set nodes \<and> distinct (map (nd_ID \<circ> fst) log) \<and> respects_deps (map fst log) \<and>
     (\<forall>(n, args) \<in> set log. execNode cfg n = Inr args)"

definition sched_inv ::
  "coord_cfg \<Rightarrow> Node list \<Rightarrow> string set \<Rightarrow> string set \<Rightarrow> pc \<Rightarrow> (Node \<times> string list) list \<Rightarrow> bool" where
  "sched_inv cfg nodes completed running pc log \<longleftrightarrow>
     distinct (map nd_ID nodes) \<and> deps_closed nodes \<and> running = busy pc \<and> log_inv cfg nodes log \<and>
     (\<forall>n. chosen pc = Some n \<longrightarrow> n \<in> set nodes \<and> runnable completed {} n) \<and>
     completed \<union> begun pc \<subseteq> started_ids log \<and>
     (\<not> failed_pc pc \<longrightarrow> started_ids log = completed \<union> begun pc)"

definition coord_inv :: "coord_cfg \<Rightarrow> coordinator \<Rightarrow> bool" where
  "coord_inv cfg s \<longleftrightarrow> sched_inv cfg (c_nodes s) (c_completed s) (c_running s) (c_pc s) (c_started s)"

text \<open>A wake-up is in the channel, or a handler is about to put one there.\<close>

definition wake_pending :: "coordinator \<Rightarrow> bool" where
  "wake_pending s \<longleftrightarrow> c_wake s \<or> (\<exists>c as. c_conns s c = Some as \<and> AWake \<in> set as)"

definition wake_inv :: "coordinator \<Rightarrow> bool" where
  "wake_inv s \<longleftrightarrow>
     (c_pc s \<in> {PcQuiesce, PcIdle, PcTimer, PcDone None} \<longrightarrow>
        PickRunnable (c_nodes s) (c_completed s) {} = None \<or> wake_pending s)"

subsection \<open>The scheduling loop\<close>

lemma node_ids_nth: "d \<in> node_ids ns \<longleftrightarrow> (\<exists>j < length ns. nd_ID (ns ! j) = d)"
  by (auto simp: node_ids_def set_conv_nth)

lemma respects_deps_snoc:
  "respects_deps (ns @ [n]) \<longleftrightarrow> respects_deps ns \<and> set (DependsOn n) \<subseteq> node_ids ns"
proof -
  have sub: "set (DependsOn n) \<subseteq> node_ids ns \<longleftrightarrow>
      (\<forall>d \<in> set (DependsOn n). \<exists>j < length ns. nd_ID (ns ! j) = d)"
    unfolding subset_iff node_ids_nth by blast
  have nth: "(ns @ [n]) ! i = ns ! i" if "i < length ns" for i using that by (simp add: nth_append)
  have early: "(\<exists>j < i. nd_ID ((ns @ [n]) ! j) = d) \<longleftrightarrow> (\<exists>j < i. nd_ID (ns ! j) = d)" if "i \<le> length ns" for i d
    using nth that by (metis order_less_le_trans)
  show ?thesis
    unfolding respects_deps_def sub length_append_singleton All_less_Suc
    using nth early by (simp cong: conj_cong) (rule conj_commute)
qed

lemma log_inv_snoc:
  "log_inv cfg nodes (log @ [(n, args)]) \<longleftrightarrow>
     log_inv cfg nodes log \<and> n \<in> set nodes \<and> nd_ID n \<notin> started_ids log \<and>
     set (DependsOn n) \<subseteq> started_ids log \<and> execNode cfg n = Inr args"
  by (auto simp: log_inv_def respects_deps_snoc started_ids_def node_ids_def)

lemma log_inv_mono: "log_inv cfg nodes log \<Longrightarrow> log_inv cfg (nodes @ add) log"
  by (auto simp: log_inv_def)

lemma started_ids_snoc [simp]: "started_ids (log @ [(n, args)]) = insert (nd_ID n) (started_ids log)"
  by (auto simp: started_ids_def node_ids_def)

lemma loop_pick_inv: "coord_inv cfg s \<Longrightarrow> c_pc s = PcPick \<Longrightarrow> coord_inv cfg (loop_pick s)"
  using PickRunnable_Some(1,2) [of "c_nodes s" "c_completed s" "{}"]
  by (auto simp: coord_inv_def sched_inv_def loop_pick_def split: option.splits)

lemma loop_mark_inv: "coord_inv cfg s \<Longrightarrow> c_pc s = PcMark n \<Longrightarrow> coord_inv cfg (loop_mark n s)"
  by (auto simp: coord_inv_def sched_inv_def loop_mark_def)

lemma loop_exec_inv: "coord_inv cfg s \<Longrightarrow> c_pc s = PcExec n \<Longrightarrow> coord_inv cfg (loop_exec cfg n s)"
  by (auto simp: coord_inv_def sched_inv_def loop_exec_def log_inv_snoc runnable_def list_all_iff split: sum.splits)

lemma loop_finish_inv: "coord_inv cfg s \<Longrightarrow> c_pc s = PcFinish n err \<Longrightarrow> coord_inv cfg (loop_finish n err s)"
  by (cases err) (auto simp: coord_inv_def sched_inv_def loop_finish_def Let_def)

lemma loop_timer_inv: "coord_inv cfg s \<Longrightarrow> c_pc s = PcTimer \<Longrightarrow> coord_inv cfg (loop_timer cfg s)"
  by (auto simp: coord_inv_def sched_inv_def loop_timer_def)

lemma loop_step_inv: "loop_step cfg s s' \<Longrightarrow> coord_inv cfg s \<Longrightarrow> coord_inv cfg s'"
proof (induction rule: loop_step.induct)
  case (ctx_done s e)
  then show ?case by (auto simp: coord_inv_def sched_inv_def)
qed (auto simp: loop_pick_inv loop_mark_inv loop_exec_inv loop_finish_inv loop_timer_inv,
     auto simp: coord_inv_def sched_inv_def bumpActivity_def signalWake_def loop_quiesce_def Let_def)

subsection \<open>The handlers\<close>

lemma handleRequestFD_no_wake: "AWake \<notin> set (handleRequestFD cfg os m)"
  by (simp add: handleRequestFD_def fd_perf_reply_def Let_def split: option.split)

text \<open>What the body of a frame can do to the shared state.\<close>

definition frame_effect ::
  "coord_cfg \<Rightarrow> string list \<Rightarrow> byte list \<Rightarrow> coordinator \<Rightarrow> coordinator \<times> act list \<Rightarrow> bool" where
  "frame_effect cfg visit body s r \<longleftrightarrow>
     fst r = s \<and> AWake \<notin> set (snd r) \<or>
     snd r = [ABump, AWake, AReply (AckEnvelope ''ack'' True)] \<and>
       ((\<exists>smp. fst r = s\<lparr>c_samples := c_samples s @ [smp]\<rparr>) \<or>
        (\<exists>m merged. dec_branch (cc_dec cfg) body = Inr m \<and> AppendDAG visit (c_nodes s) (mb_Nodes m) = Inr merged \<and>
          fst r = s\<lparr>c_nodes := merged, c_idleAnnounced := False\<rparr>))"

lemma handle_frame_effect: "frame_effect cfg visit body s (handle_frame cfg os visit body s)"
proof (cases "dec_op (cc_dec cfg) body")
  case None
  then show ?thesis by (simp add: handle_frame_def Let_def frame_effect_def)
next
  case (Some op)
  consider "body = []" | "body \<noteq> []" "op = ''sample''" | "body \<noteq> []" "op = ''branch''"
    | "body \<noteq> []" "op \<noteq> ''sample''" "op \<noteq> ''branch''" by blast
  then show ?thesis
  proof cases
    case 1
    then show ?thesis by (simp add: handle_frame_def Let_def frame_effect_def)
  next
    case 2
    with Some show ?thesis
      by (cases "dec_sample (cc_dec cfg) body") (auto simp: handle_frame_def Let_def frame_effect_def)
  next
    case 3
    with Some show ?thesis
      by (auto simp: handle_frame_def Let_def frame_effect_def split: sum.split)
  next
    case 4
    with Some show ?thesis
      by (cases "dec_fd (cc_dec cfg) body")
        (simp_all add: handle_frame_def Let_def frame_effect_def handleRequestFD_no_wake)
  qed
qed

lemma handle_frame_cases:
  assumes "handle_frame cfg os visit body s = (s', acts)"
  obtains (same) "s' = s" "AWake \<notin> set acts"
  | (sample) smp where "s' = s\<lparr>c_samples := c_samples s @ [smp]\<rparr>"
      "acts = [ABump, AWake, AReply (AckEnvelope ''ack'' True)]"
  | (branch) m merged where "dec_branch (cc_dec cfg) body = Inr m"
      "AppendDAG visit (c_nodes s) (mb_Nodes m) = Inr merged"
      "s' = s\<lparr>c_nodes := merged, c_idleAnnounced := False\<rparr>"
      "acts = [ABump, AWake, AReply (AckEnvelope ''ack'' True)]"
  using handle_frame_effect [of cfg visit body s os] assms unfolding frame_effect_def fst_conv snd_conv
  by auto

lemma sched_inv_append:
  assumes "sched_inv cfg nodes completed running pc log" and "visit_order visit (nodes @ add)"
    and "AppendDAG visit nodes add = Inr merged"
  shows "sched_inv cfg merged completed running pc log"
proof (cases "add = []")
  case True
  then show ?thesis using assms AppendDAG_ok(1) [OF assms(2,3)] by simp
next
  case False
  from AppendDAG_ok [OF assms(2,3)] False have "merged = nodes @ add" "good_graph merged" by auto
  then show ?thesis
    using assms(1) log_inv_mono [of cfg nodes log add] by (auto simp: sched_inv_def good_graph_def)
qed

lemma conn_step_inv: "conn_step cfg c s s' \<Longrightarrow> coord_inv cfg s \<Longrightarrow> coord_inv cfg s'"
proof (induction rule: conn_step.induct)
  case (frame s body visit os s' acts)
  from frame(3) show ?case
  proof (cases rule: handle_frame_cases)
    case (branch m merged)
    then have "sched_inv cfg merged (c_completed s) (c_running s) (c_pc s) (c_started s)"
      using sched_inv_append frame(2,4) by (auto simp: coord_inv_def)
    then show ?thesis by (simp add: branch coord_inv_def)
  qed (use frame(4) in \<open>simp_all add: coord_inv_def\<close>)
qed (simp_all add: coord_inv_def bumpActivity_def signalWake_def)

lemma cstep_inv: "cstep cfg s s' \<Longrightarrow> coord_inv cfg s \<Longrightarrow> coord_inv cfg s'"
  by (induction rule: cstep.induct) (auto simp: loop_step_inv conn_step_inv, simp add: coord_inv_def)

lemma coord_init_inv:
  "distinct (map nd_ID nodes) \<Longrightarrow> deps_closed nodes \<Longrightarrow> coord_inv cfg (coord_init nodes now)"
  by (simp add: coord_inv_def sched_inv_def coord_init_def bumpActivity_def log_inv_def respects_deps_def
      started_ids_def node_ids_def)

lemma coord_reach_inv:
  "coord_reach cfg nodes s \<Longrightarrow> distinct (map nd_ID nodes) \<Longrightarrow> deps_closed nodes \<Longrightarrow> coord_inv cfg s"
  by (induction rule: coord_reach.induct) (auto intro: coord_init_inv cstep_inv)

subsection \<open>Wake-ups\<close>

lemma wake_pending_upd:
  "c_wake s \<Longrightarrow> wake_pending s"
  "c_conns s c = Some as \<Longrightarrow> AWake \<in> set as \<Longrightarrow> wake_pending s"
  by (auto simp: wake_pending_def)

lemma wake_pending_conns:
  assumes "wake_pending s" and "\<forall>as. c_conns s c = Some as \<longrightarrow> AWake \<notin> set as"
    and "c_wake s' = c_wake s" and "c_conns s' = (c_conns s)(c := r)"
  shows "wake_pending s'"
  using assms unfolding wake_pending_def by (metis fun_upd_apply)

lemma wake_pending_tail:
  assumes "wake_pending s" and "c_conns s c = Some (a # as)" and "a \<noteq> AWake" and "set as \<subseteq> set bs"
    and "c_wake s' = c_wake s" and "c_conns s' = (c_conns s)(c \<mapsto> bs)"
  shows "wake_pending s'"
  using assms unfolding wake_pending_def
  by (metis fun_upd_apply option.inject set_ConsD subsetD)

lemma loop_step_wake: "loop_step cfg s s' \<Longrightarrow> coord_inv cfg s \<Longrightarrow> wake_inv s \<Longrightarrow> wake_inv s'"
proof (induction rule: loop_step.induct)
  case (pick s)
  then have "c_running s = {}" by (simp add: coord_inv_def sched_inv_def)
  then show ?case by (auto simp: wake_inv_def loop_pick_def split: option.splits)
qed (auto simp: wake_inv_def wake_pending_def loop_mark_def loop_exec_def loop_finish_def loop_quiesce_def
    loop_timer_def bumpActivity_def signalWake_def Let_def split: sum.splits option.splits)

text \<open>A step of a handler that takes no wake-up away, and leaves alone what the scheduler looks at.\<close>

definition same_sched :: "coordinator \<Rightarrow> coordinator \<Rightarrow> bool" where
  "same_sched s s' \<longleftrightarrow>
     c_nodes s' = c_nodes s \<and> c_completed s' = c_completed s \<and> c_pc s' = c_pc s \<and> c_wake s' = c_wake s"

lemma wake_inv_conns:
  assumes "wake_inv s" and "\<forall>as. c_conns s c = Some as \<longrightarrow> AWake \<notin> set as" and "same_sched s s'"
    and "c_conns s' = (c_conns s)(c := r)"
  shows "wake_inv s'"
  using wake_pending_conns [OF _ assms(2) _ assms(4)] assms(1,3) by (auto simp: wake_inv_def same_sched_def)

lemma wake_inv_tail:
  assumes "wake_inv s" and "c_conns s c = Some (a # as)" and "a \<noteq> AWake" and "set as \<subseteq> set bs" and "same_sched s s'"
    and "c_conns s' = (c_conns s)(c \<mapsto> bs)"
  shows "wake_inv s'"
  using wake_pending_tail [OF _ assms(2-4) _ assms(6)] assms(1,5) by (auto simp: wake_inv_def same_sched_def)

lemma wake_inv_frame:
  assumes "handle_frame cfg os visit body s = (s', acts)" and "c_conns s c = Some []" and "wake_inv s"
  shows "wake_inv (s'\<lparr>c_conns := (c_conns s')(c \<mapsto> acts)\<rparr>)"
  using assms(1)
proof (cases rule: handle_frame_cases)
  case same
  then show ?thesis using assms(2) by (intro wake_inv_conns [OF assms(3), of c _ "Some acts"]) (simp_all add: same_sched_def)
qed (auto simp: wake_inv_def wake_pending_def)

lemma conn_step_wake: "conn_step cfg c s s' \<Longrightarrow> wake_inv s \<Longrightarrow> wake_inv s'"
proof (induction rule: conn_step.induct)
  case (frame s body visit os s' acts)
  show ?case by (rule wake_inv_frame [OF frame(3,1,4)])
next
  case (accept s)
  then show ?case by (intro wake_inv_conns [OF accept(2), of c _ "Some []"]) (simp_all add: same_sched_def)
next
  case (read_error s)
  then show ?case by (intro wake_inv_conns [OF read_error(2), of c _ None]) (simp_all add: same_sched_def)
next
  case (act_wake s as)
  then show ?case by (simp add: wake_inv_def wake_pending_def signalWake_def)
next
  case (act_fd_fail s r as e)
  then show ?case by (intro wake_inv_tail [OF act_fd_fail(2,1)]) (auto simp: same_sched_def)
qed (erule (1) wake_inv_tail; simp add: same_sched_def bumpActivity_def)+

lemma coord_reach_wake:
  assumes "coord_reach cfg nodes s" and "distinct (map nd_ID nodes)" and "deps_closed nodes"
  shows "wake_inv s"
  using assms(1)
proof (induction rule: coord_reach.induct)
  case (start now)
  then show ?case by (simp add: wake_inv_def coord_init_def bumpActivity_def)
next
  case (step s s')
  from step(2) show ?case
  proof (cases rule: cstep.cases)
    case loop
    then show ?thesis using loop_step_wake coord_reach_inv [OF step(1) assms(2,3)] step(3) by blast
  next
    case (conn c)
    then show ?thesis using conn_step_wake step(3) by blast
  next
    case (tick d)
    then show ?thesis using step(3) by (simp add: wake_inv_def wake_pending_def)
  qed
qed

section \<open>Properties of every interleaving\<close>

lemmas loop_defs =
  loop_pick_def loop_mark_def loop_exec_def loop_finish_def loop_quiesce_def loop_timer_def
  bumpActivity_def signalWake_def

lemma Validate_graph:
  "Validate (Some p) = Inr () \<Longrightarrow> distinct (map nd_ID (pl_Nodes p)) \<and> deps_closed (pl_Nodes p)"
  by (simp add: Validate_accepts)

definition one_node :: Pipeline where
  "one_node = \<lparr>pl_Name = ''p'', pl_Nodes = [mk_node ''a'' []]\<rparr>"

definition demo_cfg :: coord_cfg where
  "demo_cfg = \<lparr>cc_topo = two_node_machine, cc_lookPath = (\<lambda>_. Inr ''/usr/bin/taskset''),
     cc_dec = \<lparr>dec_op = (\<lambda>_. Some ''branch''), dec_sample = (\<lambda>_. Inl []),
       dec_branch = (\<lambda>_. Inr \<lparr>mb_Op = ''branch'', mb_Parent = ''a'', mb_Nodes = [mk_node ''b'' [''a'']]\<rparr>),
       dec_fd = (\<lambda>_. Inl [])\<rparr>,
     cc_IdleExit = 15000, cc_ShmPath = ''/dev/shm/nexusflow-plasma'', cc_ShmSize = 65536\<rparr>"

definition fd_fails :: fd_os where
  "fd_fails = \<lparr>os_open = Some ''EACCES'', os_dup = None, os_perf = (\<lambda>_. Some ''EACCES''),
     ioc_reset = 0, ioc_enable = 0, ioc_disable = 0\<rparr>"

lemma one_node_valid: "Validate (Some one_node) = Inr ()"
  by code_simp

text \<open>
  C3. However the scheduling loop and the connection handlers interleave, and whatever clients send, the
  coordinator started from a validated pipeline runs no vertex twice, starts a vertex only after the
  processes of all its dependencies have finished and been recorded as completed, has at most one
  vertex running, and starts for each vertex the command line that its CPU request gives.
\<close>

theorem started_once_in_order:
  assumes "Validate (Some p) = Inr ()" and "coord_reach cfg (pl_Nodes p) s" and "cstep cfg s s'"
    and "(n, args) \<in> set (c_started s') - set (c_started s)"
  shows "set (DependsOn n) \<subseteq> c_completed s \<and> n \<in> set (c_nodes s) \<and> nd_ID n \<notin> started_ids (c_started s) \<and>
    execNode cfg n = Inr args \<and> c_running s' = {nd_ID n} \<and>
    distinct (map (nd_ID \<circ> fst) (c_started s')) \<and> respects_deps (map fst (c_started s'))"
proof -
  note graph = Validate_graph [OF assms(1), THEN conjunct1] Validate_graph [OF assms(1), THEN conjunct2]
  have inv: "coord_inv cfg s" by (rule coord_reach_inv [OF assms(2) graph])
  then have inv': "coord_inv cfg s'" using assms(3) cstep_inv by blast
  have conn: "c_started s1 = c_started s" if "conn_step cfg c s s1" for c s1
    using that
  proof (cases rule: conn_step.cases)
    case (frame body visit os s'' acts)
    from frame(4) show ?thesis by (cases rule: handle_frame_cases) (simp_all add: frame(1))
  qed (simp_all add: bumpActivity_def signalWake_def)
  have pc: "c_pc s = PcExec n \<and> s' = loop_exec cfg n s \<and> execNode cfg n = Inr args"
    using assms(3)
  proof (cases rule: cstep.cases)
    case loop
    then show ?thesis using assms(4)
      by (cases rule: loop_step.cases)
        (auto simp: loop_defs Let_def split: option.splits sum.splits if_splits)
  qed (use conn assms(4) in auto)
  then show ?thesis
    using inv inv'
    by (auto simp: coord_inv_def sched_inv_def loop_exec_def log_inv_def runnable_def list_all_iff)
qed

lemma good_graph_reach:
  assumes "coord_reach cfg nodes s" and "good_graph nodes"
  shows "good_graph (c_nodes s)"
  using assms(1)
proof (induction rule: coord_reach.induct)
  case (start now)
  then show ?case using assms(2) by (simp add: coord_init_def bumpActivity_def)
next
  case (step s s')
  have conn: "good_graph (c_nodes s1)" if "conn_step cfg c s s1" for c s1
    using that
  proof (cases rule: conn_step.cases)
    case (frame body visit os s'' acts)
    from frame(4) show ?thesis
    proof (cases rule: handle_frame_cases)
      case (branch m merged)
      then have v: "visit_order visit (c_nodes s @ mb_Nodes m)" using frame(3) by blast
      from AppendDAG_ok [OF v branch(2)] step(3) have "good_graph merged" by (cases "mb_Nodes m = []") auto
      with branch frame(1) show ?thesis by simp
    qed (use frame(1) step(3) in simp_all)
  qed (use step(3) in \<open>simp_all add: bumpActivity_def signalWake_def\<close>)
  from step(2) show ?case
  proof (cases rule: cstep.cases)
    case loop
    then have "c_nodes s' = c_nodes s"
      by (cases rule: loop_step.cases)
        (auto simp: loop_defs Let_def split: option.splits sum.splits)
    with step(3) show ?thesis by simp
  qed (use conn step(3) in auto)
qed

text \<open>
  C11. No wake-up is lost. Whenever the loop waits for the graph to change, checks its idle timeout or has ended without an error, then
  no vertex of the graph, those merged by clients included, is ready to run, or a wake-up is in the channel, or
  a handler is about to put one there. If moreover the pipeline has no cycle, then every vertex is
  completed or a wake-up is pending; a pipeline with a cycle leaves its vertices incomplete.
\<close>

theorem no_lost_wakeup:
  assumes "Validate (Some p) = Inr ()" and "coord_reach cfg (pl_Nodes p) s"
    and "c_pc s \<in> {PcQuiesce, PcIdle, PcTimer, PcDone None}"
  shows "((\<forall>n \<in> set (c_nodes s). \<not> runnable (c_completed s) {} n) \<or> wake_pending s) \<and>
    (acyclic (dep_rel (pl_Nodes p)) \<longrightarrow> node_ids (c_nodes s) \<subseteq> c_completed s \<or> wake_pending s)"
proof -
  note closed = Validate_graph [OF assms(1)]
  then have "wake_inv s" using coord_reach_wake [OF assms(2)] by simp
  then have rest: "PickRunnable (c_nodes s) (c_completed s) {} = None \<or> wake_pending s"
    using assms(3) by (auto simp: wake_inv_def)
  moreover have "node_ids (c_nodes s) \<subseteq> c_completed s \<or> wake_pending s" if "acyclic (dep_rel (pl_Nodes p))"
  proof -
    have "good_graph (pl_Nodes p)" using closed that by (simp add: good_graph_def)
    with rest good_graph_progress good_graph_reach [OF assms(2)] show ?thesis by blast
  qed
  ultimately show ?thesis unfolding PickRunnable_None by blast
qed

section \<open>Progress of the loop\<close>

text \<open>
  The loop on its own, when the context is not cancelled and every process it starts succeeds: it is
  then deterministic until it waits.
\<close>

definition loop_next :: "coord_cfg \<Rightarrow> coordinator \<Rightarrow> coordinator" where
  "loop_next cfg s =
     (case c_pc s of
        PcTop \<Rightarrow> s\<lparr>c_pc := PcPick\<rparr>
      | PcPick \<Rightarrow> loop_pick s
      | PcMark n \<Rightarrow> loop_mark n s
      | PcExec n \<Rightarrow> loop_exec cfg n s
      | PcChild n _ \<Rightarrow> s\<lparr>c_pc := PcRan n\<rparr>
      | PcRan n \<Rightarrow> (bumpActivity s)\<lparr>c_pc := PcFinish n None\<rparr>
      | PcFinish n err \<Rightarrow> loop_finish n err s
      | PcSignal \<Rightarrow> (signalWake s)\<lparr>c_pc := PcTop\<rparr>
      | PcQuiesce \<Rightarrow> loop_quiesce s
      | _ \<Rightarrow> s)"

lemma loop_next_step: "loop_next cfg s = s \<or> loop_step cfg s (loop_next cfg s)"
  by (cases "c_pc s") (auto simp: loop_next_def intro: loop_step.intros)

lemma loop_next_reach: "coord_reach cfg nodes s \<Longrightarrow> coord_reach cfg nodes ((loop_next cfg ^^ k) s)"
  by (induction k) (auto, metis coord_reach.step cstep.loop loop_next_step)

text \<open>Eight steps run one vertex.\<close>

lemma loop_round:
  assumes "c_pc s = PcTop" and "c_running s = {}"
    and "PickRunnable (c_nodes s) (c_completed s) {} = Some n" and "execNode cfg n = Inr args"
  shows "(loop_next cfg ^^ 8) s = s\<lparr>c_completed := insert (nd_ID n) (c_completed s), c_running := {},
    c_lastBump := c_now s, c_idleAnnounced := False, c_wake := True, c_pc := PcTop,
    c_started := c_started s @ [(n, args)]\<rparr>"
  using assms
  by (simp add: eval_nat_numeral loop_next_def loop_defs Let_def)

lemma loop_rest:
  assumes "c_pc s = PcTop" and "c_running s = {}" and "PickRunnable (c_nodes s) (c_completed s) {} = None"
  shows "(loop_next cfg ^^ 3) s = s\<lparr>c_pc := PcIdle, c_idleAnnounced :=
    (c_nodes s \<noteq> [] \<and> card (c_completed s) = length (c_nodes s) \<or> c_idleAnnounced s)\<rparr>"
  using assms by (simp add: eval_nat_numeral loop_next_def loop_defs Let_def)

lemma node_ids_finite [simp]: "finite (node_ids nodes)"
  by (simp add: node_ids_def)

lemma completed_known:
  assumes "coord_inv cfg s"
  shows "c_completed s \<subseteq> node_ids (c_nodes s)"
proof -
  have "c_completed s \<subseteq> started_ids (c_started s)" "fst ` set (c_started s) \<subseteq> set (c_nodes s)"
    using assms by (auto simp: coord_inv_def sched_inv_def log_inv_def)
  moreover have "started_ids (c_started s) = nd_ID ` fst ` set (c_started s)"
    by (simp add: started_ids_def node_ids_def)
  ultimately show ?thesis unfolding node_ids_def by (metis image_mono order_trans)
qed

lemma loop_completes:
  assumes "coord_reach cfg nodes s" and "good_graph nodes" and "c_pc s = PcTop" and "c_nodes s = nodes"
    and "\<forall>n \<in> set nodes. is_ok (execNode cfg n)" and "card (node_ids nodes - c_completed s) = m"
  shows "c_pc ((loop_next cfg ^^ (8 * m + 3)) s) = PcIdle \<and>
    c_completed ((loop_next cfg ^^ (8 * m + 3)) s) = node_ids nodes \<and>
    c_nodes ((loop_next cfg ^^ (8 * m + 3)) s) = nodes"
  using assms
proof (induction m arbitrary: s)
  case 0
  have inv: "coord_inv cfg s" using coord_reach_inv 0(1,2) by (auto simp: good_graph_def)
  then have run: "c_running s = {}" using 0(3) by (simp add: coord_inv_def sched_inv_def)
  have sub: "node_ids nodes \<subseteq> c_completed s" using 0(6) by auto
  have "c_completed s \<subseteq> node_ids nodes"
    using completed_known [OF inv] 0(4) by simp
  moreover have "PickRunnable (c_nodes s) (c_completed s) {} = None"
    using sub 0(4) by (auto simp: PickRunnable_None runnable_def node_ids_def)
  ultimately show ?case using loop_rest [OF 0(3) run] sub 0(4) by auto
next
  case (Suc m)
  have inv: "coord_inv cfg s" using coord_reach_inv Suc(2,3) by (auto simp: good_graph_def)
  then have run: "c_running s = {}" using Suc(4) by (simp add: coord_inv_def sched_inv_def)
  have "\<not> node_ids nodes \<subseteq> c_completed s" using Suc(7) by (metis Diff_eq_empty_iff card.empty nat.distinct(1))
  then obtain n where n: "PickRunnable (c_nodes s) (c_completed s) {} = Some n"
    using good_graph_progress [OF Suc(3)] Suc(5) by fastforce
  have mem: "n \<in> set nodes" "nd_ID n \<notin> c_completed s"
    using PickRunnable_Some(1,2) [OF n] Suc(5) by (auto simp: runnable_def)
  then obtain args where "execNode cfg n = Inr args" using Suc(6) by (auto simp: is_ok_iff)
  note round = loop_round [OF Suc(4) run n this]
  let ?s = "(loop_next cfg ^^ 8) s"
  have "node_ids nodes - c_completed ?s = (node_ids nodes - c_completed s) - {nd_ID n}"
    by (auto simp: round)
  moreover have "nd_ID n \<in> node_ids nodes - c_completed s" using mem by (auto simp: node_ids_def)
  ultimately have "card (node_ids nodes - c_completed ?s) = m"
    using Suc(7) by (metis card_Diff_singleton diff_Suc_1)
  moreover have "c_pc ?s = PcTop" "c_nodes ?s = nodes" using Suc(5) by (simp_all add: round)
  ultimately have "c_pc ((loop_next cfg ^^ (8 * m + 3)) ?s) = PcIdle \<and>
      c_completed ((loop_next cfg ^^ (8 * m + 3)) ?s) = node_ids nodes \<and>
      c_nodes ((loop_next cfg ^^ (8 * m + 3)) ?s) = nodes"
    using Suc.IH [OF loop_next_reach [OF Suc(2)] Suc(3)] Suc(6) by blast
  moreover have "(loop_next cfg ^^ (8 * m + 3)) ?s = (loop_next cfg ^^ (8 * Suc m + 3)) s"
    by (metis (no_types, lifting) ab_semigroup_add_class.add_ac(1) add.commute comp_apply funpow_add mult_Suc_right)
  ultimately show ?case by metis
qed

text \<open>
  C10. The loop makes progress. On a validated pipeline without cycles whose vertices can all be placed on
  the machine, when no process fails and no client interferes, the loop runs every vertex exactly
  once and then waits, idle, after eight steps per vertex and three more. \<open>loop_next\<close> lets every process succeed; the steps it takes are
  steps of the coordinator, so the state it ends in is one the coordinator reaches.
\<close>

theorem loop_runs_everything:
  assumes "Validate (Some p) = Inr ()" and "acyclic (dep_rel (pl_Nodes p))"
    and "\<forall>n \<in> set (pl_Nodes p). is_ok (execNode cfg n)"
    and "s = (loop_next cfg ^^ (8 * length (pl_Nodes p) + 3)) (coord_init (pl_Nodes p) now)"
  shows "coord_reach cfg (pl_Nodes p) s \<and> c_pc s = PcIdle \<and> c_completed s = node_ids (pl_Nodes p) \<and>
    length (c_started s) = length (pl_Nodes p) \<and> set (map fst (c_started s)) = set (pl_Nodes p)"
proof -
  let ?ns = "pl_Nodes p" and ?s0 = "coord_init (pl_Nodes p) now"
  have good: "good_graph ?ns" using Validate_graph [OF assms(1)] assms(2) by (simp add: good_graph_def)
  have init: "c_pc ?s0 = PcTop" "c_nodes ?s0 = ?ns" "c_completed ?s0 = {}"
    by (simp_all add: coord_init_def bumpActivity_def)
  have "card (node_ids ?ns - c_completed ?s0) = length ?ns"
    using good init(3) by (simp add: good_graph_def node_ids_def distinct_card flip: set_map)
  note fin = loop_completes [OF coord_reach.start good init(1,2) assms(3) this]
  have "coord_inv cfg s"
    using coord_reach_inv [of cfg ?ns s] loop_next_reach [OF coord_reach.start] assms(4) good
    by (simp add: good_graph_def)
  then have st: "started_ids (c_started s) = c_completed s" "distinct (map (nd_ID \<circ> fst) (c_started s))"
      "fst ` set (c_started s) \<subseteq> set ?ns"
    using fin assms(4) by (simp_all add: coord_inv_def sched_inv_def log_inv_def)
  have ids: "set (map (nd_ID \<circ> fst) (c_started s)) = set (map nd_ID ?ns)"
    using st(1) fin assms(4) by (simp add: started_ids_def node_ids_def image_comp)
  then have "length (c_started s) = length ?ns"
    using distinct_card [OF st(2)] distinct_card [of "map nd_ID ?ns"] good by (simp add: good_graph_def)
  moreover have "fst ` set (c_started s) = set ?ns"
  proof (rule inj_on_image_eq_iff [THEN iffD1])
    show "inj_on nd_ID (set ?ns)" using good by (simp add: good_graph_def distinct_map)
    show "nd_ID ` fst ` set (c_started s) = nd_ID ` set ?ns" using ids by (simp add: image_comp)
  qed (use st(3) in simp_all)
  moreover have "coord_reach cfg ?ns s" unfolding assms(4) by (rule loop_next_reach [OF coord_reach.start])
  ultimately show ?thesis using fin assms(4) by simp
qed

section \<open>Answers to clients\<close>

fun answer :: "act \<Rightarrow> bool" where
  "answer (AReply _) = True"
| "answer (ASendFD _) = True"
| "answer _ = False"

lemma handleRequestFD_answer:
  "\<exists>pre a. handleRequestFD cfg os m = pre @ [a] \<and> answer a \<and> filter answer pre = []"
proof -
  have one: "\<exists>pre b. [a] = pre @ [b] \<and> answer b \<and> filter answer pre = []" if "answer a" for a
    using that by (intro exI [of _ "[]"]) simp
  have two: "\<exists>pre b. [ABump, a] = pre @ [b] \<and> answer b \<and> filter answer pre = []" if "answer a" for a
    using that by (intro exI [of _ "[ABump]"]) simp
  show ?thesis
    unfolding handleRequestFD_def fd_perf_reply_def Let_def
    by (simp add: one two split: option.split)
qed

text \<open>
  Every non-empty frame is answered exactly once, at the end of its handling, and a frame that is
  answered with an error has changed nothing: neither the graph, nor the samples, nor anything else
  the scheduler sees.
\<close>

theorem frame_answered:
  assumes "handle_frame cfg os visit body s = (s', acts)" and "body \<noteq> []"
  shows "\<exists>pre a. acts = pre @ [a] \<and> answer a \<and> filter answer pre = [] \<and>
      (\<forall>e. a = AReply (ErrEnvelope ''error'' e) \<longrightarrow> s' = s)"
proof -
  let ?P = "\<lambda>r. \<exists>pre a. snd r = pre @ [a] \<and> answer a \<and> filter answer pre = [] \<and>
      (\<forall>e. a = AReply (ErrEnvelope ''error'' e) \<longrightarrow> fst r = s)"
  have one: "?P (t, [AReply r])" if "t = s" for t r
    using that by (intro exI [of _ "[]"] exI [of _ "AReply r"]) simp
  have ack: "?P (t, [ABump, AWake, AReply (AckEnvelope ''ack'' True)])" for t
    by (intro exI [of _ "[ABump, AWake]"] exI [of _ "AReply (AckEnvelope ''ack'' True)"]) simp
  have fd: "?P (s, handleRequestFD cfg os m)" for m
    using handleRequestFD_answer [of cfg os m] by (metis fst_conv snd_conv)
  have "?P (handle_frame cfg os visit body s)"
    unfolding handle_frame_def Let_def using assms(2) one ack fd
    by (auto split: option.split sum.split)
  then show ?thesis using assms(1) by simp
qed

text \<open>
  A branch request that adds vertices is acknowledged exactly when the graph with them is sound and
  they all have commands, and then exactly they have been added; otherwise the client gets the
  graph error and nothing has changed.
\<close>

theorem branch_answered:
  assumes "handle_frame cfg os visit body s = (s', acts)" and "body \<noteq> []"
    and "dec_op (cc_dec cfg) body = Some ''branch''" and "dec_branch (cc_dec cfg) body = Inr m"
    and "mb_Nodes m \<noteq> []" and "visit_order visit (c_nodes s @ mb_Nodes m)"
  shows "if good_graph (c_nodes s @ mb_Nodes m) \<and> (\<forall>n \<in> set (mb_Nodes m). Cmd n \<noteq> [])
    then last acts = AReply (AckEnvelope ''ack'' True) \<and>
      s' = s\<lparr>c_nodes := c_nodes s @ mb_Nodes m, c_idleAnnounced := False\<rparr>
    else (\<exists>e. acts = [AReply (ErrEnvelope ''error'' (GraphError e))]) \<and> s' = s"
proof -
  have "(s', acts) = (case AppendDAG visit (c_nodes s) (mb_Nodes m) of
      Inl e \<Rightarrow> (s, [AReply (ErrEnvelope ''error'' (GraphError e))])
    | Inr merged \<Rightarrow> (s\<lparr>c_nodes := merged, c_idleAnnounced := False\<rparr>, [ABump, AWake, AReply (AckEnvelope ''ack'' True)]))"
    using assms(1-4) by (simp add: handle_frame_def Let_def)
  then show ?thesis
    using AppendDAG_ok [OF assms(6)] AppendDAG_complete [OF assms(6)] assms(5)
    by (cases "AppendDAG visit (c_nodes s) (mb_Nodes m)") auto
qed

section \<open>Witnesses and scenarios\<close>

definition demo_start :: coordinator where
  "demo_start = coord_init (pl_Nodes one_node) 0"

definition demo_frame :: "byte list" where
  "demo_frame = [123, 125]"

lemma demo_merge:
  "AppendDAG [''a'', ''b''] [mk_node ''a'' []] [mk_node ''b'' [''a'']] = Inr [mk_node ''a'' [], mk_node ''b'' [''a'']]"
  by code_simp

lemma demo_merge_visit: "visit_order [''a'', ''b''] ([mk_node ''a'' []] @ [mk_node ''b'' [''a'']])"
  by code_simp

lemma demo_reach: "coord_reach demo_cfg (pl_Nodes one_node) ((loop_next demo_cfg ^^ k) demo_start)"
  unfolding demo_start_def by (rule loop_next_reach [OF coord_reach.start])

theorem frame_answered_witness:
  "\<exists>pre a. [ABump, AWake, AReply (AckEnvelope ''ack'' True)] = pre @ [a] \<and> answer a \<and> filter answer pre = []"
proof -
  have "handle_frame demo_cfg fd_fails [''a'', ''b''] demo_frame demo_start =
      (demo_start\<lparr>c_nodes := [mk_node ''a'' [], mk_node ''b'' [''a'']], c_idleAnnounced := False\<rparr>,
       [ABump, AWake, AReply (AckEnvelope ''ack'' True)])"
    using demo_merge
    by (simp add: handle_frame_def demo_cfg_def demo_frame_def demo_start_def one_node_def coord_init_def bumpActivity_def)
  from frame_answered [OF this] show ?thesis by (auto simp: demo_frame_def)
qed

theorem started_once_in_order_witness:
  "\<exists>s s' args. coord_reach demo_cfg (pl_Nodes one_node) s \<and> cstep demo_cfg s s' \<and>
     c_started s' = [(mk_node ''a'' [], args)] \<and> c_running s' = {''a''}"
proof -
  let ?s = "(loop_next demo_cfg ^^ 3) demo_start" and ?n = "mk_node ''a'' []"
  have pc: "c_pc ?s = PcExec ?n" and log: "c_started ?s = []" by code_simp+
  obtain args where ex: "execNode demo_cfg ?n = Inr args"
    by (cases "execNode demo_cfg ?n") (simp, code_simp)
  have st: "cstep demo_cfg ?s (loop_exec demo_cfg ?n ?s)" using pc by (intro cstep.loop loop_step.exec)
  have log': "c_started (loop_exec demo_cfg ?n ?s) = [(?n, args)]" using ex log by (simp add: loop_exec_def)
  from started_once_in_order [OF one_node_valid demo_reach st, of ?n args] log log'
  have "c_running (loop_exec demo_cfg ?n ?s) = {''a''}" by (simp add: mk_node_def)
  with st log' demo_reach show ?thesis by blast
qed

lemma one_node_acyclic: "acyclic (dep_rel (pl_Nodes one_node))"
  by (simp add: dep_rel_def one_node_def mk_node_def acyclic_def)

lemma demo_handle:
  assumes "c_nodes s = [mk_node ''a'' []]"
  shows "handle_frame demo_cfg fd_fails [''a'', ''b''] demo_frame s =
    (s\<lparr>c_nodes := [mk_node ''a'' [], mk_node ''b'' [''a'']], c_idleAnnounced := False\<rparr>,
     [ABump, AWake, AReply (AckEnvelope ''ack'' True)])"
  using demo_merge assms by (simp add: handle_frame_def demo_cfg_def demo_frame_def)

theorem branch_answered_witness:
  "last [ABump, AWake, AReply (AckEnvelope ''ack'' True)] = AReply (AckEnvelope ''ack'' True) \<and>
   good_graph ([mk_node ''a'' []] @ [mk_node ''b'' [''a'']])"
proof -
  let ?m = "\<lparr>mb_Op = ''branch'', mb_Parent = ''a'', mb_Nodes = [mk_node ''b'' [''a'']]\<rparr>"
  have nodes: "c_nodes demo_start = [mk_node ''a'' []]"
    by (simp add: demo_start_def one_node_def coord_init_def bumpActivity_def)
  have dec: "dec_op (cc_dec demo_cfg) demo_frame = Some ''branch''" "dec_branch (cc_dec demo_cfg) demo_frame = Inr ?m"
    by (simp_all add: demo_cfg_def)
  have ne: "demo_frame \<noteq> []" "mb_Nodes ?m \<noteq> []" by (simp_all add: demo_frame_def)
  have v: "visit_order [''a'', ''b''] (c_nodes demo_start @ mb_Nodes ?m)" using demo_merge_visit by (simp add: nodes)
  from branch_answered [OF demo_handle [OF nodes] ne(1) dec ne(2) v] show ?thesis
    by (simp add: nodes split: if_splits)
qed

theorem loop_runs_everything_witness:
  "c_pc ((loop_next demo_cfg ^^ 11) demo_start) = PcIdle \<and>
   c_completed ((loop_next demo_cfg ^^ 11) demo_start) = {''a''}"
proof -
  have "is_ok (execNode demo_cfg (mk_node ''a'' []))" by code_simp
  then have ok: "\<forall>n \<in> set (pl_Nodes one_node). is_ok (execNode demo_cfg n)" by (simp add: one_node_def)
  have "(loop_next demo_cfg ^^ 11) demo_start =
      (loop_next demo_cfg ^^ (8 * length (pl_Nodes one_node) + 3)) (coord_init (pl_Nodes one_node) 0)"
    by (simp add: demo_start_def one_node_def)
  from loop_runs_everything [OF one_node_valid one_node_acyclic ok this] show ?thesis
    by (simp add: one_node_def node_ids_def mk_node_def)
qed

text \<open>The states the loop goes through on this pipeline, computed round by round.\<close>

definition demo_done :: "string list \<Rightarrow> coordinator" where
  "demo_done args = demo_start\<lparr>c_completed := {''a''}, c_idleAnnounced := True, c_wake := True,
     c_pc := PcIdle, c_started := [(mk_node ''a'' [], args)]\<rparr>"

lemma demo_start_simps [simp]:
  "c_nodes demo_start = [mk_node ''a'' []]" "c_completed demo_start = {}" "c_running demo_start = {}"
  "c_pc demo_start = PcTop" "c_now demo_start = 0" "c_lastBump demo_start = 0" "c_started demo_start = []"
  "c_conns demo_start = Map.empty"
  by (simp_all add: demo_start_def one_node_def coord_init_def bumpActivity_def)

lemma demo_picks:
  "PickRunnable [mk_node ''a'' []] {} {} = Some (mk_node ''a'' [])"
  "PickRunnable [mk_node ''a'' []] {''a''} {} = None"
  by code_simp+

lemma demo_ran: "\<exists>args. (loop_next demo_cfg ^^ 11) demo_start = demo_done args"
proof -
  obtain args where ex: "execNode demo_cfg (mk_node ''a'' []) = Inr args"
    by (cases "execNode demo_cfg (mk_node ''a'' [])") (simp, code_simp)
  have "(loop_next demo_cfg ^^ 11) demo_start = (loop_next demo_cfg ^^ 3) ((loop_next demo_cfg ^^ 8) demo_start)"
    by (simp flip: funpow_add add: comp_def [symmetric] funpow_add [symmetric, THEN fun_cong, unfolded comp_def])
  also have "(loop_next demo_cfg ^^ 8) demo_start = demo_start\<lparr>c_completed := {''a''}, c_running := {},
      c_lastBump := 0, c_idleAnnounced := False, c_wake := True, c_pc := PcTop, c_started := [(mk_node ''a'' [], args)]\<rparr>"
    using loop_round [of demo_start "mk_node ''a'' []" demo_cfg args] demo_picks(1) ex by (simp add: mk_node_def)
  also have "(loop_next demo_cfg ^^ 3) \<dots> = demo_done args"
    using loop_rest [of "demo_start\<lparr>c_completed := {''a''}, c_running := {},
      c_lastBump := 0, c_idleAnnounced := False, c_wake := True, c_pc := PcTop, c_started := [(mk_node ''a'' [], args)]\<rparr>"
      demo_cfg] demo_picks(2) by (simp add: demo_done_def)
  finally show ?thesis ..
qed

lemma demo_done_reach: "\<exists>args. coord_reach demo_cfg (pl_Nodes one_node) (demo_done args)"
  using demo_ran demo_reach [of 11] by metis

theorem no_lost_wakeup_witness:
  "\<exists>s. coord_reach demo_cfg (pl_Nodes one_node) s \<and> c_pc s = PcIdle \<and>
     (node_ids (c_nodes s) \<subseteq> c_completed s \<or> wake_pending s)"
proof -
  obtain args where r: "coord_reach demo_cfg (pl_Nodes one_node) (demo_done args)" using demo_done_reach ..
  have pc: "c_pc (demo_done args) = PcIdle" by (simp add: demo_done_def)
  then have pcs: "c_pc (demo_done args) \<in> {PcQuiesce, PcIdle, PcTimer, PcDone None}" by simp
  from no_lost_wakeup [OF one_node_valid r pcs] one_node_acyclic pc r show ?thesis by blast
qed

text \<open>The wake-up of the completed vertex is consumed; the loop finds nothing to do and waits again.\<close>

lemma demo_idle_reach: "\<exists>args. coord_reach demo_cfg (pl_Nodes one_node) ((demo_done args)\<lparr>c_wake := False\<rparr>)"
proof -
  obtain args where r: "coord_reach demo_cfg (pl_Nodes one_node) (demo_done args)" using demo_done_reach ..
  let ?s = "(demo_done args)\<lparr>c_wake := False, c_pc := PcTop\<rparr>"
  have "cstep demo_cfg (demo_done args) ?s"
    by (intro cstep.loop loop_step.wait_wake) (simp_all add: demo_done_def)
  then have "coord_reach demo_cfg (pl_Nodes one_node) ((loop_next demo_cfg ^^ 3) ?s)"
    using r by (blast intro: loop_next_reach coord_reach.step)
  also have "(loop_next demo_cfg ^^ 3) ?s = (demo_done args)\<lparr>c_wake := False\<rparr>"
    using loop_rest [of ?s demo_cfg] demo_picks(2) by (simp add: demo_done_def)
  finally show ?thesis ..
qed

text \<open>
  C40. A branch can be acknowledged and never run. The idle timeout is decided without the graph's lock: a
  client's vertices can be merged between the last scan of the graph and the timeout check, before
  the handler has reported activity; the loop then ends successfully, the client receives its
  acknowledgement, and the vertex it added is not completed and never will be.
\<close>

theorem branch_acked_never_run:
  "\<exists>s. coord_reach demo_cfg (pl_Nodes one_node) s \<and> c_pc s = PcDone None \<and>
     (0, AckEnvelope ''ack'' True) \<in> set (c_sent s) \<and> mk_node ''b'' [''a''] \<in> set (c_nodes s) \<and>
     ''b'' \<notin> c_completed s \<and> \<not> (\<exists>s'. loop_step demo_cfg s s')"
proof -
  obtain args where r: "coord_reach demo_cfg (pl_Nodes one_node) ((demo_done args)\<lparr>c_wake := False\<rparr>)"
    using demo_idle_reach ..
  define s0 where "s0 = (demo_done args)\<lparr>c_wake := False\<rparr>"
  have s0: "c_pc s0 = PcIdle" "c_nodes s0 = [mk_node ''a'' []]" "c_completed s0 = {''a''}" "c_now s0 = 0"
    "c_lastBump s0 = 0" "c_conns s0 = Map.empty" by (simp_all add: s0_def demo_done_def)
  define s1 where "s1 = s0\<lparr>c_now := c_now s0 + 15000\<rparr>"
  define s2 where "s2 = s1\<lparr>c_conns := (c_conns s1)(0 \<mapsto> [])\<rparr>"
  define m2 where "m2 = s2\<lparr>c_nodes := [mk_node ''a'' [], mk_node ''b'' [''a'']], c_idleAnnounced := False\<rparr>"
  define s3 where "s3 = m2\<lparr>c_conns := (c_conns m2)(0 \<mapsto> [ABump, AWake, AReply (AckEnvelope ''ack'' True)])\<rparr>"
  define s4 where "s4 = s3\<lparr>c_pc := PcTimer\<rparr>"
  define s5 where "s5 = loop_timer demo_cfg s4"
  define s6 where "s6 = (bumpActivity s5)\<lparr>c_conns := (c_conns s5)(0 \<mapsto> [AWake, AReply (AckEnvelope ''ack'' True)])\<rparr>"
  define s7 where "s7 = (signalWake s6)\<lparr>c_conns := (c_conns s6)(0 \<mapsto> [AReply (AckEnvelope ''ack'' True)])\<rparr>"
  define s8 where "s8 = s7\<lparr>c_conns := (c_conns s7)(0 \<mapsto> []), c_sent := c_sent s7 @ [(0, AckEnvelope ''ack'' True)]\<rparr>"
  note defs = s1_def s2_def m2_def s3_def s4_def s5_def s6_def s7_def s8_def loop_timer_def idleSince_def
    bumpActivity_def signalWake_def
  have h: "handle_frame demo_cfg fd_fails [''a'', ''b''] demo_frame s2 =
      (m2, [ABump, AWake, AReply (AckEnvelope ''ack'' True)])"
    unfolding m2_def by (rule demo_handle) (simp add: defs s0)
  have v: "\<forall>m. dec_branch (cc_dec demo_cfg) demo_frame = Inr m \<longrightarrow> visit_order [''a'', ''b''] (c_nodes s2 @ mb_Nodes m)"
    using demo_merge_visit by (simp add: demo_cfg_def s2_def s1_def s0)
  have "cstep demo_cfg s0 s1" unfolding s1_def by (rule cstep.tick) simp
  moreover have "cstep demo_cfg s1 s2" unfolding s2_def by (rule cstep.conn [OF conn_step.accept]) (simp add: s1_def s0)
  moreover have "cstep demo_cfg s2 s3"
    unfolding s3_def by (rule cstep.conn [OF conn_step.frame [OF _ v h]]) (simp add: s2_def)
  moreover have "cstep demo_cfg s3 s4"
    unfolding s4_def by (intro cstep.loop loop_step.idle_after) (simp add: s3_def m2_def s2_def s1_def s0)
  moreover have "cstep demo_cfg s4 s5" unfolding s5_def by (intro cstep.loop loop_step.timer) (simp add: s4_def)
  moreover have "cstep demo_cfg s5 s6"
    unfolding s6_def by (rule cstep.conn [OF conn_step.act_bump]) (simp add: s5_def s4_def s3_def loop_timer_def)
  moreover have "cstep demo_cfg s6 s7" unfolding s7_def by (rule cstep.conn [OF conn_step.act_wake]) (simp add: s6_def)
  moreover have "cstep demo_cfg s7 s8" unfolding s8_def by (rule cstep.conn [OF conn_step.act_reply]) (simp add: s7_def)
  ultimately have "coord_reach demo_cfg (pl_Nodes one_node) s8"
    using r unfolding s0_def [symmetric] by (meson coord_reach.step)
  moreover have "c_pc s8 = PcDone None" by (simp add: defs s0 demo_cfg_def)
  moreover from this have "\<not> (\<exists>s'. loop_step demo_cfg s8 s')" by (auto elim!: loop_step.cases)
  ultimately show ?thesis by (intro exI [of _ s8]) (simp add: defs s0)
qed

text \<open>
  A pipeline that is a cycle is accepted and reported as a success. \<^verbatim>\<open>Validate\<close> does not look for cycles and
  the coordinator never sorts the initial graph, so on this validated pipeline the loop can end with
  no error although no vertex was ever started.
\<close>

theorem cyclic_pipeline_succeeds:
  "Validate (Some two_cycle) = Inr () \<and>
   (\<exists>s. coord_reach demo_cfg (pl_Nodes two_cycle) s \<and> c_pc s = PcDone None \<and> c_started s = [] \<and> c_nodes s \<noteq> [])"
proof -
  let ?s0 = "coord_init (pl_Nodes two_cycle) 0"
  have none: "PickRunnable (pl_Nodes two_cycle) {} {} = None" by code_simp
  define s3 where "s3 = (loop_next demo_cfg ^^ 3) ?s0"
  have s3: "s3 = ?s0\<lparr>c_pc := PcIdle\<rparr>"
    using loop_rest [of ?s0 demo_cfg] none
    by (simp add: s3_def coord_init_def bumpActivity_def two_cycle_def)
  define s4 where "s4 = s3\<lparr>c_now := c_now s3 + 15000\<rparr>"
  define s5 where "s5 = s4\<lparr>c_pc := PcTimer\<rparr>"
  have r: "coord_reach demo_cfg (pl_Nodes two_cycle) s3"
    unfolding s3_def by (rule loop_next_reach [OF coord_reach.start])
  have "cstep demo_cfg s3 s4" unfolding s4_def by (rule cstep.tick) simp
  moreover have "cstep demo_cfg s4 s5"
    unfolding s5_def by (intro cstep.loop loop_step.idle_after) (simp add: s4_def s3)
  moreover have "cstep demo_cfg s5 (loop_timer demo_cfg s5)"
    by (intro cstep.loop loop_step.timer) (simp add: s5_def)
  ultimately have "coord_reach demo_cfg (pl_Nodes two_cycle) (loop_timer demo_cfg s5)"
    using r by (meson coord_reach.step)
  moreover have "loop_timer demo_cfg s5 = s5\<lparr>c_pc := PcDone None\<rparr>"
    by (simp add: loop_timer_def idleSince_def s5_def s4_def s3 coord_init_def bumpActivity_def demo_cfg_def)
  ultimately show ?thesis
    using two_cycle_valid
    by (auto simp: s5_def s4_def s3 coord_init_def bumpActivity_def two_cycle_def intro!: exI)
qed

end
