(* ===== verification/Go_Path.thy ===== *)
theory Go_Path
  imports Go_Prelude
begin

text \<open>
  The functions of Go's \<^verbatim>\<open>path/filepath\<close> (on Unix) that the program builds its file names with:
  \<^verbatim>\<open>Clean\<close>, \<^verbatim>\<open>Join\<close> and \<^verbatim>\<open>Dir\<close>. The lemmas say when a joined path stays in its directory.
\<close>

section \<open>Model\<close>

text \<open>The components of a path from left to right, \<open>stack\<close> holding those kept so far, last first.\<close>

fun clean_comps :: "bool \<Rightarrow> string list \<Rightarrow> string list \<Rightarrow> string list" where
  "clean_comps rooted stack [] = rev stack"
| "clean_comps rooted stack (c # cs) =
     (if c = [] \<or> c = ''.'' then clean_comps rooted stack cs
      else if c = ''..'' then
        (case stack of
           [] \<Rightarrow> clean_comps rooted (if rooted then [] else [''..'']) cs
         | t # ts \<Rightarrow> clean_comps rooted (if t = ''..'' then ''..'' # stack else ts) cs)
      else clean_comps rooted (c # stack) cs)"

definition rooted_path :: "string \<Rightarrow> bool" where
  "rooted_path p \<longleftrightarrow> has_prefix p ''/''"

definition path_clean :: "string \<Rightarrow> string" where
  "path_clean p =
     (if rooted_path p then CHR ''/'' # join ''/'' (clean_comps True [] (split_on (CHR ''/'') p))
      else (let q = join ''/'' (clean_comps False [] (split_on (CHR ''/'') p)) in
            if q = [] then ''.'' else q))"

definition path_join :: "string list \<Rightarrow> string" where
  "path_join elems =
     (case dropWhile (\<lambda>e. e = []) elems of
        [] \<Rightarrow> []
      | es \<Rightarrow> path_clean (join ''/'' es))"

definition path_dir :: "string \<Rightarrow> string" where
  "path_dir p = path_clean (rev (dropWhile (\<lambda>c. c \<noteq> CHR ''/'') (rev p)))"

section \<open>Absolute paths\<close>

text \<open>A component that names a file: not empty, no slash, neither \<^verbatim>\<open>.\<close> nor \<^verbatim>\<open>..\<close>.\<close>

definition file_name :: "string \<Rightarrow> bool" where
  "file_name c \<longleftrightarrow> c \<noteq> [] \<and> c \<noteq> ''.'' \<and> c \<noteq> ''..'' \<and> CHR ''/'' \<notin> set c"

definition abs_path :: "string list \<Rightarrow> string" where
  "abs_path cs = CHR ''/'' # join ''/'' cs"

lemma clean_comps_names:
  "list_all file_name cs \<Longrightarrow> clean_comps r stack (cs @ ds) = clean_comps r (rev cs @ stack) ds"
  by (induction cs arbitrary: stack) (auto simp: file_name_def)

lemma split_on_abs_join:
  assumes "cs \<noteq> []" and "list_all file_name cs"
  shows "split_on (CHR ''/'') (join ''/'' cs @ CHR ''/'' # s) = cs @ split_on (CHR ''/'') s"
  using assms
proof (induction cs rule: induct_list012)
  case (2 c)
  then show ?case by (simp add: file_name_def split_on_append)
next
  case (3 c d cs)
  then have c: "CHR ''/'' \<notin> set c" and
    "split_on (CHR ''/'') (join ''/'' (d # cs) @ CHR ''/'' # s) = (d # cs) @ split_on (CHR ''/'') s"
    by (simp_all add: file_name_def)
  then show ?case
    using split_on_append [OF c, of "join ''/'' (d # cs) @ CHR ''/'' # s"] by simp
qed simp

text \<open>Joining any name to an absolute directory: the components of the name are resolved one by one.\<close>

lemma path_join_abs:
  assumes "ds \<noteq> []" and "list_all file_name ds"
  shows "path_join [abs_path ds, n] =
    abs_path (clean_comps True (rev ds) (split_on (CHR ''/'') n))"
proof -
  have "split_on (CHR ''/'') (abs_path ds @ CHR ''/'' # n) = [] # ds @ split_on (CHR ''/'') n"
    using split_on_abs_join [OF assms] by (simp add: abs_path_def)
  then have "clean_comps True [] (split_on (CHR ''/'') (abs_path ds @ CHR ''/'' # n)) =
      clean_comps True (rev ds) (split_on (CHR ''/'') n)"
    using clean_comps_names [OF assms(2), of True "[]"] by simp
  moreover have "rooted_path (abs_path ds @ CHR ''/'' # n)"
    by (simp add: rooted_path_def has_prefix_def abs_path_def)
  ultimately show ?thesis
    by (simp add: path_join_def path_clean_def abs_path_def)
qed

text \<open>A plain file name stays in the directory.\<close>

lemma path_join_file:
  assumes "ds \<noteq> []" and "list_all file_name ds" and "file_name n"
  shows "path_join [abs_path ds, n] = abs_path (ds @ [n])"
  using assms(3) by (simp add: path_join_abs [OF assms(1,2)] file_name_def split_on_none)

lemma abs_path_inj:
  assumes "abs_path (ds @ [a]) = abs_path (ds @ [b])" and "ds \<noteq> []"
  shows "a = b"
  using assms by (simp add: abs_path_def join_snoc)

lemma abs_path_snoc: "ds \<noteq> [] \<Longrightarrow> abs_path (ds @ [n]) = abs_path ds @ CHR ''/'' # n"
  by (simp add: abs_path_def join_snoc)

lemma file_name_prefixed: "2 < length p \<Longrightarrow> CHR ''/'' \<notin> set p \<Longrightarrow> CHR ''/'' \<notin> set n \<Longrightarrow> file_name (p @ n)"
  by (auto simp: file_name_def dest: arg_cong [where f = length])

lemma path_clean_abs:
  assumes "ds \<noteq> []" and "list_all file_name ds"
  shows "path_clean (abs_path ds @ CHR ''/'' # []) = abs_path ds"
proof -
  have "split_on (CHR ''/'') (abs_path ds @ CHR ''/'' # []) = [] # ds @ [[]]"
    using split_on_abs_join [OF assms, of "[]"] by (simp add: abs_path_def)
  then have "clean_comps True [] (split_on (CHR ''/'') (abs_path ds @ CHR ''/'' # [])) = ds"
    using clean_comps_names [OF assms(2), of True "[]" "[[]]"] by simp
  moreover have "rooted_path (abs_path ds @ CHR ''/'' # [])"
    by (simp add: rooted_path_def has_prefix_def abs_path_def)
  ultimately show ?thesis by (simp add: path_clean_def abs_path_def)
qed

text \<open>\<^verbatim>\<open>Dir\<close> takes the last component off again.\<close>

lemma path_dir_file:
  assumes "ds \<noteq> []" and "list_all file_name ds" and "file_name n"
  shows "path_dir (abs_path (ds @ [n])) = abs_path ds"
proof -
  have "CHR ''/'' \<notin> set (rev n)" using assms(3) by (simp add: file_name_def)
  then have "dropWhile (\<lambda>c. c \<noteq> CHR ''/'') (rev n @ CHR ''/'' # rev (abs_path ds)) =
      CHR ''/'' # rev (abs_path ds)"
    by (subst dropWhile_append2) auto
  then have "rev (dropWhile (\<lambda>c. c \<noteq> CHR ''/'') (rev (abs_path (ds @ [n])))) = abs_path ds @ [CHR ''/'']"
    by (simp add: abs_path_snoc [OF assms(1)])
  then show ?thesis using path_clean_abs [OF assms(1,2)] by (simp add: path_dir_def)
qed

end
