(* ===== verification/Go_Net.thy ===== *)
theory Go_Net
  imports Go_Prelude "HOL-Library.Word"
begin

text \<open>
  What the dashboard uses of Go's net package: \<^verbatim>\<open>SplitHostPort\<close>, \<^verbatim>\<open>ParseIP\<close>, \<^verbatim>\<open>ParseCIDR\<close> and \<^verbatim>\<open>IPNet.Contains\<close>, and of encoding/hex.
  An address is its bytes, most significant first. The texts of the errors are left out: \<open>None\<close> is any of them.

  The last section gives the meaning of a network in bits: an address is contained in it when it agrees with the
  network in the first bits.
\<close>

unbundle bit_operations_syntax

section \<open>Model: encoding/hex\<close>

definition hex_digit :: "8 word \<Rightarrow> char" where
  "hex_digit d = ''0123456789abcdef'' ! unat d"

definition hex_encode :: "8 word list \<Rightarrow> string" where
  "hex_encode bs = concat (map (\<lambda>b. [hex_digit (b div 16), hex_digit (b mod 16)]) bs)"

section \<open>Model: addresses\<close>

datatype ip_addr = IP4 "8 word list" | IP6 "8 word list" string

text \<open>
  \<^verbatim>\<open>parseIPv4Fields\<close>: the fields so far, the value and the number of digits of the current one, and whether a dot
  may not follow (at the start and behind a dot).
\<close>

fun v4_loop :: "8 word list \<Rightarrow> int \<Rightarrow> nat \<Rightarrow> bool \<Rightarrow> string \<Rightarrow> 8 word list option" where
  "v4_loop flds val digLen nodot [] = (if length flds < 3 then None else Some (flds @ [word_of_int val]))"
| "v4_loop flds val digLen nodot (c # cs) =
     (if is_digit c then
        (if digLen = 1 \<and> val = 0 then None
         else
           (let v = val * 10 + (of_char c - 48) in
            if v > 255 then None else v4_loop flds v (digLen + 1) False cs))
      else if c = CHR ''.'' then
        (if nodot \<or> cs = [] then None
         else if length flds = 3 then None
         else v4_loop (flds @ [word_of_int val]) 0 0 True cs)
      else None)"

definition hex_value :: "char \<Rightarrow> int option" where
  "hex_value c =
     (let n = (of_char c :: int) in
      if 48 \<le> n \<and> n \<le> 57 then Some (n - 48)
      else if 97 \<le> n \<and> n \<le> 102 then Some (n - 87)
      else if 65 \<le> n \<and> n \<le> 70 then Some (n - 55)
      else None)"

fun hex_group :: "nat \<Rightarrow> int \<Rightarrow> string \<Rightarrow> (nat \<times> int \<times> string) option" where
  "hex_group off acc [] = Some (off, acc, [])"
| "hex_group off acc (c # cs) =
     (case hex_value c of
        None \<Rightarrow> Some (off, acc, c # cs)
      | Some d \<Rightarrow> if off > 3 then None else hex_group (off + 1) (acc * 16 + d) cs)"

text \<open>
  The loop of \<^verbatim>\<open>parseIPv6\<close>: the groups still possible, the bytes so far, the position of the double colon, the text left. The result is the
  bytes, the position and the text behind them.
\<close>

fun v6_loop :: "nat \<Rightarrow> 8 word list \<Rightarrow> nat option \<Rightarrow> string \<Rightarrow> (8 word list \<times> nat option \<times> string) option" where
  "v6_loop 0 ip ell s = Some (ip, ell, s)"
| "v6_loop (Suc k) ip ell s =
     (case hex_group 0 0 s of
        None \<Rightarrow> None
      | Some (off, acc, rest) \<Rightarrow>
          if off = 0 then None
          else if rest \<noteq> [] \<and> hd rest = CHR ''.'' then
            (if ell = None \<and> length ip \<noteq> 12 then None
             else if length ip + 4 > 16 then None
             else (case v4_loop [] 0 0 True s of None \<Rightarrow> None | Some fs \<Rightarrow> Some (ip @ fs, ell, [])))
          else
            (let ip1 = ip @ [word_of_int (acc div 256), word_of_int acc] in
             if rest = [] then Some (ip1, ell, [])
             else if hd rest \<noteq> CHR '':'' \<or> length rest = 1 then None
             else
               (let s1 = tl rest in
                if hd s1 = CHR '':'' then
                  (if ell \<noteq> None then None
                   else if tl s1 = [] then Some (ip1, Some (length ip1), [])
                   else v6_loop k ip1 (Some (length ip1)) (tl s1))
                else v6_loop k ip1 ell s1)))"

text \<open>The double colon is expanded to the zeros that are missing, at least one field of them.\<close>

definition v6_finish :: "8 word list \<times> nat option \<times> string \<Rightarrow> 8 word list option" where
  "v6_finish = (\<lambda>(ip, ell, s).
     if s \<noteq> [] then None
     else if length ip < 16
     then (case ell of None \<Rightarrow> None | Some e \<Rightarrow> Some (take e ip @ replicate (16 - length ip) 0 @ drop e ip))
     else if ell \<noteq> None then None else Some ip)"

definition parseIPv6 :: "string \<Rightarrow> ip_addr option" where
  "parseIPv6 input =
     (case Go_Prelude.cut (CHR ''%'') input of
        (s, zone, hasZone) \<Rightarrow>
          if hasZone \<and> zone = [] then None
          else if s = ''::'' then Some (IP6 (replicate 16 0) zone)
          else
            (let ell = has_prefix s ''::'' in
             case v6_loop 8 [] (if ell then Some 0 else None) (if ell then drop 2 s else s) of
               None \<Rightarrow> None
             | Some r \<Rightarrow> map_option (\<lambda>ip. IP6 ip zone) (v6_finish r)))"

definition addr_mark :: "char \<Rightarrow> bool" where
  "addr_mark c \<longleftrightarrow> c = CHR ''.'' \<or> c = CHR '':'' \<or> c = CHR ''%''"

text \<open>\<^verbatim>\<open>netip.ParseAddr\<close>: the first dot, colon or percent sign decides.\<close>

definition ParseAddr :: "string \<Rightarrow> ip_addr option" where
  "ParseAddr s =
     (case dropWhile (\<lambda>c. \<not> addr_mark c) s of
        [] \<Rightarrow> None
      | c # _ \<Rightarrow>
          if c = CHR ''.'' then map_option IP4 (v4_loop [] 0 0 True s)
          else if c = CHR '':'' then parseIPv6 s
          else None)"

definition v4InV6Prefix :: "8 word list" where
  "v4InV6Prefix = [0, 0, 0, 0, 0, 0, 0, 0, 0, 0, 255, 255]"

text \<open>An address as sixteen bytes; one with a zone has no such form for the functions below.\<close>

definition as16 :: "ip_addr \<Rightarrow> 8 word list option" where
  "as16 a =
     (case a of
        IP4 b \<Rightarrow> Some (v4InV6Prefix @ b)
      | IP6 b zone \<Rightarrow> if zone \<noteq> [] then None else Some b)"

definition ParseIP :: "string \<Rightarrow> 8 word list option" where
  "ParseIP s = Option.bind (ParseAddr s) as16"

definition To4 :: "8 word list \<Rightarrow> 8 word list option" where
  "To4 ip =
     (if length ip = 4 then Some ip
      else if length ip = 16 \<and> take 12 ip = v4InV6Prefix then Some (drop 12 ip)
      else None)"

section \<open>Model: networks\<close>

record IPNet =
  net_IP :: "8 word list"
  net_Mask :: "8 word list"

fun cidr_mask :: "nat \<Rightarrow> nat \<Rightarrow> 8 word list" where
  "cidr_mask 0 n = []"
| "cidr_mask (Suc l) n =
     (if n \<ge> 8 then 255 # cidr_mask l (n - 8) else NOT (drop_bit n 255) # cidr_mask l 0)"

definition ip_mask :: "8 word list \<Rightarrow> 8 word list \<Rightarrow> 8 word list" where
  "ip_mask ip0 m0 =
     (let m = (if length m0 = 16 \<and> length ip0 = 4 \<and> list_all (\<lambda>b. b = 255) (take 12 m0) then drop 12 m0 else m0);
          ip = (if length m = 4 \<and> length ip0 = 16 \<and> take 12 ip0 = v4InV6Prefix then drop 12 ip0 else ip0) in
      if length ip \<noteq> length m then [] else map2 (AND) ip m)"

text \<open>The decimal number of a prefix length, \<open>None\<close> when it is not one or too big.\<close>

fun dtoi_loop :: "int \<Rightarrow> string \<Rightarrow> int option" where
  "dtoi_loop n [] = Some n"
| "dtoi_loop n (c # cs) =
     (if is_digit c
      then (let m = n * 10 + (of_char c - 48) in if m \<ge> 0xFFFFFF then None else dtoi_loop m cs)
      else None)"

definition dtoi :: "string \<Rightarrow> int option" where
  "dtoi s = (if s = [] then None else dtoi_loop 0 s)"

definition ParseCIDR :: "string \<Rightarrow> IPNet option" where
  "ParseCIDR s =
     (case Go_Prelude.cut (CHR ''/'') s of
        (addr, bits, found) \<Rightarrow>
          if \<not> found then None
          else (case ParseAddr addr of
            None \<Rightarrow> None
          | Some a \<Rightarrow>
              (case as16 a of
                 None \<Rightarrow> None
               | Some addr16 \<Rightarrow>
                   (let bytes = (case a of IP4 _ \<Rightarrow> 4 | IP6 _ _ \<Rightarrow> 16) in
                    case dtoi bits of
                      None \<Rightarrow> None
                    | Some n \<Rightarrow>
                        if n > int (8 * bytes) then None
                        else
                          (let m = cidr_mask bytes (nat n) in
                           Some \<lparr>net_IP = ip_mask addr16 m, net_Mask = m\<rparr>)))))"

definition networkNumberAndMask :: "IPNet \<Rightarrow> (8 word list \<times> 8 word list) option" where
  "networkNumberAndMask n =
     (case (case To4 (net_IP n) of Some ip \<Rightarrow> Some ip | None \<Rightarrow> if length (net_IP n) \<noteq> 16 then None else Some (net_IP n)) of
        None \<Rightarrow> None
      | Some ip \<Rightarrow>
          (let m = net_Mask n in
           if length m = 4 then (if length ip \<noteq> 4 then None else Some (ip, m))
           else if length m = 16 then Some (ip, if length ip = 4 then drop 12 m else m)
           else None))"

definition ipnet_Contains :: "IPNet \<Rightarrow> 8 word list \<Rightarrow> bool" where
  "ipnet_Contains n ip0 =
     (case networkNumberAndMask n of
        None \<Rightarrow> False
      | Some (nn, m) \<Rightarrow>
          (let ip = (case To4 ip0 of Some x \<Rightarrow> x | None \<Rightarrow> ip0) in
           length ip = length nn \<and> map2 (AND) nn m = map2 (AND) ip m))"

section \<open>Model: SplitHostPort\<close>

text \<open>The host; \<open>None\<close> for any error. The last colon separates the port; a host in brackets may have colons.\<close>

definition SplitHost :: "string \<Rightarrow> string option" where
  "SplitHost hostport =
     (if CHR '':'' \<notin> set hostport then None
      else
        (let i = length hostport - 1 - length (takeWhile (\<lambda>c. c \<noteq> CHR '':'') (rev hostport)) in
         if hd hostport = CHR ''['' then
           (if CHR '']'' \<notin> set hostport then None
            else
              (let e = length (takeWhile (\<lambda>c. c \<noteq> CHR '']'') hostport) in
               if e + 1 \<noteq> i then None
               else if CHR ''['' \<in> set (drop 1 hostport) \<or> CHR '']'' \<in> set (drop (e + 1) hostport) then None
               else Some (drop 1 (take e hostport))))
         else if CHR '':'' \<in> set (take i hostport) then None
         else if CHR ''['' \<in> set hostport \<or> CHR '']'' \<in> set hostport then None
         else Some (take i hostport)))"

section \<open>Facts about hex\<close>

lemma hex_digit_inj:
  assumes "hex_digit a = hex_digit b" and "unat a < 16" and "unat b < 16"
  shows "a = b"
proof -
  have "distinct ''0123456789abcdef''" by simp
  then have "unat a = unat b"
    using assms nth_eq_iff_index_eq [of "''0123456789abcdef''" "unat a" "unat b"]
    by (simp add: hex_digit_def)
  then show ?thesis by (simp add: word_unat_eq_iff)
qed

lemma word_nibbles: "unat ((b :: 8 word) div 16) < 16" "unat ((b :: 8 word) mod 16) < 16"
proof -
  have "unat b < 2 ^ LENGTH(8)" by (rule unsigned_less)
  then show "unat (b div 16) < 16" by (simp add: unat_div)
  show "unat (b mod 16) < 16" by (simp add: unat_mod)
qed

lemma hex_encode_inj: "hex_encode xs = hex_encode ys \<Longrightarrow> xs = ys"
proof (induction xs arbitrary: ys)
  case Nil
  then show ?case by (cases ys) (auto simp: hex_encode_def)
next
  case (Cons x xs)
  then obtain y zs where ys: "ys = y # zs" by (cases ys) (auto simp: hex_encode_def)
  with Cons.prems have d: "hex_digit (x div 16) = hex_digit (y div 16)" "hex_digit (x mod 16) = hex_digit (y mod 16)"
    and t: "hex_encode xs = hex_encode zs" by (simp_all add: hex_encode_def)
  from d have "x div 16 = y div 16" "x mod 16 = y mod 16" by (auto intro: hex_digit_inj simp: word_nibbles)
  then have "x = y" by (metis div_mult_mod_eq)
  with ys t Cons.IH show ?case by simp
qed

section \<open>Networks in bits\<close>

definition byte_bits :: "8 word \<Rightarrow> bool list" where
  "byte_bits b = map (\<lambda>i. bit b (7 - i)) [0..<8]"

definition ip_bits :: "8 word list \<Rightarrow> bool list" where
  "ip_bits bs = concat (map byte_bits bs)"

lemma byte_bits_length [simp]: "length (byte_bits b) = 8"
  by (simp add: byte_bits_def)

lemma word8_eq_iff: "(a :: 8 word) = b \<longleftrightarrow> (\<forall>i < 8. bit a i = bit b i)"
  by (auto intro: bit_word_eqI)

lemma bits_reversed: "(\<forall>i < 8. P i) \<longleftrightarrow> (\<forall>i < 8. P (7 - i))" for P :: "nat \<Rightarrow> bool"
proof
  assume r: "\<forall>i < 8. P (7 - i)"
  show "\<forall>i < 8. P i"
  proof (intro allI impI)
    fix i :: nat assume "i < 8"
    with r [rule_format, of "7 - i"] show "P i" by simp
  qed
qed simp

lemma byte_bits_inj: "byte_bits a = byte_bits b \<longleftrightarrow> a = b"
  using bits_reversed [of "\<lambda>i. bit a i = bit b i"] by (auto simp: byte_bits_def word8_eq_iff)

lemma ff_bit: "bit (255 :: 8 word) i \<longleftrightarrow> i < 8"
proof -
  have ff: "(255 :: 8 word) = mask 8" by (simp add: mask_eq_exp_minus_1)
  show ?thesis unfolding ff by (subst bit_mask_iff) (auto simp: possible_bit_word)
qed

lemma mask_bit:
  assumes "i < 8"
  shows "bit (NOT (drop_bit n 255) :: 8 word) i \<longleftrightarrow> 8 \<le> n + i"
  using assms by (subst bit_not_iff) (simp only: bit_drop_bit_eq comp_def possible_bit_word ff_bit, auto)

lemma masked_byte:
  assumes "n < 8"
  shows "a AND NOT (drop_bit n 255) = b AND NOT (drop_bit n 255) \<longleftrightarrow> take n (byte_bits a) = take n (byte_bits b)"
proof -
  have "a AND NOT (drop_bit n 255) = b AND NOT (drop_bit n 255) \<longleftrightarrow> (\<forall>i < 8. 8 \<le> n + i \<longrightarrow> bit a i = bit b i)"
    by (auto simp: word8_eq_iff bit_and_iff mask_bit)
  also have "\<dots> \<longleftrightarrow> (\<forall>i < 8. i < n \<longrightarrow> bit a (7 - i) = bit b (7 - i))"
    by (subst bits_reversed) auto
  also have "\<dots> \<longleftrightarrow> take n (byte_bits a) = take n (byte_bits b)"
    using assms by (auto simp: byte_bits_def take_map list_eq_iff_nth_eq)
  finally show ?thesis .
qed

lemma no_mask: "NOT (drop_bit 0 255) = (0 :: 8 word)"
  by (subst word8_eq_iff) (intro allI impI, subst mask_bit, simp_all)

lemma cidr_mask_zero: "cidr_mask l 0 = replicate l 0"
  by (induction l) (simp_all only: cidr_mask.simps no_mask, simp_all)

lemma masked_zero: "length a = l \<Longrightarrow> map2 (AND) a (cidr_mask l 0) = replicate l 0"
  by (induction a arbitrary: l) (auto simp: cidr_mask_zero)

lemma masked_bits:
  "length a = length b \<Longrightarrow> n \<le> 8 * length a \<Longrightarrow>
     map2 (AND) a (cidr_mask (length a) n) = map2 (AND) b (cidr_mask (length a) n) \<longleftrightarrow> take n (ip_bits a) = take n (ip_bits b)"
proof (induction a b arbitrary: n rule: list_induct2)
  case (Cons x xs y ys)
  show ?case
  proof (cases "8 \<le> n")
    case True
    have ff: "w AND 255 = w" for w :: "8 word"
      by (subst word8_eq_iff) (simp only: bit_and_iff ff_bit, simp)
    have "take n (byte_bits x @ u) = take n (byte_bits y @ v) \<longleftrightarrow> x = y \<and> take (n - 8) u = take (n - 8) v" for u v
      using True by (auto simp: byte_bits_inj [symmetric])
    with True Cons show ?thesis by (auto simp: ip_bits_def ff)
  next
    case False
    then have "take n (byte_bits x @ u) = take n (byte_bits y @ v) \<longleftrightarrow> take n (byte_bits x) = take n (byte_bits y)" for u v
      by simp
    moreover have "map2 (AND) ys (cidr_mask (length xs) 0) = map2 (AND) xs (cidr_mask (length xs) 0)"
      using masked_zero [of xs "length xs"] masked_zero [of ys "length xs"] Cons.hyps by simp
    ultimately show ?thesis using False masked_byte [of n x y] by (simp add: ip_bits_def)
  qed
qed (simp add: ip_bits_def)

lemma cidr_mask_length [simp]: "length (cidr_mask l n) = l"
  by (induction l n rule: cidr_mask.induct) simp_all

lemma masked_twice: "map2 (AND) (map2 (AND) a m) m = map2 (AND) a (m :: 8 word list)"
  by (induction a m rule: list_induct2') simp_all

section \<open>Dotted addresses\<close>

lemma v4_octet:
  assumes "0 \<le> v" and "v \<le> 255"
  shows "v4_loop flds 0 0 nd (itoa v @ rest) = v4_loop flds v (length (itoa v)) False rest"
proof -
  have dig: "is_digit (char_of (48 + d))" "(of_char (char_of (48 + d) :: char) :: int) = 48 + d" if "0 \<le> d" "d \<le> 9" for d :: int
    using that by (simp_all add: is_digit_def)
  show ?thesis
  proof (cases "v < 10")
    case True
    with assms show ?thesis by (simp add: itoa_def itoa_digits.simps [of v] dig)
  next
    case False
    define d m where dm: "d = v div 10" "m = v mod 10"
    have v: "v = d * 10 + m" "0 \<le> m" "m \<le> 9" "1 \<le> d" "d \<le> 25" using False assms by (auto simp: dm)
    have two: "itoa v = itoa_digits d @ [char_of (48 + m)]" using False assms by (simp add: itoa_def itoa_digits.simps [of v] dm)
    show ?thesis
    proof (cases "d < 10")
      case True
      with v assms two show ?thesis by (simp add: itoa_digits.simps [of d] dig Let_def)
    next
      case False
      define e k where ek: "e = d div 10" "k = d mod 10"
      have d: "d = e * 10 + k" "0 \<le> k" "k \<le> 9" "1 \<le> e" "e \<le> 2" using False v(5) by (auto simp: ek)
      have "itoa_digits d = [char_of (48 + e), char_of (48 + k)]"
        using False d(5) by (simp add: itoa_digits.simps [of d] itoa_digits.simps [of e] ek [symmetric])
      with v assms two d show ?thesis by (simp add: dig Let_def)
    qed
  qed
qed

definition dotted :: "8 word list \<Rightarrow> string" where
  "dotted b = join ''.'' (map (\<lambda>w. itoa (uint w)) b)"

lemma length4: "length b = 4 \<Longrightarrow> \<exists>w x y z. b = [w, x, y, z]"
  by (auto simp: eval_nat_numeral length_Suc_conv)

lemma dotted_four:
  "dotted [w, x, y, z] = itoa (uint w) @ CHR ''.'' # itoa (uint x) @ CHR ''.'' # itoa (uint y) @ CHR ''.'' # itoa (uint z)"
  by (simp add: dotted_def)

lemma octet_range: "0 \<le> uint (w :: 8 word)" "uint (w :: 8 word) \<le> 255"
  using uint_lt2p [of w] by simp_all

lemma dotted_chars: "length b = 4 \<Longrightarrow> c \<in> set (dotted b) \<Longrightarrow> is_digit c \<or> c = CHR ''.''"
  by (drule length4) (auto simp: dotted_four dest: itoa_nonneg_digits [OF octet_range(1)])

lemma dotted_fields: "length b = 4 \<Longrightarrow> v4_loop [] 0 0 True (dotted b) = Some b"
  by (drule length4) (auto simp: dotted_four v4_octet octet_range is_digit_def
    v4_octet [where rest = "[]", simplified])

lemma ParseAddr_dotted:
  assumes "length b = 4"
  shows "ParseAddr (dotted b) = Some (IP4 b)"
proof -
  obtain w x y z where b: "b = [w, x, y, z]" using length4 [OF assms] by blast
  have "\<forall>c \<in> set (itoa (uint w)). \<not> addr_mark c"
    by (auto simp: addr_mark_def is_digit_def dest!: itoa_nonneg_digits [OF octet_range(1)])
  then have "\<exists>s. dropWhile (\<lambda>c. \<not> addr_mark c) (dotted b) = CHR ''.'' # s"
    by (simp add: b dotted_four dropWhile_append addr_mark_def)
  then show ?thesis using dotted_fields [OF assms] by (auto simp: ParseAddr_def)
qed

lemma ParseIP_dotted: "length b = 4 \<Longrightarrow> ParseIP (dotted b) = Some (v4InV6Prefix @ b)"
  by (simp add: ParseIP_def ParseAddr_dotted as16_def)

lemma dtoi_loop_itoa: "0 \<le> n \<Longrightarrow> n < 0xFFFFFF \<Longrightarrow> dtoi_loop 0 (itoa_digits n @ rest) = dtoi_loop n rest"
proof (induction n arbitrary: rest rule: itoa_digits.induct)
  case (1 n)
  have dig: "is_digit (char_of (48 + d))" "(of_char (char_of (48 + d) :: char) :: int) = 48 + d" if "0 \<le> d" "d \<le> 9" for d :: int
    using that by (simp_all add: is_digit_def)
  show ?case
  proof (cases "n < 10")
    case True
    with 1 show ?thesis by (simp add: itoa_digits.simps [of n] dig)
  next
    case False
    have "dtoi_loop 0 (itoa_digits (n div 10) @ char_of (48 + n mod 10) # rest) = dtoi_loop (n div 10) (char_of (48 + n mod 10) # rest)"
      using False 1 by simp
    moreover have "dtoi_loop (n div 10) (char_of (48 + n mod 10) # rest) = dtoi_loop n rest"
      using 1(3) dig [of "n mod 10"] by (simp add: Let_def)
    ultimately show ?thesis using False by (simp add: itoa_digits.simps [of n])
  qed
qed

lemma dtoi_itoa: "0 \<le> n \<Longrightarrow> n < 0xFFFFFF \<Longrightarrow> dtoi (itoa n) = Some n"
  using dtoi_loop_itoa [of n "[]"] by (simp add: dtoi_def itoa_def)

definition cidr_text :: "8 word list \<times> nat \<Rightarrow> string" where
  "cidr_text = (\<lambda>(b, n). dotted b @ ''/'' @ itoa (int n))"

definition v4_net :: "8 word list \<times> nat \<Rightarrow> IPNet" where
  "v4_net = (\<lambda>(b, n). \<lparr>net_IP = map2 (AND) b (cidr_mask 4 n), net_Mask = cidr_mask 4 n\<rparr>)"

lemma ParseCIDR_text:
  assumes "length b = 4" and "n \<le> 32"
  shows "ParseCIDR (cidr_text (b, n)) = Some (v4_net (b, n))"
proof -
  have "CHR ''/'' \<notin> set (dotted b)" using dotted_chars [OF assms(1), of "CHR ''/''"] by (auto simp: is_digit_def)
  then have cut: "Go_Prelude.cut (CHR ''/'') (dotted b @ CHR ''/'' # itoa (int n)) = (dotted b, itoa (int n), True)" by simp
  have "ip_mask (v4InV6Prefix @ b) (cidr_mask 4 n) = map2 (AND) b (cidr_mask 4 n)"
    using assms(1) by (simp add: ip_mask_def v4InV6Prefix_def)
  then show ?thesis
    using assms cut dtoi_itoa [of "int n"] by (simp add: ParseCIDR_def cidr_text_def v4_net_def ParseAddr_dotted as16_def Let_def)
qed

text \<open>A network of IPv4 contains the addresses that agree with it in the first bits.\<close>

lemma To4_length: "To4 ip = Some a \<Longrightarrow> length a = 4" "To4 ip = None \<Longrightarrow> length ip \<noteq> 4"
  by (auto simp: To4_def split: if_splits)

lemma v4_net_contains:
  assumes "length b = 4" and "n \<le> 32"
  shows "ipnet_Contains (v4_net (b, n)) ip \<longleftrightarrow> (\<exists>a. To4 ip = Some a \<and> take n (ip_bits a) = take n (ip_bits b))"
proof -
  have net: "networkNumberAndMask (v4_net (b, n)) = Some (map2 (AND) b (cidr_mask 4 n), cidr_mask 4 n)"
    using assms(1) by (simp add: networkNumberAndMask_def v4_net_def To4_def Let_def)
  show ?thesis
  proof (cases "To4 ip")
    case None
    with net assms(1) To4_length(2) [OF None] show ?thesis by (auto simp: ipnet_Contains_def)
  next
    case (Some a)
    with net assms masked_bits [of b a n] To4_length(1) [OF Some] show ?thesis by (auto simp: ipnet_Contains_def masked_twice)
  qed
qed

text \<open>The IPv4 address of a peer, if it has one: the host of the remote address, parsed, an IPv4-mapped IPv6 address included.\<close>

definition peer_v4 :: "string \<Rightarrow> 8 word list option" where
  "peer_v4 addr = Option.bind (SplitHost addr) (\<lambda>h. Option.bind (ParseIP h) To4)"

lemma SplitHost_plain:
  assumes "\<forall>c \<in> set h. c \<notin> {CHR '':'', CHR ''['', CHR '']''}" and "\<forall>c \<in> set port. c \<notin> {CHR '':'', CHR ''['', CHR '']''}" and "h \<noteq> []"
  shows "SplitHost (h @ '':'' @ port) = Some h"
proof -
  have "takeWhile (\<lambda>c. c \<noteq> CHR '':'') (rev port @ CHR '':'' # rev h) = rev port"
    using assms(2) by (subst takeWhile_append2) auto
  moreover have "hd (h @ s) \<noteq> CHR ''[''" for s using assms(1,3) by (cases h) auto
  ultimately show ?thesis using assms by (auto simp: SplitHost_def Let_def)
qed

lemma SplitHost_dotted:
  assumes "length b = 4" and "\<forall>c \<in> set port. c \<notin> {CHR '':'', CHR ''['', CHR '']''}"
  shows "SplitHost (dotted b @ '':'' @ port) = Some (dotted b)"
proof (rule SplitHost_plain [OF _ assms(2)])
  show "\<forall>c \<in> set (dotted b). c \<notin> {CHR '':'', CHR ''['', CHR '']''}"
    by (auto simp: is_digit_def dest!: dotted_chars [OF assms(1)])
  show "dotted b \<noteq> []" using length4 [OF assms(1)] by (auto simp: dotted_four)
qed

lemma peer_v4_dotted:
  assumes "length a = 4" and "\<forall>c \<in> set port. c \<notin> {CHR '':'', CHR ''['', CHR '']''}"
  shows "peer_v4 (dotted a @ '':'' @ port) = Some a"
  using SplitHost_dotted [OF assms] ParseIP_dotted [OF assms(1)] assms(1) by (simp add: peer_v4_def To4_def v4InV6Prefix_def)

end
