(* ===== verification/Shm.thy ===== *)
theory Shm
  imports Go_Path Go_Net
begin

text \<open>
  Shared-memory segments (pkg/shm/shm_linux.go).

  The world holds the files (path to size) and the live memory mappings. Each system call may fail
  for a reason of its own: the \<open>faults\<close> argument fixes which of them do. The kernel's own rules are
  written out: \<^verbatim>\<open>O_CREATE|O_EXCL\<close> refuses an existing path, \<^verbatim>\<open>O_RDWR\<close> alone a missing one, \<^verbatim>\<open>mmap\<close> an empty length.
\<close>

section \<open>Model\<close>

record shm_world =
  files :: "string \<rightharpoonup> int"
  mapped :: "nat set"
  next_map :: nat

record faults =
  f_rand :: "string option"
  f_open :: "string option"
  f_trunc :: "string option"
  f_mmap :: "string option"
  f_close :: "string option"
  f_munmap :: "string option"
  f_remove :: "string option"

datatype shm_error =
    InvalidSize int
  | InvalidName string
  | ShmOpen string string
  | ShmTruncate string
  | ShmMmap string
  | ShmOther string

text \<open>\<^verbatim>\<open>data\<close> is nil or the live mapping, which is never empty.\<close>

record Segment =
  seg_path :: string
  seg_size :: int
  seg_data :: "nat option"

definition name_head :: "char \<Rightarrow> bool" where
  "name_head c \<longleftrightarrow> (let n = (of_char c :: int) in
     97 \<le> n \<and> n \<le> 122 \<or> 65 \<le> n \<and> n \<le> 90 \<or> 48 \<le> n \<and> n \<le> 57)"

definition name_tail :: "char \<Rightarrow> bool" where
  "name_tail c \<longleftrightarrow> name_head c \<or> c = CHR ''.'' \<or> c = CHR ''_'' \<or> c = CHR ''-''"

text \<open>\<^verbatim>\<open>^[a-zA-Z0-9][a-zA-Z0-9._-]{0,126}$\<close>\<close>

definition shmNamePat :: "string \<Rightarrow> bool" where
  "shmNamePat s \<longleftrightarrow> (case s of [] \<Rightarrow> False | c # cs \<Rightarrow> name_head c \<and> list_all name_tail cs \<and> length cs \<le> 126)"

definition shm_dir :: string where
  "shm_dir = ''/dev/shm''"

definition os_remove :: "faults \<Rightarrow> string \<Rightarrow> shm_world \<Rightarrow> string option \<times> shm_world" where
  "os_remove f p w =
     (case f_remove f of
        Some e \<Rightarrow> (Some e, w)
      | None \<Rightarrow> if files w p = None then (Some ''ENOENT'', w) else (None, w\<lparr>files := (files w)(p := None)\<rparr>))"

definition os_munmap :: "faults \<Rightarrow> nat \<Rightarrow> shm_world \<Rightarrow> string option \<times> shm_world" where
  "os_munmap f r w =
     (case f_munmap f of
        Some e \<Rightarrow> (Some e, w)
      | None \<Rightarrow> (None, w\<lparr>mapped := mapped w - {r}\<rparr>))"

definition os_mmap :: "faults \<Rightarrow> int \<Rightarrow> shm_world \<Rightarrow> (string + nat) \<times> shm_world" where
  "os_mmap f sz w =
     (case f_mmap f of
        Some e \<Rightarrow> (Inl e, w)
      | None \<Rightarrow> if sz \<le> 0 then (Inl ''EINVAL'', w)
          else (Inr (next_map w), w\<lparr>mapped := insert (next_map w) (mapped w), next_map := Suc (next_map w)\<rparr>))"

text \<open>The tail the two constructors share: open exclusively, size, map, close.\<close>

definition map_new :: "faults \<Rightarrow> string \<Rightarrow> int \<Rightarrow> shm_world \<Rightarrow> (shm_error + Segment) \<times> shm_world" where
  "map_new f p sz w =
     (case (if p \<in> dom (files w) then Some ''EEXIST'' else f_open f) of
        Some e \<Rightarrow> (Inl (ShmOpen p e), w)
      | None \<Rightarrow>
        (let w1 = w\<lparr>files := (files w)(p \<mapsto> 0)\<rparr> in
         case f_trunc f of
           Some e \<Rightarrow> (Inl (ShmTruncate e), snd (os_remove f p w1))
         | None \<Rightarrow>
           (let w2 = w1\<lparr>files := (files w1)(p \<mapsto> sz)\<rparr> in
            case os_mmap f sz w2 of
              (Inl e, w3) \<Rightarrow> (Inl (ShmMmap e), snd (os_remove f p w3))
            | (Inr r, w3) \<Rightarrow>
              (case f_close f of
                 Some e \<Rightarrow> (Inl (ShmOther e), snd (os_remove f p (snd (os_munmap f r w3))))
               | None \<Rightarrow> (Inr \<lparr>seg_path = p, seg_size = sz, seg_data = Some r\<rparr>, w3)))))"

definition Create :: "faults \<Rightarrow> 8 word list \<Rightarrow> int \<Rightarrow> shm_world \<Rightarrow> (shm_error + Segment) \<times> shm_world" where
  "Create f rnd sz w =
     (if sz \<le> 0 then (Inl (InvalidSize sz), w)
      else (case f_rand f of
              Some e \<Rightarrow> (Inl (ShmOther e), w)
            | None \<Rightarrow> map_new f (path_join [shm_dir, ''nexusflow-'' @ hex_encode rnd]) sz w))"

definition CreateNamed :: "faults \<Rightarrow> string \<Rightarrow> int \<Rightarrow> shm_world \<Rightarrow> (shm_error + Segment) \<times> shm_world" where
  "CreateNamed f name sz w =
     (if sz \<le> 0 then (Inl (InvalidSize sz), w)
      else if \<not> shmNamePat name then (Inl (InvalidName name), w)
      else map_new f (path_join [shm_dir, ''nexusflow-'' @ name]) sz w)"

definition OpenPath :: "faults \<Rightarrow> string \<Rightarrow> int \<Rightarrow> shm_world \<Rightarrow> (shm_error + Segment) \<times> shm_world" where
  "OpenPath f p sz w =
     (case (if p \<notin> dom (files w) then Some ''ENOENT'' else f_open f) of
        Some e \<Rightarrow> (Inl (ShmOther e), w)
      | None \<Rightarrow>
        (case os_mmap f sz w of
           (Inl e, w1) \<Rightarrow> (Inl (ShmOther e), w1)
         | (Inr r, w1) \<Rightarrow> (Inr \<lparr>seg_path = p, seg_size = sz, seg_data = Some r\<rparr>, w1)))"

definition seg_Close :: "faults \<Rightarrow> Segment \<Rightarrow> shm_world \<Rightarrow> string option \<times> Segment \<times> shm_world" where
  "seg_Close f s w =
     (case seg_data s of
        None \<Rightarrow> (None, s, w)
      | Some r \<Rightarrow> (case os_munmap f r w of (err, w1) \<Rightarrow> (err, s\<lparr>seg_data := None\<rparr>, w1)))"

definition remove_file :: "faults \<Rightarrow> Segment \<Rightarrow> shm_world \<Rightarrow> string option \<times> Segment \<times> shm_world" where
  "remove_file f s w =
     (if seg_path s \<noteq> [] then
        (case os_remove f (seg_path s) w of (err, w1) \<Rightarrow> (err, s\<lparr>seg_path := []\<rparr>, w1))
      else (None, s, w))"

definition seg_Remove :: "faults \<Rightarrow> Segment \<Rightarrow> shm_world \<Rightarrow> string option \<times> Segment \<times> shm_world" where
  "seg_Remove f s w =
     (case seg_data s of
        None \<Rightarrow> remove_file f s w
      | Some r \<Rightarrow>
          (case os_munmap f r w of
             (Some e, w1) \<Rightarrow> (Some e, s, w1)
           | (None, w1) \<Rightarrow> remove_file f (s\<lparr>seg_data := None\<rparr>) w1))"

section \<open>Names\<close>

lemma shm_dir_abs: "shm_dir = abs_path [''dev'', ''shm'']"
  by (simp add: shm_dir_def abs_path_def)

lemma name_tail_no_slash: "list_all name_tail s \<Longrightarrow> CHR ''/'' \<notin> set s"
  by (auto simp: list_all_iff name_tail_def name_head_def Let_def)

lemma shmNamePat_no_slash: "shmNamePat s \<Longrightarrow> CHR ''/'' \<notin> set s"
  using name_tail_no_slash [of s]
  by (auto simp: shmNamePat_def name_tail_def split: list.splits)

text \<open>A slash-free name stays in the directory, under the program's prefix.\<close>

lemma shm_path_plain:
  assumes "CHR ''/'' \<notin> set n"
  shows "path_join [shm_dir, ''nexusflow-'' @ n] = ''/dev/shm/nexusflow-'' @ n"
proof -
  have "file_name (''nexusflow-'' @ n)" using assms by (intro file_name_prefixed) auto
  then have "path_join [shm_dir, ''nexusflow-'' @ n] = abs_path [''dev'', ''shm'', ''nexusflow-'' @ n]"
    using path_join_file [of "[''dev'', ''shm'']"] by (simp add: shm_dir_abs file_name_def)
  then show ?thesis by (simp add: abs_path_def)
qed

lemma hex_digit_set: "unat d < 16 \<Longrightarrow> hex_digit d \<in> set ''0123456789abcdef''"
  unfolding hex_digit_def by (rule nth_mem) simp

lemma hex_encode_no_slash: "CHR ''/'' \<notin> set (hex_encode xs)"
proof
  assume "CHR ''/'' \<in> set (hex_encode xs)"
  then obtain b :: "8 word" where "CHR ''/'' = hex_digit (b div 16) \<or> CHR ''/'' = hex_digit (b mod 16)"
    by (auto simp: hex_encode_def)
  then have "CHR ''/'' \<in> set ''0123456789abcdef''" using hex_digit_set word_nibbles by metis
  then show False by simp
qed

section \<open>The life of a segment\<close>

definition wf_world :: "shm_world \<Rightarrow> bool" where
  "wf_world w \<longleftrightarrow> (\<forall>r \<in> mapped w. r < next_map w)"

text \<open>The segment \<open>s\<close> was added to the world \<open>w\<close>: its file is new, and so is its mapping.\<close>

definition fresh_segment :: "shm_world \<Rightarrow> Segment \<Rightarrow> shm_world \<Rightarrow> bool" where
  "fresh_segment w s w' \<longleftrightarrow>
     0 < seg_size s \<and> seg_path s \<noteq> [] \<and> files w (seg_path s) = None \<and>
     files w' = (files w)(seg_path s \<mapsto> seg_size s) \<and>
     seg_data s = Some (next_map w) \<and> mapped w' = insert (next_map w) (mapped w) \<and> next_map w' = Suc (next_map w)"

lemma map_new_ok:
  assumes "map_new f p sz w = (Inr s, w')" and "p \<noteq> []"
  shows "fresh_segment w s w'" and "seg_path s = p" and "seg_size s = sz"
  using assms
  by (auto simp: map_new_def fresh_segment_def os_mmap_def Let_def split: if_splits option.splits)

lemma map_new_clean:
  assumes "map_new f p sz w = (Inl e, w')" and "f_remove f = None" and "f_munmap f = None" and "wf_world w"
  shows "files w' = files w" and "mapped w' = mapped w"
  using assms
  by (auto simp: map_new_def os_mmap_def os_remove_def os_munmap_def wf_world_def Let_def
      split: if_splits option.splits)

text \<open>What the users of a segment constructor rely on.\<close>

locale segment_maker =
  fixes make :: "faults \<Rightarrow> shm_world \<Rightarrow> (shm_error + Segment) \<times> shm_world"
  assumes make_ok: "make f w = (Inr s, w') \<Longrightarrow> fresh_segment w s w'"
    and make_clean: "make f w = (Inl e, w') \<Longrightarrow> f_remove f = None \<Longrightarrow> f_munmap f = None \<Longrightarrow>
      wf_world w \<Longrightarrow> files w' = files w \<and> mapped w' = mapped w"
begin

lemma make_remove:
  assumes "make f w = (Inr s, w')" and "wf_world w" and "f_munmap g = None" and "f_remove g = None"
  shows "\<exists>s' w''. seg_Remove g s w' = (None, s', w'') \<and> files w'' = files w \<and> mapped w'' = mapped w \<and>
    seg_path s' = [] \<and> seg_data s' = None"
proof -
  have fresh: "fresh_segment w s w'" by (rule make_ok [OF assms(1)])
  moreover have "next_map w \<notin> mapped w" using assms(2) by (auto simp: wf_world_def)
  ultimately show ?thesis
    using assms(3,4)
    by (auto simp: fresh_segment_def seg_Remove_def remove_file_def os_munmap_def os_remove_def)
qed

lemma make_close_remove:
  assumes "make f w = (Inr s, w')" and "wf_world w" and "f_munmap g = None" and "f_remove g = None"
  shows "\<exists>s1 w1 s2 w2. seg_Close g s w' = (None, s1, w1) \<and> files w1 (seg_path s) = Some (seg_size s) \<and>
    seg_Remove g s1 w1 = (None, s2, w2) \<and> files w2 = files w \<and> mapped w2 = mapped w"
proof -
  have fresh: "fresh_segment w s w'" by (rule make_ok [OF assms(1)])
  moreover have "next_map w \<notin> mapped w" using assms(2) by (auto simp: wf_world_def)
  ultimately show ?thesis
    using assms(3,4)
    by (auto simp: fresh_segment_def seg_Close_def seg_Remove_def remove_file_def os_munmap_def os_remove_def)
qed

end

lemma shm_path_nonempty: "CHR ''/'' \<notin> set n \<Longrightarrow> path_join [shm_dir, ''nexusflow-'' @ n] \<noteq> []"
  by (subst shm_path_plain) simp_all

lemma CreateNamed_ok:
  assumes "CreateNamed f name sz w = (Inr s, w')"
  shows "fresh_segment w s w'" and "shmNamePat name" and "seg_path s = ''/dev/shm/nexusflow-'' @ name"
    and "seg_size s = sz"
proof -
  from assms have pat: "shmNamePat name"
    and m: "map_new f (path_join [shm_dir, ''nexusflow-'' @ name]) sz w = (Inr s, w')"
    by (auto simp: CreateNamed_def split: if_splits)
  have slash: "CHR ''/'' \<notin> set name" by (rule shmNamePat_no_slash [OF pat])
  from map_new_ok [OF m shm_path_nonempty [OF slash]] pat shm_path_plain [OF slash]
  show "fresh_segment w s w'" "shmNamePat name" "seg_path s = ''/dev/shm/nexusflow-'' @ name" "seg_size s = sz"
    by simp_all
qed

lemma Create_ok:
  assumes "Create f rnd sz w = (Inr s, w')"
  shows "fresh_segment w s w'" and "seg_path s = ''/dev/shm/nexusflow-'' @ hex_encode rnd"
proof -
  from assms have m: "map_new f (path_join [shm_dir, ''nexusflow-'' @ hex_encode rnd]) sz w = (Inr s, w')"
    by (auto simp: Create_def split: if_splits option.splits)
  from map_new_ok [OF m shm_path_nonempty [OF hex_encode_no_slash]] shm_path_plain [OF hex_encode_no_slash]
  show "fresh_segment w s w'" "seg_path s = ''/dev/shm/nexusflow-'' @ hex_encode rnd" by simp_all
qed

interpretation named: segment_maker "\<lambda>f. CreateNamed f name sz" for name sz
proof
  fix f w e s w'
  show "fresh_segment w s w'" if "CreateNamed f name sz w = (Inr s, w')" by (rule CreateNamed_ok [OF that])
  show "files w' = files w \<and> mapped w' = mapped w"
    if "CreateNamed f name sz w = (Inl e, w')" "f_remove f = None" "f_munmap f = None" "wf_world w"
    using that map_new_clean [of f _ sz w e w'] by (auto simp: CreateNamed_def split: if_splits)
qed

interpretation random: segment_maker "\<lambda>f. Create f rnd sz" for rnd sz
proof
  fix f w e s w'
  show "fresh_segment w s w'" if "Create f rnd sz w = (Inr s, w')" by (rule Create_ok [OF that])
  show "files w' = files w \<and> mapped w' = mapped w"
    if "Create f rnd sz w = (Inl e, w')" "f_remove f = None" "f_munmap f = None" "wf_world w"
    using that map_new_clean [of f _ sz w e w'] by (auto simp: Create_def split: if_splits option.splits)
qed

section \<open>Properties\<close>

text \<open>
  C24. \<^verbatim>\<open>CreateNamed\<close> never touches a file that is not its own. When it succeeds, the file is
  \<^verbatim>\<open>/dev/shm/nexusflow-NAME\<close> for a name of letters, digits, dots, underscores and dashes, it did not
  exist before and has the requested size, it is mapped, and every other file is as it was. When it
  fails, at whatever point, no file is left behind or changed and no memory stays mapped (as long as
  unlinking and unmapping work).
\<close>

theorem CreateNamed_exclusive:
  assumes "wf_world w" and "f_remove f = None" and "f_munmap f = None"
    and "CreateNamed f name sz w = (res, w')"
  shows "case res of
      Inr s \<Rightarrow> shmNamePat name \<and> seg_path s = ''/dev/shm/nexusflow-'' @ name \<and> CHR ''/'' \<notin> set name \<and>
        0 < sz \<and> files w (seg_path s) = None \<and> files w' = (files w)(seg_path s \<mapsto> sz) \<and>
        seg_data s = Some (next_map w) \<and> mapped w' = insert (next_map w) (mapped w)
    | Inl _ \<Rightarrow> files w' = files w \<and> mapped w' = mapped w"
proof (cases res)
  case (Inl e)
  then show ?thesis using named.make_clean [of f name sz w e w'] assms by simp
next
  case (Inr s)
  then show ?thesis
    using CreateNamed_ok [of f name sz w s w'] assms(4) shmNamePat_no_slash by (simp add: fresh_segment_def)
qed

definition no_faults :: faults where
  "no_faults = \<lparr>f_rand = None, f_open = None, f_trunc = None, f_mmap = None, f_close = None,
     f_munmap = None, f_remove = None\<rparr>"

definition empty_world :: shm_world where
  "empty_world = \<lparr>files = Map.empty, mapped = {}, next_map = 0\<rparr>"

theorem CreateNamed_exclusive_witness:
  "shmNamePat ''plasma'' \<and> fst (CreateNamed (no_faults\<lparr>f_mmap := Some ''ENOMEM''\<rparr>) ''plasma'' 65536 empty_world) =
     Inl (ShmMmap ''ENOMEM'') \<and>
   files (snd (CreateNamed (no_faults\<lparr>f_mmap := Some ''ENOMEM''\<rparr>) ''plasma'' 65536 empty_world)) = Map.empty"
proof -
  have pat: "shmNamePat ''plasma''" by code_simp
  have join: "path_join [shm_dir, ''nexusflow-plasma''] = ''/dev/shm/nexusflow-plasma''"
    using shm_path_plain [of "''plasma''"] by simp
  have bad: "fst (CreateNamed (no_faults\<lparr>f_mmap := Some ''ENOMEM''\<rparr>) ''plasma'' 65536 empty_world) =
      Inl (ShmMmap ''ENOMEM'')"
    using pat join by (simp add: CreateNamed_def map_new_def no_faults_def empty_world_def os_mmap_def)
  have wf: "wf_world empty_world" by (simp add: wf_world_def empty_world_def)
  let ?bad = "no_faults\<lparr>f_mmap := Some ''ENOMEM''\<rparr>"
  have fb: "f_remove ?bad = None" "f_munmap ?bad = None" by (simp_all add: no_faults_def)
  from CreateNamed_exclusive [OF wf fb prod.collapse [symmetric], of "''plasma''" 65536] bad
  have "files (snd (CreateNamed ?bad ''plasma'' 65536 empty_world)) = Map.empty"
    by (simp add: empty_world_def)
  with pat bad show ?thesis by blast
qed

text \<open>
  C25. A segment leaves nothing behind: for a segment from either constructor, \<^verbatim>\<open>Remove\<close> restores the files
  and the mappings there were before it was created, whether or not \<^verbatim>\<open>Close\<close> was called first (after
  \<^verbatim>\<open>Close\<close> the file is still there for the peers), and a second \<^verbatim>\<open>Remove\<close> does nothing and succeeds.
\<close>

theorem segment_lifecycle:
  assumes "wf_world w" and "f_munmap g = None" and "f_remove g = None"
    and "Create f rnd sz w = (Inr s, w') \<or> CreateNamed f name sz w = (Inr s, w')"
  shows "(\<exists>s' w''. seg_Remove g s w' = (None, s', w'') \<and> files w'' = files w \<and> mapped w'' = mapped w \<and>
      (\<forall>h. seg_Remove h s' w'' = (None, s', w''))) \<and>
    (\<exists>s1 w1 s2 w2. seg_Close g s w' = (None, s1, w1) \<and> files w1 (seg_path s) = Some (seg_size s) \<and>
      seg_Remove g s1 w1 = (None, s2, w2) \<and> files w2 = files w \<and> mapped w2 = mapped w)"
proof (rule conjI)
  have again: "seg_Remove h s' w'' = (None, s', w'')" if "seg_path s' = []" "seg_data s' = None" for h s' w''
    using that by (simp add: seg_Remove_def remove_file_def)
  show "\<exists>s' w''. seg_Remove g s w' = (None, s', w'') \<and> files w'' = files w \<and> mapped w'' = mapped w \<and>
      (\<forall>h. seg_Remove h s' w'' = (None, s', w''))"
    using assms(4) named.make_remove [of f name sz, OF _ assms(1-3)] random.make_remove [of f rnd sz, OF _ assms(1-3)]
      again by (metis (no_types, lifting))
  show "\<exists>s1 w1 s2 w2. seg_Close g s w' = (None, s1, w1) \<and> files w1 (seg_path s) = Some (seg_size s) \<and>
      seg_Remove g s1 w1 = (None, s2, w2) \<and> files w2 = files w \<and> mapped w2 = mapped w"
    using assms(4) named.make_close_remove [of f name sz, OF _ assms(1-3)]
      random.make_close_remove [of f rnd sz, OF _ assms(1-3)] by blast
qed

theorem segment_lifecycle_witness:
  "\<exists>s w' s' w''. CreateNamed no_faults ''plasma'' 65536 empty_world = (Inr s, w') \<and>
     seg_Remove no_faults s w' = (None, s', w'') \<and> files w'' = Map.empty \<and> mapped w'' = {}"
proof -
  have pat: "shmNamePat ''plasma''" by code_simp
  have wf: "wf_world empty_world" by (simp add: wf_world_def empty_world_def)
  have faults: "f_munmap no_faults = None" "f_remove no_faults = None" by (simp_all add: no_faults_def)
  have join: "path_join [shm_dir, ''nexusflow-plasma''] = ''/dev/shm/nexusflow-plasma''"
    using shm_path_plain [of "''plasma''"] by simp
  define s where "s = \<lparr>seg_path = ''/dev/shm/nexusflow-plasma'', seg_size = 65536, seg_data = Some 0\<rparr>"
  define w' where "w' = empty_world\<lparr>files := [''/dev/shm/nexusflow-plasma'' \<mapsto> 65536], mapped := {0}, next_map := 1\<rparr>"
  have mk: "CreateNamed no_faults ''plasma'' 65536 empty_world = (Inr s, w')"
    using pat join
    by (simp add: CreateNamed_def map_new_def no_faults_def empty_world_def os_mmap_def s_def w'_def)
  from segment_lifecycle [OF wf faults disjI2 [OF mk]] obtain s' w'' where
    "seg_Remove no_faults s w' = (None, s', w'')" "files w'' = Map.empty" "mapped w'' = {}"
    by (auto simp: empty_world_def)
  with mk show ?thesis by blast
qed

text \<open>
  Different random draws give \<^verbatim>\<open>Create\<close> different files, and none of them is the file of a name that
  \<^verbatim>\<open>CreateNamed\<close> accepts unless that name is the hexadecimal rendering of the draw.
\<close>

lemma Create_paths_unique:
  assumes "Create f rnd sz w = (Inr s, w1)"
  shows "(Create f' rnd' sz' w' = (Inr s', w2) \<longrightarrow> seg_path s' = seg_path s \<longrightarrow> rnd' = rnd) \<and>
    (CreateNamed f' name sz' w' = (Inr s', w2) \<longrightarrow> seg_path s' = seg_path s \<longrightarrow> name = hex_encode rnd)"
  using Create_ok(2) [OF assms] Create_ok(2) [of f' rnd' sz' w' s' w2] CreateNamed_ok(3) [of f' name sz' w' s' w2]
    hex_encode_inj by auto

end
