(* ===== verification/Plasma_Run.thy ===== *)
theory Plasma_Run
  imports Plasma_Coordinator Shm
begin

text \<open>
  Starting and stopping the Plasma coordinator: \<^verbatim>\<open>plasma.Run\<close> and its deferred clean-up
  (pkg/plasma/coordinator_linux.go, config.go). The files of \<open>shm_world\<close> include the shared-memory file and
  the listening socket.
\<close>

section \<open>Model\<close>

record Config =
  SocketPath :: string
  PipelinePath :: string
  ShmName :: string
  ShmSize :: int
  IdleExit :: int

datatype plasma_error =
    SocketRequired
  | PipelineRequired
  | TopologyMissing
  | LoadFailed "string load_error"
  | ShmFailed shm_error
  | ListenFailed string

text \<open>Durations are in nanoseconds.\<close>

definition cfg_defaults :: "Config \<Rightarrow> Config" where
  "cfg_defaults cfg =
     (let c1 = (if IdleExit cfg \<le> 0 then cfg\<lparr>IdleExit := 15000000000\<rparr> else cfg);
          c2 = (if ShmSize c1 \<le> 0 then c1\<lparr>ShmSize := 65536\<rparr> else c1) in
      if ShmName c2 = [] then c2\<lparr>ShmName := ''plasma''\<rparr> else c2)"

definition stale_shm :: "Config \<Rightarrow> string" where
  "stale_shm cfg = path_join [shm_dir, ''nexusflow-'' @ ShmName cfg]"

text \<open>
  \<^verbatim>\<open>Run\<close> up to the scheduling loop: the effective configuration, the segment and the initial state of the
  coordinator, or the error. \<open>listen\<close> is the outcome of \<^verbatim>\<open>net.Listen\<close>, which creates the socket file. The results of the two preparatory \<^verbatim>\<open>os.Remove\<close> calls are only logged.
\<close>

definition plasma_start ::
  "faults \<Rightarrow> (string \<Rightarrow> string + string) \<Rightarrow> (string \<Rightarrow> string + Pipeline) \<Rightarrow> string option \<Rightarrow> int \<Rightarrow> Config \<Rightarrow> Topology option \<Rightarrow>
   shm_world \<Rightarrow> (plasma_error + Config \<times> Segment \<times> coordinator) \<times> shm_world" where
  "plasma_start f readFile yaml listen now cfg0 topo w0 =
     (if SocketPath cfg0 = [] then (Inl SocketRequired, w0)
      else if PipelinePath cfg0 = [] then (Inl PipelineRequired, w0)
      else if topo = None then (Inl TopologyMissing, w0)
      else
        (let cfg = cfg_defaults cfg0;
             w1 = snd (os_remove f (stale_shm cfg) w0) in
         case LoadFile readFile yaml (PipelinePath cfg) of
           Inl e \<Rightarrow> (Inl (LoadFailed e), w1)
         | Inr p \<Rightarrow>
           (case CreateNamed f (ShmName cfg) (ShmSize cfg) w1 of
              (Inl e, w2) \<Rightarrow> (Inl (ShmFailed e), w2)
            | (Inr seg, w2) \<Rightarrow>
              (let w3 = snd (os_remove f (SocketPath cfg) w2) in
               case listen of
                 Some e \<Rightarrow> (Inl (ListenFailed e), snd (snd (seg_Remove f seg w3)))
               | None \<Rightarrow>
                   (Inr (cfg, seg, coord_init (pl_Nodes p) now),
                    w3\<lparr>files := (files w3)(SocketPath cfg \<mapsto> 0)\<rparr>)))))"

text \<open>The sample log on standard error: one line for each sample that can be encoded.\<close>

definition dumpSamples :: "(SampleRecord \<Rightarrow> string + string) \<Rightarrow> coordinator \<Rightarrow> string list" where
  "dumpSamples marshal s =
     concat (map (\<lambda>r. case marshal r of Inl _ \<Rightarrow> [] | Inr b \<Rightarrow> [b @ nl]) (c_samples s))"

text \<open>The deferred function: close and remove the socket, dump the samples, remove the segment.\<close>

definition plasma_stop ::
  "faults \<Rightarrow> (SampleRecord \<Rightarrow> string + string) \<Rightarrow> Config \<Rightarrow> Segment \<Rightarrow> coordinator \<Rightarrow> shm_world \<Rightarrow> string list \<times> shm_world" where
  "plasma_stop f marshal cfg seg s w =
     (let w1 = snd (os_remove f (SocketPath cfg) w) in
      (dumpSamples marshal s, snd (snd (seg_Remove f seg w1))))"

section \<open>Properties\<close>

lemma os_remove_files: "f_remove f = None \<Longrightarrow> files (snd (os_remove f p w)) = (files w)(p := None)"
  by (auto simp: os_remove_def)

lemma os_remove_maps [simp]:
  "mapped (snd (os_remove f p w)) = mapped w" "next_map (snd (os_remove f p w)) = next_map w"
  by (auto simp: os_remove_def split: option.splits)

lemma seg_Remove_world:
  assumes "f_remove f = None" and "f_munmap f = None" and "seg_data s = Some r" and "seg_path s \<noteq> []"
  shows "files (snd (snd (seg_Remove f s w))) = (files w)(seg_path s := None)"
    and "mapped (snd (snd (seg_Remove f s w))) = mapped w - {r}"
  using assms by (auto simp: seg_Remove_def remove_file_def os_munmap_def os_remove_def)

lemma cfg_defaults_simps [simp]:
  "SocketPath (cfg_defaults cfg) = SocketPath cfg" "PipelinePath (cfg_defaults cfg) = PipelinePath cfg"
  "0 < IdleExit (cfg_defaults cfg)" "0 < ShmSize (cfg_defaults cfg)" "ShmName (cfg_defaults cfg) \<noteq> []"
  by (auto simp: cfg_defaults_def Let_def)

lemma stale_shm_plain: "shmNamePat (ShmName cfg) \<Longrightarrow> stale_shm cfg = ''/dev/shm/nexusflow-'' @ ShmName cfg"
  unfolding stale_shm_def by (rule shm_path_plain [OF shmNamePat_no_slash])

lemma LoadFile_valid: "LoadFile readFile yaml path = Inr p \<Longrightarrow> Validate (Some p) = Inr ()"
  by (auto simp: LoadFile_def split: sum.splits)

lemma plasma_start_ok:
  assumes "plasma_start f readFile yaml listen now cfg0 topo w0 = (Inr (cfg, seg, c), w)"
  obtains p w1 w2 where "cfg = cfg_defaults cfg0" "w1 = snd (os_remove f (stale_shm cfg) w0)"
    "LoadFile readFile yaml (PipelinePath cfg) = Inr p" "c = coord_init (pl_Nodes p) now"
    "CreateNamed f (ShmName cfg) (ShmSize cfg) w1 = (Inr seg, w2)"
    "w = (snd (os_remove f (SocketPath cfg) w2))\<lparr>files :=
       (files (snd (os_remove f (SocketPath cfg) w2)))(SocketPath cfg \<mapsto> 0)\<rparr>"
  using assms by (auto simp: plasma_start_def Let_def split: if_splits sum.splits prod.splits option.splits)

text \<open>
  C35. A coordinator leaves the machine as it found it. Once \<^verbatim>\<open>Run\<close> has reached its loop, the pipeline it runs
  is validated and the segment name is a plain one; and its clean-up, whatever the loop did, removes
  the socket and the segment, so that the only files that differ from before the start are those two
  paths, which no longer exist, and no memory stays mapped.
\<close>

theorem plasma_leaves_nothing:
  assumes "wf_world w0" and "f_remove f = None" and "f_munmap f = None"
    and "plasma_start f readFile yaml listen now cfg0 topo w0 = (Inr (cfg, seg, c), w)"
    and "plasma_stop f marshal cfg seg s w = (out, w')"
  shows "shmNamePat (ShmName cfg) \<and>
    (\<exists>p. Validate (Some p) = Inr () \<and> c = coord_init (pl_Nodes p) now) \<and>
    files w' = (files w0)(''/dev/shm/nexusflow-'' @ ShmName cfg := None, SocketPath cfg := None) \<and>
    mapped w' = mapped w0"
proof -
  from assms(4) obtain p w1 w2 where run: "w1 = snd (os_remove f (stale_shm cfg) w0)"
    "LoadFile readFile yaml (PipelinePath cfg) = Inr p" "c = coord_init (pl_Nodes p) now"
    "CreateNamed f (ShmName cfg) (ShmSize cfg) w1 = (Inr seg, w2)"
    "w = (snd (os_remove f (SocketPath cfg) w2))\<lparr>files :=
       (files (snd (os_remove f (SocketPath cfg) w2)))(SocketPath cfg \<mapsto> 0)\<rparr>"
    by (rule plasma_start_ok)
  note seg = CreateNamed_ok [OF run(4)]
  have w1: "files w1 = (files w0)(seg_path seg := None)" "mapped w1 = mapped w0" "next_map w1 = next_map w0"
    using assms(2) seg(2,3) by (simp_all add: run(1) os_remove_files stale_shm_plain)
  have "next_map w0 \<notin> mapped w0" using assms(1) by (auto simp: wf_world_def)
  moreover have "w' = snd (snd (seg_Remove f seg (snd (os_remove f (SocketPath cfg) w))))"
    using assms(5) by (simp add: plasma_stop_def Let_def)
  ultimately have "files w' = (files w0)(seg_path seg := None, SocketPath cfg := None)" "mapped w' = mapped w0"
    using assms(2,3) seg(1) w1
    by (auto simp: seg_Remove_world os_remove_files run(5) fresh_segment_def fun_eq_iff)
  with seg(2,3) LoadFile_valid [OF run(2)] run(3) show ?thesis by auto
qed

definition demo_config :: Config where
  "demo_config = \<lparr>SocketPath = ''/run/p.sock'', PipelinePath = ''p.yaml'', ShmName = [], ShmSize = 0, IdleExit = 0\<rparr>"

theorem plasma_leaves_nothing_witness:
  "\<exists>cfg seg c w out w'. plasma_start no_faults (\<lambda>_. Inr []) (\<lambda>_. Inr one_node) None 0 demo_config (Some two_node_machine)
       empty_world = (Inr (cfg, seg, c), w) \<and>
     plasma_stop no_faults (\<lambda>_. Inl []) cfg seg c w = (out, w') \<and> mapped w' = {}"
proof -
  let ?start = "plasma_start no_faults (\<lambda>_. Inr []) (\<lambda>_. Inr one_node) None 0 demo_config (Some two_node_machine) empty_world"
  have faults: "f_remove no_faults = None" "f_munmap no_faults = None" by (simp_all add: no_faults_def)
  have wf: "wf_world empty_world" by (simp add: wf_world_def empty_world_def)
  have pat: "shmNamePat ''plasma''" by code_simp
  have join: "path_join [shm_dir, ''nexusflow-plasma''] = ''/dev/shm/nexusflow-plasma''"
    using shm_path_plain [of "''plasma''"] by simp
  have load: "LoadFile (\<lambda>_. Inr []) (\<lambda>_. Inr one_node) ''p.yaml'' = (Inr one_node :: string load_error + Pipeline)"
    using one_node_valid by (simp add: LoadFile_def)
  have "is_ok (fst ?start)"
    using pat join load
    by (simp add: plasma_start_def demo_config_def cfg_defaults_def no_faults_def empty_world_def
        stale_shm_def CreateNamed_def map_new_def os_mmap_def os_remove_def)
  then obtain cfg seg c w where st: "?start = (Inr (cfg, seg, c), w)"
    by (metis is_ok_iff prod.collapse)
  obtain out w' where stop: "plasma_stop no_faults (\<lambda>_. Inl []) cfg seg c w = (out, w')" by fastforce
  from plasma_leaves_nothing [OF wf faults st stop] st stop show ?thesis
    by (auto simp: empty_world_def)
qed

text \<open>
  Before it validates the segment name, \<^verbatim>\<open>Run\<close> deletes the file the unvalidated name points to. With a name
  that climbs out of \<^verbatim>\<open>/dev/shm\<close>, it deletes a file elsewhere, \<^verbatim>\<open>/etc/hosts\<close> here, and then fails: on the
  name, or already on the pipeline file.
\<close>

theorem stale_removal_escapes:
  "\<not> is_ok (fst (plasma_start no_faults readFile yaml listen now
       (demo_config\<lparr>ShmName := ''/../../../etc/hosts''\<rparr>) (Some t) (empty_world\<lparr>files := [''/etc/hosts'' \<mapsto> 120]\<rparr>))) \<and>
   files (snd (plasma_start no_faults readFile yaml listen now
       (demo_config\<lparr>ShmName := ''/../../../etc/hosts''\<rparr>) (Some t) (empty_world\<lparr>files := [''/etc/hosts'' \<mapsto> 120]\<rparr>)))
     ''/etc/hosts'' = None"
proof -
  have join: "path_join [shm_dir, ''nexusflow-/../../../etc/hosts''] = ''/etc/hosts''"
  proof -
    have split: "split_on (CHR ''/'') ''nexusflow-/../../../etc/hosts'' =
        [''nexusflow-'', ''..'', ''..'', ''..'', ''etc'', ''hosts'']" by code_simp
    have "list_all file_name [''dev'', ''shm'']" by (simp add: file_name_def)
    then have "path_join [shm_dir, ''nexusflow-/../../../etc/hosts''] =
        abs_path (clean_comps True [''shm'', ''dev''] (split_on (CHR ''/'') ''nexusflow-/../../../etc/hosts''))"
      using path_join_abs [of "[''dev'', ''shm'']" "''nexusflow-/../../../etc/hosts''"]
      unfolding shm_dir_abs by simp
    then show ?thesis unfolding split by (simp add: abs_path_def)
  qed
  have pat: "\<not> shmNamePat ''/../../../etc/hosts''" by code_simp
  show ?thesis
    using join pat
    by (simp add: plasma_start_def demo_config_def cfg_defaults_def no_faults_def empty_world_def
        stale_shm_def CreateNamed_def os_remove_def Let_def split: sum.split)
qed

end
