(* ===== verification/Plasma_Frame.thy ===== *)
theory Plasma_Frame
  imports Go_Prelude "HOL-Library.Word"
begin

text \<open>
  The wire format of the Plasma socket: length-prefixed frames (pkg/plasma/frame.go) and single messages
  that carry a file descriptor (pkg/plasma/wire_linux.go).

  A stream is the list of bytes still to be read, followed by how it ends. JSON encoding is a
  parameter, and so are the control-message functions of golang.org/x/sys/unix.
\<close>

unbundle bit_operations_syntax

section \<open>Model: frame.go\<close>

type_synonym bytes = "8 word list"

datatype stream_end = EOF | ReadError string

datatype frame_error =
    FrameEOF
  | UnexpectedEOF
  | FrameReadError string
  | FrameTooLarge "32 word"

definition maxFrameBytes :: nat where
  "maxFrameBytes = 4 * 2 ^ 20"

definition put_uint32 :: "32 word \<Rightarrow> bytes" where
  "put_uint32 v = [ucast (drop_bit 24 v), ucast (drop_bit 16 v), ucast (drop_bit 8 v), ucast v]"

fun uint32_be :: "bytes \<Rightarrow> 32 word" where
  "uint32_be [a, b, c, d] = ucast d OR push_bit 8 (ucast c) OR push_bit 16 (ucast b) OR push_bit 24 (ucast a)"
| "uint32_be _ = 0"

text \<open>\<^verbatim>\<open>io.ReadFull\<close> of a non-empty buffer: the bytes and the rest of the stream.\<close>

definition read_full :: "stream_end \<Rightarrow> nat \<Rightarrow> bytes \<Rightarrow> frame_error + bytes \<times> bytes" where
  "read_full fin n s =
     (if n \<le> length s then Inr (take n s, drop n s)
      else (case fin of
              EOF \<Rightarrow> Inl (if s = [] then FrameEOF else UnexpectedEOF)
            | ReadError e \<Rightarrow> Inl (FrameReadError e)))"

definition ReadFrameBytes :: "stream_end \<Rightarrow> bytes \<Rightarrow> frame_error + bytes \<times> bytes" where
  "ReadFrameBytes fin s =
     (case read_full fin 4 s of
        Inl e \<Rightarrow> Inl e
      | Inr (hdr, rest) \<Rightarrow>
          (let ln = uint32_be hdr in
           if unat ln > maxFrameBytes then Inl (FrameTooLarge ln)
           else if ln = 0 then Inr ([], rest)
           else read_full fin (unat ln) rest))"

text \<open>The outcome of the two writes is given; the result is the error and the bytes that went out.\<close>

definition WriteJSONFrame ::
  "('v \<Rightarrow> string + bytes) \<Rightarrow> string option \<Rightarrow> string option \<Rightarrow> 'v \<Rightarrow> string option \<times> bytes" where
  "WriteJSONFrame marshal write1 write2 v =
     (case marshal v of
        Inl e \<Rightarrow> (Some e, [])
      | Inr b \<Rightarrow>
          (let hdr = put_uint32 (of_nat (length b)) in
           case write1 of
             Some e \<Rightarrow> (Some e, [])
           | None \<Rightarrow> (case write2 of Some e \<Rightarrow> (Some e, hdr) | None \<Rightarrow> (None, hdr @ b))))"

text \<open>The loop of the connection handler over the stream: the bodies it gets, and what ends it.\<close>

lemma read_full_length: "read_full fin n s = Inr (b, r) \<Longrightarrow> s = b @ r \<and> length b = n"
  by (auto simp: read_full_def split: if_splits stream_end.splits)

lemma ReadFrameBytes_shorter: "ReadFrameBytes fin s = Inr (b, r) \<Longrightarrow> length r < length s"
  by (auto simp: ReadFrameBytes_def Let_def split: sum.splits if_splits dest!: read_full_length)

function read_frames :: "stream_end \<Rightarrow> bytes \<Rightarrow> bytes list \<times> frame_error" where
  "read_frames fin s =
     (case ReadFrameBytes fin s of
        Inl e \<Rightarrow> ([], e)
      | Inr (body, rest) \<Rightarrow> (case read_frames fin rest of (bs, e) \<Rightarrow> (body # bs, e)))"
  by pat_completeness auto

termination
  by (relation "measure (\<lambda>(fin, s). length s)") (auto dest: ReadFrameBytes_shorter)

declare read_frames.simps [simp del]

section \<open>Model: wire_linux.go\<close>

text \<open>
  What happened: the error, the message that was sent (bytes and control data), and the descriptors
  closed.
\<close>

record send_result =
  snd_err :: "string option"
  snd_msg :: "(bytes \<times> bytes) option"
  snd_closed :: "int list"

definition WriteJSONFrameWithFD ::
  "('v \<Rightarrow> string + bytes) \<Rightarrow> (int \<Rightarrow> bytes) \<Rightarrow> string option \<Rightarrow> 'v \<Rightarrow> int \<Rightarrow> send_result" where
  "WriteJSONFrameWithFD marshal unixRights write v fd =
     (let closed = (if fd \<ge> 0 then [fd] else []) in
      case marshal v of
        Inl e \<Rightarrow> \<lparr>snd_err = Some e, snd_msg = None, snd_closed = closed\<rparr>
      | Inr b \<Rightarrow>
          (let pkt = put_uint32 (of_nat (length b)) @ b;
               oob = (if fd \<ge> 0 then unixRights fd else []) in
           case write of
             Some e \<Rightarrow> \<lparr>snd_err = Some e, snd_msg = None, snd_closed = closed\<rparr>
           | None \<Rightarrow> \<lparr>snd_err = None, snd_msg = Some (pkt, oob), snd_closed = closed\<rparr>))"

datatype recv_error = RecvError string | ShortRead | RecvTooLarge | Truncated

text \<open>
  \<open>pkt\<close> and \<open>oob\<close> are what \<^verbatim>\<open>ReadMsgUnix\<close> put into the buffers. When the control data cannot be parsed, the
  body is returned together with the error.
\<close>

definition ReadJSONFrameWithOptionalFD ::
  "(bytes \<Rightarrow> string + 'm list) \<Rightarrow> ('m \<Rightarrow> string + int list) \<Rightarrow> string option \<Rightarrow> bytes \<Rightarrow> bytes \<Rightarrow>
   bytes \<times> int list \<times> recv_error option" where
  "ReadJSONFrameWithOptionalFD parseControl parseRights err pkt oob =
     (case err of
        Some e \<Rightarrow> ([], [], Some (RecvError e))
      | None \<Rightarrow>
        (if length pkt < 4 then ([], [], Some ShortRead)
         else
           (let ln = uint32_be (take 4 pkt) in
            if unat ln > maxFrameBytes then ([], [], Some RecvTooLarge)
            else if 4 + unat ln > length pkt then ([], [], Some Truncated)
            else
              (let body = take (unat ln) (drop 4 pkt) in
               if oob = [] then (body, [], None)
               else (case parseControl oob of
                       Inl e \<Rightarrow> (body, [], Some (RecvError e))
                     | Inr msgs \<Rightarrow>
                         (body, concat (map (\<lambda>m. case parseRights m of Inl _ \<Rightarrow> [] | Inr fds \<Rightarrow> fds) msgs), None))))))"

section \<open>The length prefix\<close>

lemma length_put_uint32 [simp]: "length (put_uint32 v) = 4"
  by (simp add: put_uint32_def)

lemma uint32_be_put [simp]: "uint32_be (put_uint32 v) = v"
  unfolding put_uint32_def uint32_be.simps
proof (rule bit_word_eqI)
  fix n assume "n < LENGTH(32)"
  then consider "n < 8" | "8 \<le> n" "n < 16" | "16 \<le> n" "n < 24" | "24 \<le> n" "n < 32" by force
  then show "bit (ucast (ucast v :: 8 word) OR push_bit 8 (ucast (ucast (drop_bit 8 v) :: 8 word)) OR
      push_bit 16 (ucast (ucast (drop_bit 16 v) :: 8 word)) OR
      push_bit 24 (ucast (ucast (drop_bit 24 v) :: 8 word)) :: 32 word) n = bit v n"
    by cases (auto simp: bit_simps)
qed

lemma put_uint32_be:
  assumes "length h = 4"
  shows "put_uint32 (uint32_be h) = h"
proof -
  obtain a b c d where "h = [a, b, c, d]" using assms by (auto simp: numeral_eq_Suc length_Suc_conv)
  moreover have "\<not> bit w (8 + n)" "\<not> bit w (16 + n)" "\<not> bit w (24 + n)" for w :: "8 word" and n
    by (auto dest: bit_imp_le_length)
  ultimately show ?thesis by (auto simp: put_uint32_def intro!: bit_word_eqI simp: bit_simps)
qed

section \<open>Frames\<close>

text \<open>The bytes of one frame.\<close>

definition frame_bytes :: "bytes \<Rightarrow> bytes" where
  "frame_bytes b = put_uint32 (of_nat (length b)) @ b"

lemma unat_frame_length: "n \<le> maxFrameBytes \<Longrightarrow> unat (of_nat n :: 32 word) = n"
  by (simp add: unat_of_nat maxFrameBytes_def)

lemma read_full_append: "length b = n \<Longrightarrow> read_full fin n (b @ r) = Inr (b, r)"
  by (simp add: read_full_def)

lemma ReadFrameBytes_frame:
  assumes "length b \<le> maxFrameBytes"
  shows "ReadFrameBytes fin (frame_bytes b @ r) = Inr (b, r)"
proof -
  have len: "unat (of_nat (length b) :: 32 word) = length b" by (rule unat_frame_length [OF assms])
  have "read_full fin 4 (frame_bytes b @ r) = Inr (put_uint32 (of_nat (length b)), b @ r)"
    by (simp add: frame_bytes_def read_full_append)
  moreover have "b = []" if "(of_nat (length b) :: 32 word) = 0" using len that by simp
  ultimately show ?thesis
    using assms len unfolding ReadFrameBytes_def Let_def
    by (cases "(of_nat (length b) :: 32 word) = 0") (simp_all add: read_full_append)
qed

lemma ReadFrameBytes_sound:
  assumes "ReadFrameBytes fin s = Inr (b, r)"
  shows "s = frame_bytes b @ r" and "length b \<le> maxFrameBytes"
proof -
  from assms obtain hdr rest where h: "read_full fin 4 s = Inr (hdr, rest)"
    and small: "unat (uint32_be hdr) \<le> maxFrameBytes"
    and b: "if uint32_be hdr = 0 then b = [] \<and> r = rest else read_full fin (unat (uint32_be hdr)) rest = Inr (b, r)"
    by (auto simp: ReadFrameBytes_def Let_def split: sum.splits if_splits)
  from read_full_length [OF h] have s: "s = hdr @ rest" "length hdr = 4" by auto
  have rest: "rest = b @ r" "length b = unat (uint32_be hdr)"
    using b read_full_length [of fin "unat (uint32_be hdr)" rest b r] by (auto split: if_splits)
  then have "of_nat (length b) = uint32_be hdr" by simp
  then show "s = frame_bytes b @ r" using s rest(1) put_uint32_be by (simp add: frame_bytes_def)
  show "length b \<le> maxFrameBytes" using small rest(2) by simp
qed

section \<open>Properties\<close>

text \<open>
  C27. The reader accepts exactly the frames: \<^verbatim>\<open>ReadFrameBytes\<close> returns a body if and only if the stream starts
  with the four-byte big-endian length of that body followed by the body, and it has at most 4 MiB;
  it consumes exactly these bytes.
\<close>

theorem ReadFrameBytes_iff:
  "ReadFrameBytes fin s = Inr (b, r) \<longleftrightarrow> s = frame_bytes b @ r \<and> length b \<le> maxFrameBytes"
  using ReadFrameBytes_frame [of b fin r] ReadFrameBytes_sound [of fin s b r] by blast

lemma read_frames_frames:
  assumes "\<forall>b \<in> set bs. length b \<le> maxFrameBytes"
  shows "read_frames EOF (concat (map frame_bytes bs)) = (bs, FrameEOF)"
  using assms
proof (induction bs)
  case Nil
  then show ?case by (subst read_frames.simps) (simp add: ReadFrameBytes_def read_full_def)
next
  case (Cons b bs)
  then show ?case
    by (subst read_frames.simps) (simp add: ReadFrameBytes_frame)
qed

text \<open>
  C26. Whatever one side writes with \<^verbatim>\<open>WriteJSONFrame\<close>, as long as no encoding exceeds 4 MiB and the writes
  succeed, the other side's loop receives exactly the encodings, in order, and then the end of the
  stream.
\<close>

theorem frames_roundtrip:
  assumes "\<forall>v \<in> set vs. marshal v = Inr (enc v) \<and> length (enc v) \<le> maxFrameBytes"
  shows "read_frames EOF (concat (map (\<lambda>v. snd (WriteJSONFrame marshal None None v)) vs)) = (map enc vs, FrameEOF)"
proof -
  have "map (\<lambda>v. snd (WriteJSONFrame marshal None None v)) vs = map frame_bytes (map enc vs)"
    using assms by (simp add: WriteJSONFrame_def frame_bytes_def)
  then have "concat (map (\<lambda>v. snd (WriteJSONFrame marshal None None v)) vs) = concat (map frame_bytes (map enc vs))"
    by (rule arg_cong)
  moreover have "\<forall>b \<in> set (map enc vs). length b \<le> maxFrameBytes" using assms by simp
  ultimately show ?thesis using read_frames_frames by metis
qed

theorem frames_roundtrip_witness:
  "read_frames EOF (concat (map (\<lambda>v. snd (WriteJSONFrame Inr None None v)) [[1, 2, 3], [], [4]])) =
     ([[1, 2, 3], [], [4]], FrameEOF)"
proof -
  have "\<forall>v \<in> set [[1, 2, 3], [], [4 :: 8 word]]. (Inr v :: string + bytes) = Inr (id v) \<and> length (id v) \<le> maxFrameBytes"
    by (simp add: maxFrameBytes_def)
  from frames_roundtrip [OF this] show ?thesis by simp
qed

text \<open>
  A descriptor sent with a reply arrives with it and is not leaked: the receiver gets the encoded
  reply and exactly that descriptor, and the sender has closed its own copy, as it does also when
  encoding or sending fails. The two laws assumed of the control-message functions say that they
  read back what \<^verbatim>\<open>UnixRights\<close> wrote.
\<close>

theorem fd_roundtrip:
  assumes "parseControl (unixRights fd) = Inr [c]" and "parseRights c = Inr [fd]" and "unixRights fd \<noteq> []"
    and "marshal v = Inr b" and "length b \<le> maxFrameBytes" and "0 \<le> fd"
    and "WriteJSONFrameWithFD marshal unixRights None v fd = r"
  shows "\<exists>pkt oob. snd_msg r = Some (pkt, oob) \<and> snd_err r = None \<and>
    ReadJSONFrameWithOptionalFD parseControl parseRights None pkt oob = (b, [fd], None) \<and>
    (\<forall>e marshal'. snd_closed (WriteJSONFrameWithFD marshal' unixRights e v fd) = [fd])"
proof (intro exI conjI allI)
  let ?pkt = "frame_bytes b"
  show "snd_msg r = Some (?pkt, unixRights fd)" "snd_err r = None"
    using assms(4,6,7) by (auto simp: WriteJSONFrameWithFD_def frame_bytes_def Let_def)
  have "uint32_be (take 4 ?pkt) = of_nat (length b)" by (simp add: frame_bytes_def)
  then show "ReadJSONFrameWithOptionalFD parseControl parseRights None ?pkt (unixRights fd) = (b, [fd], None)"
    using assms(1-3,5) unat_frame_length [OF assms(5)]
    by (simp add: ReadJSONFrameWithOptionalFD_def frame_bytes_def Let_def)
  fix e marshal'
  show "snd_closed (WriteJSONFrameWithFD marshal' unixRights e v fd) = [fd]"
    using assms(6) by (simp add: WriteJSONFrameWithFD_def Let_def split: sum.split option.split)
qed

theorem fd_roundtrip_witness:
  "\<exists>pkt oob. snd_msg (WriteJSONFrameWithFD Inr (\<lambda>n. [of_int n]) None [9, 8] 7) = Some (pkt, oob) \<and>
     ReadJSONFrameWithOptionalFD (\<lambda>b. Inr [b]) (\<lambda>b. Inr (map uint b)) None pkt oob = ([9, 8], [7], None)"
proof -
  have laws: "(\<lambda>b. Inr [b] :: string + bytes list) ((\<lambda>n :: int. [of_int n]) 7) = Inr [[7]]"
    "(\<lambda>b. Inr (map uint b) :: string + int list) [7 :: 8 word] = Inr [7]"
    "(\<lambda>n :: int. [of_int n :: 8 word]) 7 \<noteq> []" "(Inr [9, 8] :: string + bytes) = Inr [9, 8]"
    "length [9, 8 :: 8 word] \<le> maxFrameBytes" "(0 :: int) \<le> 7"
    by (simp_all add: maxFrameBytes_def)
  from fd_roundtrip [where parseControl = "\<lambda>b. Inr [b]" and parseRights = "\<lambda>b. Inr (map uint b)"
      and unixRights = "\<lambda>n. [of_int n]" and marshal = Inr, OF laws refl]
  show ?thesis by blast
qed

end
