(* ===== verification/Fds.thy ===== *)
theory Fds
  imports Main
begin

text \<open>
  The discipline of file descriptors: a sequence of events is well-behaved when no descriptor is used or closed while it is not open, and
  the kernel hands out none that is open. \<open>fds_run\<close> gives the descriptors open at the end.
\<close>

datatype fd_ev = FdOpen int | FdUse int | FdClose int

fun fds_run :: "int set \<Rightarrow> fd_ev list \<Rightarrow> int set option" where
  "fds_run S [] = Some S"
| "fds_run S (FdOpen fd # es) = (if fd \<in> S then None else fds_run (insert fd S) es)"
| "fds_run S (FdUse fd # es) = (if fd \<in> S then fds_run S es else None)"
| "fds_run S (FdClose fd # es) = (if fd \<in> S then fds_run (S - {fd}) es else None)"

lemma fds_run_append: "fds_run S (xs @ ys) = Option.bind (fds_run S xs) (\<lambda>S'. fds_run S' ys)"
  by (induction S xs rule: fds_run.induct) auto

fun ev_fd :: "fd_ev \<Rightarrow> int" where
  "ev_fd (FdOpen fd) = fd"
| "ev_fd (FdUse fd) = fd"
| "ev_fd (FdClose fd) = fd"

text \<open>A thread whose descriptors are its own can be interleaved with others.\<close>

lemma fds_run_other: "fds_run S es = Some S' \<Longrightarrow> ev_fd ` set es \<inter> T = {} \<Longrightarrow> fds_run (S \<union> T) es = Some (S' \<union> T)"
proof (induction S es rule: fds_run.induct)
  case (4 S fd es)
  then have "(S - {fd}) \<union> T = S \<union> T - {fd}" by auto
  with 4 show ?case by (auto split: if_splits)
qed (auto split: if_splits)

lemma fds_run_within: "fds_run S es = Some S' \<Longrightarrow> S' \<subseteq> S \<union> ev_fd ` set es"
  by (induction S es rule: fds_run.induct) (fastforce split: if_splits)+

lemma fds_run_shuffle:
  "es \<in> shuffles xs ys \<Longrightarrow> fds_run S xs = Some S1 \<Longrightarrow> fds_run T ys = Some T1 \<Longrightarrow>
     (S \<union> ev_fd ` set xs) \<inter> (T \<union> ev_fd ` set ys) = {} \<Longrightarrow> fds_run (S \<union> T) es = Some (S1 \<union> T1)"
proof (induction xs ys arbitrary: S T es rule: shuffles.induct)
  case (1 ys)
  then show ?case using fds_run_other [of T ys T1 S] by (auto simp: Un_commute)
next
  case (2 xs)
  then show ?case using fds_run_other [of S xs S1 T] by auto
next
  case (3 x xs y ys)
  have step: "\<exists>S'. fds_run S (z # zs) = fds_run S' zs \<and> S' \<subseteq> S \<union> {ev_fd z} \<and>
      (\<forall>R rest. R \<inter> (S \<union> {ev_fd z}) = {} \<longrightarrow> fds_run (S \<union> R) (z # rest) = fds_run (S' \<union> R) rest)"
    if "fds_run S (z # zs) = Some A" for S z zs A
  proof (cases z)
    case (FdClose fd)
    with that have "fds_run S (z # zs) = fds_run (S - {fd}) zs" "fd \<in> S" by (auto split: if_splits)
    moreover have "S \<union> R - {fd} = S - {fd} \<union> R" if "R \<inter> (S \<union> {fd}) = {}" for R using that by auto
    ultimately show ?thesis using FdClose by (intro exI [of _ "S - {fd}"]) auto
  next
    case (FdOpen fd)
    with that show ?thesis by (intro exI [of _ "insert fd S"]) (auto split: if_splits)
  next
    case (FdUse fd)
    with that show ?thesis by (intro exI [of _ S]) (auto split: if_splits)
  qed
  from 3(3) consider (left) rest where "es = x # rest" "rest \<in> shuffles xs (y # ys)" | (right) rest where "es = y # rest" "rest \<in> shuffles (x # xs) ys"
    by auto
  then show ?case
  proof cases
    case left
    obtain S' where s: "fds_run S (x # xs) = fds_run S' xs" "S' \<subseteq> S \<union> {ev_fd x}"
      "\<forall>R rest. R \<inter> (S \<union> {ev_fd x}) = {} \<longrightarrow> fds_run (S \<union> R) (x # rest) = fds_run (S' \<union> R) rest"
      using step [OF 3(4)] by blast
    have "T \<inter> (S \<union> {ev_fd x}) = {}" using 3(6) by auto
    then have "fds_run (S \<union> T) es = fds_run (S' \<union> T) rest" using s(3) left(1) by simp
    also have "\<dots> = Some (S1 \<union> T1)"
    proof (rule 3(1) [OF left(2) _ 3(5)])
      show "fds_run S' xs = Some S1" using s(1) 3(4) by metis
      show "(S' \<union> ev_fd ` set xs) \<inter> (T \<union> ev_fd ` set (y # ys)) = {}" using s(2) 3(6) by (simp only: list.set image_insert) blast
    qed
    finally show ?thesis .
  next
    case right
    obtain T' where t: "fds_run T (y # ys) = fds_run T' ys" "T' \<subseteq> T \<union> {ev_fd y}"
      "\<forall>R rest. R \<inter> (T \<union> {ev_fd y}) = {} \<longrightarrow> fds_run (T \<union> R) (y # rest) = fds_run (T' \<union> R) rest"
      using step [OF 3(5)] by blast
    have "S \<inter> (T \<union> {ev_fd y}) = {}" using 3(6) by auto
    then have "fds_run (S \<union> T) es = fds_run (S \<union> T') rest" using t(3) right(1) by (simp add: Un_commute)
    also have "\<dots> = Some (S1 \<union> T1)"
    proof (rule 3(2) [OF right(2) 3(4)])
      show "fds_run T' ys = Some T1" using t(1) 3(5) by metis
      show "(S \<union> ev_fd ` set (x # xs)) \<inter> (T' \<union> ev_fd ` set ys) = {}" using t(2) 3(6) by (simp only: list.set image_insert) blast
    qed
    finally show ?thesis .
  qed
qed

lemma append_in_shuffles: "xs @ ys \<in> shuffles xs ys"
  by (induction xs) (simp_all add: Cons_in_shuffles_leftI)

end
