(* ===== verification/Perf.thy ===== *)
theory Perf
  imports Go_Prelude Fds "HOL-Library.Word"
begin

text \<open>
  Perf counters (pkg/perf/perf_linux.go, cache_linux.go). A counter is a file descriptor of the kernel: it is opened, reset, enabled,
  disabled, read and closed.

  The kernel's answers are an argument (\<open>perf_kernel\<close>). Every operation that succeeds in opening, and every call on a descriptor, is
  recorded as an event, so that the discipline of descriptors is a property of the events (\<open>perf_fds\<close>).
\<close>

unbundle bit_operations_syntax

section \<open>Model: the kernel's side\<close>

record perf_attr =
  pa_Type :: "32 word"
  pa_Config :: "64 word"

datatype ioc = IocReset | IocEnable | IocDisable

text \<open>\<open>pk_open attr pid cpu\<close> is \<^verbatim>\<open>perf_event_open\<close> with no group and no flags.\<close>

record perf_kernel =
  pk_open :: "perf_attr \<Rightarrow> int \<Rightarrow> int \<Rightarrow> string + int"
  pk_ioctl :: "int \<Rightarrow> ioc \<Rightarrow> string option"
  pk_read :: "int \<Rightarrow> string + 8 word list"
  pk_close :: "int \<Rightarrow> string option"

text \<open>\<open>Paused\<close> is the time in nanoseconds for which the caller sleeps.\<close>

datatype perf_ev =
    PerfOpened perf_attr int int int
  | PerfIoctl int ioc
  | PerfRead int
  | PerfClosed int
  | Paused int

section \<open>Model: perf\_linux.go, cache\_linux.go\<close>

record Counter =
  ct_fd :: int

definition perfTypeHWCache :: "32 word" where
  "perfTypeHWCache = 3"

definition hwCacheLL :: "64 word" where
  "hwCacheLL = 2"

definition hwCacheOpRead :: "64 word" where
  "hwCacheOpRead = 0"

definition hwCacheResultAccess :: "64 word" where
  "hwCacheResultAccess = 1"

definition hwCacheResultMiss :: "64 word" where
  "hwCacheResultMiss = 2"

definition hwCacheConfig :: "64 word \<Rightarrow> 64 word \<Rightarrow> 64 word \<Rightarrow> 64 word" where
  "hwCacheConfig cacheID opID resultID = cacheID OR push_bit 8 opID OR push_bit 16 resultID"

definition openHWCache :: "perf_kernel \<Rightarrow> int \<Rightarrow> int \<Rightarrow> 64 word \<Rightarrow> (string + Counter) \<times> perf_ev list" where
  "openHWCache k pid cpu config =
     (let attr = \<lparr>pa_Type = perfTypeHWCache, pa_Config = config\<rparr> in
      case pk_open k attr pid cpu of
        Inl e \<Rightarrow> (Inl (''perf_event_open hw_cache: '' @ e), [])
      | Inr fd \<Rightarrow> (Inr \<lparr>ct_fd = fd\<rparr>, [PerfOpened attr pid cpu fd]))"

definition OpenLLCLastLevelMiss :: "perf_kernel \<Rightarrow> int \<Rightarrow> int \<Rightarrow> (string + Counter) \<times> perf_ev list" where
  "OpenLLCLastLevelMiss k pid cpu = openHWCache k pid cpu (hwCacheConfig hwCacheLL hwCacheOpRead hwCacheResultMiss)"

definition OpenLLCLastLevelAccess :: "perf_kernel \<Rightarrow> int \<Rightarrow> int \<Rightarrow> (string + Counter) \<times> perf_ev list" where
  "OpenLLCLastLevelAccess k pid cpu = openHWCache k pid cpu (hwCacheConfig hwCacheLL hwCacheOpRead hwCacheResultAccess)"

text \<open>\<open>hw\<close> is the type number for hardware counters of golang.org/x/sys/unix; the kind is the configuration.\<close>

definition perf_Open :: "perf_kernel \<Rightarrow> 32 word \<Rightarrow> 64 word \<Rightarrow> int \<Rightarrow> int \<Rightarrow> (string + Counter) \<times> perf_ev list" where
  "perf_Open k hw kind pid cpu =
     (let attr = \<lparr>pa_Type = hw, pa_Config = kind\<rparr> in
      case pk_open k attr pid cpu of
        Inl e \<Rightarrow> (Inl (''perf_event_open: '' @ e), [])
      | Inr fd \<Rightarrow> (Inr \<lparr>ct_fd = fd\<rparr>, [PerfOpened attr pid cpu fd]))"

definition counter_ioctl :: "perf_kernel \<Rightarrow> ioc \<Rightarrow> Counter \<Rightarrow> string option \<times> perf_ev list" where
  "counter_ioctl k req c = (pk_ioctl k (ct_fd c) req, [PerfIoctl (ct_fd c) req])"

definition Counter_Reset :: "perf_kernel \<Rightarrow> Counter \<Rightarrow> string option \<times> perf_ev list" where
  "Counter_Reset k c = counter_ioctl k IocReset c"

definition Counter_Enable :: "perf_kernel \<Rightarrow> Counter \<Rightarrow> string option \<times> perf_ev list" where
  "Counter_Enable k c = counter_ioctl k IocEnable c"

definition Counter_Disable :: "perf_kernel \<Rightarrow> Counter \<Rightarrow> string option \<times> perf_ev list" where
  "Counter_Disable k c = counter_ioctl k IocDisable c"

text \<open>A read of the counter: eight bytes, least significant first on the supported machines. An error comes with the value 0.\<close>

definition ReadUint64 :: "perf_kernel \<Rightarrow> Counter \<Rightarrow> (64 word \<times> string option) \<times> perf_ev list" where
  "ReadUint64 k c =
     ((case pk_read k (ct_fd c) of
         Inl e \<Rightarrow> (0, Some e)
       | Inr bs \<Rightarrow>
           if length bs \<noteq> 8 then (0, Some (''perf read: got '' @ itoa (int (length bs)) @ '' bytes''))
           else (foldr (\<lambda>b acc. ucast b OR push_bit 8 acc) bs 0, None)),
      [PerfRead (ct_fd c)])"

definition Counter_FD :: "Counter \<Rightarrow> int" where
  "Counter_FD c = ct_fd c"

definition Counter_Close :: "perf_kernel \<Rightarrow> Counter \<Rightarrow> string option \<times> perf_ev list" where
  "Counter_Close k c = (pk_close k (ct_fd c), [PerfClosed (ct_fd c)])"

section \<open>The discipline of descriptors\<close>

text \<open>What the calls do to descriptors.\<close>

fun perf_fd :: "perf_ev \<Rightarrow> fd_ev list" where
  "perf_fd (PerfOpened _ _ _ fd) = [FdOpen fd]"
| "perf_fd (PerfIoctl fd _) = [FdUse fd]"
| "perf_fd (PerfRead fd) = [FdUse fd]"
| "perf_fd (PerfClosed fd) = [FdClose fd]"
| "perf_fd (Paused _) = []"

definition perf_fds :: "perf_ev list \<Rightarrow> fd_ev list" where
  "perf_fds es = concat (map perf_fd es)"

lemma perf_fds_simps [simp]:
  "perf_fds [] = []" "perf_fds (e # es) = perf_fd e @ perf_fds es" "perf_fds (es @ fs) = perf_fds es @ perf_fds fs"
  by (simp_all add: perf_fds_def)

text \<open>A descriptor handed out for one configuration is not handed out for another one that is opened beside it.\<close>

definition fresh_fds :: "perf_kernel \<Rightarrow> bool" where
  "fresh_fds k \<longleftrightarrow>
     (\<forall>a b pid cpu fd. pk_open k a pid cpu = Inr fd \<longrightarrow> pk_open k b pid cpu = Inr fd \<longrightarrow> a = b)"

text \<open>The configuration words handed to the kernel for the two last-level cache counters.\<close>

lemma llc_configs: "hwCacheConfig hwCacheLL hwCacheOpRead hwCacheResultAccess = 0x10002"
  "hwCacheConfig hwCacheLL hwCacheOpRead hwCacheResultMiss = 0x20002"
  by (simp_all add: hwCacheConfig_def hwCacheLL_def hwCacheOpRead_def hwCacheResultAccess_def hwCacheResultMiss_def)

lemmas perf_ops = OpenLLCLastLevelMiss_def OpenLLCLastLevelAccess_def openHWCache_def perfTypeHWCache_def llc_configs Counter_Reset_def Counter_Enable_def
  Counter_Disable_def counter_ioctl_def Counter_Close_def

text \<open>The value of a counter is the little-endian number of its eight bytes.\<close>

lemma bytes_value:
  "length bs \<le> 8 \<Longrightarrow>
     uint (foldr (\<lambda>b acc. ucast b OR push_bit 8 acc) bs (0 :: 64 word)) = foldr (\<lambda>b acc. uint (b :: 8 word) + 256 * acc) bs 0 \<and>
     foldr (\<lambda>b acc. uint (b :: 8 word) + 256 * acc) bs 0 < 256 ^ length bs"
proof (induction bs)
  case (Cons b bs)
  let ?v = "foldr (\<lambda>b acc. ucast b OR push_bit 8 acc) bs (0 :: 64 word)"
  let ?n = "foldr (\<lambda>b acc. uint (b :: 8 word) + 256 * acc) bs 0"
  have n: "uint ?v = ?n" "?n < 256 ^ length bs" and len: "length bs \<le> 7" using Cons by auto
  have pow: "(256 :: int) ^ length bs \<le> 256 ^ 7" using len by (intro power_increasing) auto
  have b: "0 \<le> uint b" "uint b < 256" using uint_lt2p [of b] by simp_all
  have n0: "0 \<le> ?n" using n(1) uint_ge_0 [of ?v] by linarith
  have dis: "(ucast b :: 64 word) AND push_bit 8 ?v = 0"
    by (rule bit_eqI) (auto simp: bit_simps dest: bit_imp_le_length)
  then have "ucast b OR push_bit 8 ?v = ucast b + push_bit 8 ?v" by (simp add: disjunctive_add_eq_or)
  moreover have "uint (push_bit 8 ?v) = 256 * ?n"
    using n n0 pow by (simp add: push_bit_eq_mult uint_word_ariths take_bit_eq_mod)
  moreover have "uint (ucast b :: 64 word) = uint b" using b by (simp add: unsigned_ucast_eq take_bit_eq_mod)
  moreover have "uint b + 256 * ?n < 256 * 256 ^ length bs" using b n(2) by linarith
  moreover have "(256 :: int) * 256 ^ length bs \<le> 2 ^ 64" using pow by simp
  ultimately show ?case using b n0 by (simp add: uint_word_ariths)
qed simp

text \<open>What a read of a descriptor means: its eight bytes as a number, 0 when the read fails or is short.\<close>

definition read_value :: "perf_kernel \<Rightarrow> int \<Rightarrow> int" where
  "read_value k fd =
     (case pk_read k fd of
        Inl _ \<Rightarrow> 0
      | Inr bs \<Rightarrow> if length bs = 8 then foldr (\<lambda>b acc. uint b + 256 * acc) bs 0 else 0)"

lemma ReadUint64_value: "uint (fst (fst (ReadUint64 k c))) = read_value k (ct_fd c)"
  by (auto simp: ReadUint64_def read_value_def bytes_value split: sum.splits)

lemma ReadUint64_event: "snd (ReadUint64 k c) = [PerfRead (ct_fd c)]"
  by (simp add: ReadUint64_def)

end
