(* ===== verification/Systems.thy ===== *)
theory Systems
  imports Main
begin

text \<open>
  Transition systems, for the two components whose steps interleave (the Plasma coordinator and the daemon): invariants, and
  simulation of an abstract system. Each locale is interpreted on the steps of both.
\<close>

section \<open>Invariants\<close>

locale invariant_system =
  fixes step :: "'c \<Rightarrow> 'c \<Rightarrow> bool" and inv :: "'c \<Rightarrow> bool"
  assumes keep: "step s s' \<Longrightarrow> inv s \<Longrightarrow> inv s'"
begin

lemma run_inv: "step\<^sup>*\<^sup>* s s' \<Longrightarrow> inv s \<Longrightarrow> inv s'"
  by (induction rule: rtranclp_induct) (auto intro: keep)

end

section \<open>Simulation\<close>

text \<open>
  Under its invariant every concrete step is a step of the abstract system or changes nothing there. Every concrete run then is an
  abstract run, and what the abstract system keeps holds of the concrete one.
\<close>

locale simulation = invariant_system step inv for step :: "'c \<Rightarrow> 'c \<Rightarrow> bool" and inv :: "'c \<Rightarrow> bool" +
  fixes astep :: "'a \<Rightarrow> 'a \<Rightarrow> bool" and abs :: "'c \<Rightarrow> 'a"
  assumes sim: "step s s' \<Longrightarrow> inv s \<Longrightarrow> astep\<^sup>=\<^sup>= (abs s) (abs s')"
begin

lemma run_sim: "step\<^sup>*\<^sup>* s s' \<Longrightarrow> inv s \<Longrightarrow> astep\<^sup>*\<^sup>* (abs s) (abs s')"
proof (induction rule: rtranclp_induct)
  case (step t u)
  with sim [OF step(2)] run_inv [OF step(1)] show ?case by (auto intro: rtranclp.rtrancl_into_rtrancl)
qed simp

lemma transfer:
  assumes "step\<^sup>*\<^sup>* s s'" and "inv s" and "P (abs s)" and "\<And>a a'. P a \<Longrightarrow> astep a a' \<Longrightarrow> P a'"
  shows "P (abs s')"
  using run_sim [OF assms(1,2)] assms(3,4) by (induction rule: rtranclp_induct) blast+

end

end
