(* ===== verification/Plasma_Spec.thy ===== *)
theory Plasma_Spec
  imports Plasma_Coordinator Perf Systems
begin

text \<open>
  What the Plasma coordinator promises: an abstract scheduler that only knows which vertices are submitted,
  completed and running, and the refinement of it by the coordinator with all its goroutines. The
  last section composes the coordinator with the perf package.
\<close>

section \<open>The abstract scheduler\<close>

record sched =
  sp_nodes :: "Node list"
  sp_completed :: "string set"
  sp_running :: "string option"
  sp_failed :: bool

text \<open>
  Submitting a branch keeps the graph sound; only a vertex whose dependencies are completed is launched,
  never a completed one and never while another runs; a failure is final.
\<close>

inductive spec_step :: "sched \<Rightarrow> sched \<Rightarrow> bool" where
  submit: "add \<noteq> [] \<Longrightarrow> good_graph (sp_nodes a @ add) \<Longrightarrow> \<forall>n \<in> set add. Cmd n \<noteq> [] \<Longrightarrow>
    spec_step a (a\<lparr>sp_nodes := sp_nodes a @ add\<rparr>)"
| launch: "sp_running a = None \<Longrightarrow> \<not> sp_failed a \<Longrightarrow> n \<in> set (sp_nodes a) \<Longrightarrow> nd_ID n \<notin> sp_completed a \<Longrightarrow>
    set (DependsOn n) \<subseteq> sp_completed a \<Longrightarrow> spec_step a (a\<lparr>sp_running := Some (nd_ID n)\<rparr>)"
| complete: "sp_running a = Some i \<Longrightarrow> \<not> sp_failed a \<Longrightarrow>
    spec_step a (a\<lparr>sp_running := None, sp_completed := insert i (sp_completed a)\<rparr>)"
| fail: "sp_running a = Some i \<Longrightarrow> spec_step a (a\<lparr>sp_running := None, sp_failed := True\<rparr>)"

section \<open>Refinement\<close>

fun running_of :: "pc \<Rightarrow> string option" where
  "running_of (PcExec n) = Some (nd_ID n)"
| "running_of (PcChild n _) = Some (nd_ID n)"
| "running_of (PcRan n) = Some (nd_ID n)"
| "running_of (PcFinish n _) = Some (nd_ID n)"
| "running_of _ = None"

fun node_failure :: "pc \<Rightarrow> bool" where
  "node_failure (PcDone (Some (CtxErr _))) = False"
| "node_failure (PcDone (Some _)) = True"
| "node_failure _ = False"

definition sched_abs :: "coordinator \<Rightarrow> sched" where
  "sched_abs s = \<lparr>sp_nodes = c_nodes s, sp_completed = c_completed s, sp_running = running_of (c_pc s),
     sp_failed = node_failure (c_pc s)\<rparr>"

text \<open>A context error never reaches the end of a vertex.\<close>

definition finish_inv :: "coordinator \<Rightarrow> bool" where
  "finish_inv s \<longleftrightarrow> (\<forall>n e. c_pc s \<noteq> PcFinish n (Some (CtxErr e)))"

definition sim_inv :: "coord_cfg \<Rightarrow> coordinator \<Rightarrow> bool" where
  "sim_inv cfg s \<longleftrightarrow> coord_inv cfg s \<and> finish_inv s"

lemma sched_abs_same:
  "c_nodes s' = c_nodes s \<Longrightarrow> c_completed s' = c_completed s \<Longrightarrow> running_of (c_pc s') = running_of (c_pc s) \<Longrightarrow>
     node_failure (c_pc s') = node_failure (c_pc s) \<Longrightarrow> sched_abs s' = sched_abs s"
  by (simp add: sched_abs_def)

lemma loop_mark_sim:
  assumes "coord_inv cfg s" and "c_pc s = PcMark n"
  shows "spec_step (sched_abs s) (sched_abs (loop_mark n s))"
proof -
  have "n \<in> set (c_nodes s)" "runnable (c_completed s) {} n"
    using assms by (auto simp: coord_inv_def sched_inv_def)
  then have "spec_step (sched_abs s) ((sched_abs s)\<lparr>sp_running := Some (nd_ID n)\<rparr>)"
    using assms(2) by (intro spec_step.launch) (auto simp: sched_abs_def runnable_def list_all_iff)
  moreover have "sched_abs (loop_mark n s) = (sched_abs s)\<lparr>sp_running := Some (nd_ID n)\<rparr>"
    using assms(2) by (simp add: sched_abs_def loop_mark_def)
  ultimately show ?thesis by simp
qed

lemma loop_finish_sim:
  assumes "finish_inv s" and "c_pc s = PcFinish n err"
  shows "spec_step (sched_abs s) (sched_abs (loop_finish n err s))"
proof (cases err)
  case None
  then have "sched_abs (loop_finish n err s) =
      (sched_abs s)\<lparr>sp_running := None, sp_completed := insert (nd_ID n) (sp_completed (sched_abs s))\<rparr>"
    using assms(2) by (simp add: sched_abs_def loop_finish_def)
  then show ?thesis using assms(2) spec_step.complete [of "sched_abs s" "nd_ID n"] by (simp add: sched_abs_def)
next
  case (Some e)
  with assms have "node_failure (PcDone (Some e))" by (cases e) (auto simp: finish_inv_def)
  then have "sched_abs (loop_finish n err s) = (sched_abs s)\<lparr>sp_running := None, sp_failed := True\<rparr>"
    using assms(2) Some by (simp add: sched_abs_def loop_finish_def)
  then show ?thesis using assms(2) spec_step.fail [of "sched_abs s" "nd_ID n"] by (simp add: sched_abs_def)
qed

lemma loop_step_sim:
  "loop_step cfg s s' \<Longrightarrow> sim_inv cfg s \<Longrightarrow> spec_step\<^sup>=\<^sup>= (sched_abs s) (sched_abs s')"
proof (induction rule: loop_step.induct)
  case (mark s n)
  then show ?case using loop_mark_sim by (auto simp: sim_inv_def)
next
  case (finish s n err)
  then show ?case using loop_finish_sim by (auto simp: sim_inv_def)
qed (auto simp: sched_abs_def loop_pick_def loop_exec_def loop_quiesce_def loop_timer_def bumpActivity_def signalWake_def
       Let_def split: option.splits sum.splits)

lemma branch_sim:
  assumes "visit_order visit (c_nodes s @ add)" and "AppendDAG visit (c_nodes s) add = Inr merged"
  shows "spec_step\<^sup>=\<^sup>= (sched_abs s) (sched_abs (s\<lparr>c_nodes := merged, c_idleAnnounced := False\<rparr>))"
proof -
  note ok = AppendDAG_ok [OF assms]
  have eq: "sched_abs (s\<lparr>c_nodes := merged, c_idleAnnounced := False\<rparr>) =
      (sched_abs s)\<lparr>sp_nodes := sp_nodes (sched_abs s) @ add\<rparr>" using ok(1) by (simp add: sched_abs_def)
  show ?thesis
  proof (cases "add = []")
    case False
    then have "spec_step (sched_abs s) ((sched_abs s)\<lparr>sp_nodes := sp_nodes (sched_abs s) @ add\<rparr>)"
      using ok by (intro spec_step.submit) (simp_all add: sched_abs_def)
    then show ?thesis unfolding eq by blast
  qed (simp add: eq)
qed

lemma conn_step_sim: "conn_step cfg c s s' \<Longrightarrow> spec_step\<^sup>=\<^sup>= (sched_abs s) (sched_abs s')"
proof (induction rule: conn_step.induct)
  case (frame s body visit os s' acts)
  from frame(3) show ?case
  proof (cases rule: handle_frame_cases)
    case (branch m merged)
    with branch_sim [OF _ branch(2)] frame(2) show ?thesis by (simp add: sched_abs_def)
  qed (simp_all add: sched_abs_def)
qed (simp_all add: sched_abs_def bumpActivity_def signalWake_def)

lemma loop_step_finish: "loop_step cfg s s' \<Longrightarrow> finish_inv s \<Longrightarrow> finish_inv s'"
  by (induction rule: loop_step.induct)
    (auto simp: finish_inv_def loop_pick_def loop_mark_def loop_exec_def loop_finish_def loop_quiesce_def loop_timer_def
       execNode_def bumpActivity_def signalWake_def Let_def split: option.splits sum.splits)

lemma conn_step_pc: "conn_step cfg c s s' \<Longrightarrow> c_pc s' = c_pc s"
proof (induction rule: conn_step.induct)
  case (frame s body visit os s' acts)
  from frame(3) show ?case by (cases rule: handle_frame_cases) auto
qed (simp_all add: bumpActivity_def signalWake_def)

lemma cstep_sim:
  assumes "cstep cfg s s'" and "sim_inv cfg s"
  shows "spec_step\<^sup>=\<^sup>= (sched_abs s) (sched_abs s') \<and> sim_inv cfg s'"
  using assms(1)
proof cases
  case loop
  then show ?thesis using assms loop_step_sim loop_step_finish loop_step_inv by (auto simp: sim_inv_def)
next
  case (conn c)
  then show ?thesis using assms conn_step_sim conn_step_inv conn_step_pc [OF conn] by (auto simp: sim_inv_def finish_inv_def)
next
  case (tick d)
  then show ?thesis using assms by (auto simp: sim_inv_def sched_abs_def finish_inv_def coord_inv_def)
qed

section \<open>The coordinator simulates the scheduler\<close>

interpretation coord: simulation "cstep cfg" "sim_inv cfg" spec_step sched_abs for cfg
  by unfold_locales (use cstep_sim in blast)+

text \<open>What the abstract scheduler guarantees.\<close>

definition spec_inv :: "sched \<Rightarrow> bool" where
  "spec_inv a \<longleftrightarrow>
     (\<forall>i. sp_running a = Some i \<longrightarrow> i \<notin> sp_completed a \<and> i \<in> node_ids (sp_nodes a)) \<and>
     sp_completed a \<subseteq> node_ids (sp_nodes a) \<and> distinct (map nd_ID (sp_nodes a)) \<and>
     (\<forall>n \<in> set (sp_nodes a). nd_ID n \<in> sp_completed a \<or> sp_running a = Some (nd_ID n) \<longrightarrow>
        set (DependsOn n) \<subseteq> sp_completed a)"

lemma same_id: "distinct (map nd_ID ns) \<Longrightarrow> n \<in> set ns \<Longrightarrow> m \<in> set ns \<Longrightarrow> nd_ID n = nd_ID m \<Longrightarrow> n = m"
  by (auto simp: distinct_map inj_on_def)

lemma spec_step_inv:
  assumes "spec_inv a" and "spec_step a a'"
  shows "spec_inv a'"
  using assms(2,1)
proof (induction rule: spec_step.induct)
  case (submit add a)
  have "distinct (map nd_ID (sp_nodes a @ add))" using submit(2) by (simp add: good_graph_def)
  then have "nd_ID n \<notin> node_ids (sp_nodes a)" if "n \<in> set add" for n using that by (auto simp: node_ids_def)
  then show ?case using submit(2,4) unfolding spec_inv_def good_graph_def by (auto simp: node_ids_def)
next
  case (launch a n)
  from launch(6) have "\<forall>m \<in> set (sp_nodes a). nd_ID m = nd_ID n \<longrightarrow> m = n"
    using same_id [OF _ _ launch(3)] by (auto simp: spec_inv_def)
  with launch show ?case by (auto simp: spec_inv_def node_ids_def)
qed (auto simp: spec_inv_def)

definition sched_init :: "Node list \<Rightarrow> sched" where
  "sched_init nodes = \<lparr>sp_nodes = nodes, sp_completed = {}, sp_running = None, sp_failed = False\<rparr>"

lemma coord_reach_run: "coord_reach cfg nodes s \<Longrightarrow> \<exists>now. (cstep cfg)\<^sup>*\<^sup>* (coord_init nodes now) s"
  by (induction rule: coord_reach.induct) (auto intro: rtranclp.rtrancl_into_rtrancl)

lemma coord_init_abs [simp]: "sched_abs (coord_init nodes now) = sched_init nodes"
  by (simp add: sched_abs_def sched_init_def coord_init_def bumpActivity_def)

text \<open>
  C8. The coordinator refines the abstract scheduler: whatever the clients send and however loop, handlers
  and clock interleave, what it does to its graph, its completed set and its running vertex is a
  run of the abstract scheduler; hence a vertex that is running or completed has all its
  dependencies completed, and a running vertex is a known one that is not completed.
\<close>

theorem coordinator_refines_scheduler:
  assumes "coord_reach cfg nodes s" and "distinct (map nd_ID nodes)" and "deps_closed nodes"
  shows "spec_step\<^sup>*\<^sup>* (sched_init nodes) (sched_abs s) \<and> spec_inv (sched_abs s)"
proof -
  obtain now where run: "(cstep cfg)\<^sup>*\<^sup>* (coord_init nodes now) s" using coord_reach_run [OF assms(1)] by blast
  have i: "sim_inv cfg (coord_init nodes now)"
    using coord_init_inv [OF assms(2,3)] by (simp add: sim_inv_def finish_inv_def coord_init_def bumpActivity_def)
  have "spec_inv (sched_abs (coord_init nodes now))" using assms(2) by (simp add: spec_inv_def sched_init_def)
  from coord.transfer [where P = spec_inv, OF run i this spec_step_inv] coord.run_sim [OF run i] show ?thesis by simp
qed

theorem coordinator_refines_scheduler_witness:
  "spec_step\<^sup>*\<^sup>* (sched_init (pl_Nodes one_node)) (sched_abs ((loop_next demo_cfg ^^ 5) demo_start))"
proof -
  have "distinct (map nd_ID (pl_Nodes one_node))" "deps_closed (pl_Nodes one_node)" by code_simp+
  from coordinator_refines_scheduler [OF demo_reach [of 5] this] show ?thesis by blast
qed

section \<open>Perf counters for clients\<close>

text \<open>
  The call \<^verbatim>\<open>perf.Open(kind, -1, -1)\<close> of the descriptor handler, with the kernel's numbers for the two counters:
  \<open>None\<close> when it succeeds.
\<close>

definition open_perf :: "perf_kernel \<Rightarrow> 32 word \<Rightarrow> string \<Rightarrow> string option" where
  "open_perf k hw kind =
     (case fst (perf_Open k hw (if kind = ''perf_cycles'' then 0 else 1) (-1) (-1)) of Inl e \<Rightarrow> Some e | Inr _ \<Rightarrow> None)"

text \<open>
  A client can never get a perf counter from the coordinator. The handler opens the counters with process -1
  and CPU -1, a combination for which \<^verbatim>\<open>perf_event_open\<close> is documented to return an error; so every
  such request is answered with an error, whatever the counter and the state.
\<close>

theorem perf_requests_fail:
  assumes "\<forall>attr. \<exists>e. pk_open k attr (-1) (-1) = Inl e" and "os_perf os = open_perf k hw"
    and "mr_Kind m \<in> {''perf_cycles'', ''perf_instructions''}"
  shows "\<exists>e. handleRequestFD cfg os m = [AReply (ErrEnvelope ''error'' (OSError (''perf_event_open: '' @ e)))]"
proof -
  have "\<exists>e. open_perf k hw kind = Some (''perf_event_open: '' @ e)" for kind
    using assms(1) [rule_format, of "\<lparr>pa_Type = hw, pa_Config = (if kind = ''perf_cycles'' then 0 else 1)\<rparr>"]
    by (auto simp: open_perf_def perf_Open_def)
  then obtain e where "open_perf k hw (mr_Kind m) = Some (''perf_event_open: '' @ e)" by blast
  then have "handleRequestFD cfg os m = [AReply (ErrEnvelope ''error'' (OSError (''perf_event_open: '' @ e)))]"
    using assms(2,3) by (auto simp: handleRequestFD_def fd_perf_reply_def)
  then show ?thesis by blast
qed

definition kernel_perf :: perf_kernel where
  "kernel_perf = \<lparr>pk_open = (\<lambda>attr pid cpu. if pid = -1 \<and> cpu = -1 then Inl ''invalid argument'' else Inr (10 + uint (pa_Config attr))),
     pk_ioctl = (\<lambda>_ _. None), pk_read = (\<lambda>_. Inr [5, 1, 0, 0, 0, 0, 0, 0]), pk_close = (\<lambda>_. None)\<rparr>"

theorem perf_requests_fail_witness:
  "\<exists>e. handleRequestFD demo_cfg (fd_fails\<lparr>os_perf := open_perf kernel_perf 0\<rparr>) \<lparr>mr_Op = ''request_fd'', mr_Kind = ''perf_cycles''\<rparr> =
     [AReply (ErrEnvelope ''error'' (OSError (''perf_event_open: '' @ e)))]"
  by (rule perf_requests_fail [of kernel_perf _ 0]) (simp_all add: kernel_perf_def)

end
