(* ===== verification/Hints.thy ===== *)
theory Hints
  imports Topology
begin

text \<open>
  Hints for cluster schedulers (pkg/topology/hints.go): the summary \<^verbatim>\<open>BuildClusterHints\<close> derives from a
  snapshot, its renderings for shells, Slurm, Open MPI and CI logs, and \<^verbatim>\<open>shellQuote\<close>.

  Strings are UTF-8 bytes, so the dash of the comment lines is written out as three of them.
\<close>

section \<open>Model: the summary\<close>

record SocketSummary =
  ss_PackageID :: int
  ss_LogicalCPUs :: nat
  ss_PhysicalCores :: nat
  ss_CPUList :: string

record NUMASummary =
  ns_NodeID :: int
  ns_LogicalCPUs :: nat
  ns_CPUList :: string

record ClusterHints =
  SourceUsed :: string
  LogicalCPUs :: nat
  PhysicalCoresTotal :: nat
  SocketCount :: nat
  NUMANodeCount :: nat
  Sockets :: "SocketSummary list"
  NUMANodes :: "NUMASummary list"
  MaxLogicalPerSocket :: nat
  MaxLogicalPerNUMANode :: nat
  MinLogicalPerNUMANode :: nat
  SuggestedCPUsPerTaskSocketLocal :: nat
  FirstSocketCPUList :: string
  MakefileJWholeNodeLogical :: nat
  MakefileJPerSocketCore :: "nat list"

definition empty_hints :: "string \<Rightarrow> ClusterHints" where
  "empty_hints src = \<lparr>SourceUsed = src, LogicalCPUs = 0, PhysicalCoresTotal = 0, SocketCount = 0,
     NUMANodeCount = 0, Sockets = [], NUMANodes = [], MaxLogicalPerSocket = 0, MaxLogicalPerNUMANode = 0,
     MinLogicalPerNUMANode = 0, SuggestedCPUsPerTaskSocketLocal = 0, FirstSocketCPUList = [],
     MakefileJWholeNodeLogical = 0, MakefileJPerSocketCore = []\<rparr>"

text \<open>The keys of \<^verbatim>\<open>coreSeen\<close>, and for a package its logical CPUs and the number of its cores.\<close>

definition core_keys :: "Topology \<Rightarrow> (int \<times> int) list" where
  "core_keys t = uniq_loop {} (map (\<lambda>c. (PackageID c, CoreID c)) (topo_CPUs t))"

definition pkg_cpus :: "Topology \<Rightarrow> int \<Rightarrow> int list" where
  "pkg_cpus t pkg = map cpu_ID (filter (\<lambda>c. PackageID c = pkg) (topo_CPUs t))"

definition pkg_phy :: "Topology \<Rightarrow> int \<Rightarrow> nat" where
  "pkg_phy t pkg = length (filter (\<lambda>k. fst k = pkg) (core_keys t))"

definition socket_summary :: "Topology \<Rightarrow> int \<Rightarrow> SocketSummary" where
  "socket_summary t pkg =
     (let cpus = sort (pkg_cpus t pkg) in
      \<lparr>ss_PackageID = pkg, ss_LogicalCPUs = length cpus, ss_PhysicalCores = pkg_phy t pkg,
       ss_CPUList = FormatCPUList cpus\<rparr>)"

fun max_logical :: "nat \<Rightarrow> SocketSummary list \<Rightarrow> nat" where
  "max_logical m [] = m"
| "max_logical m (s # ss) = max_logical (if ss_LogicalCPUs s > m then ss_LogicalCPUs s else m) ss"

definition numa_summary :: "NUMANode \<Rightarrow> NUMASummary" where
  "numa_summary n =
     (let cp = sort (node_CPUs n) in
      \<lparr>ns_NodeID = node_ID n, ns_LogicalCPUs = length cp, ns_CPUList = FormatCPUList cp\<rparr>)"

text \<open>The loop over the nodes: \<^verbatim>\<open>(minNuma, maxNuma)\<close>.\<close>

fun numa_range :: "bool \<Rightarrow> nat \<Rightarrow> nat \<Rightarrow> NUMASummary list \<Rightarrow> nat \<times> nat" where
  "numa_range first lo hi [] = (lo, hi)"
| "numa_range first lo hi (n # ns) =
     (let k = ns_LogicalCPUs n in
      numa_range False (if first \<or> k < lo then k else lo) (if first \<or> k > hi then k else hi) ns)"

definition BuildClusterHints :: "Topology option \<Rightarrow> string \<Rightarrow> ClusterHints" where
  "BuildClusterHints topo src =
     (case topo of
        None \<Rightarrow> empty_hints src
      | Some t \<Rightarrow>
          (let logical = length (topo_CPUs t);
               sockets = map (socket_summary t) (PackageIDs t);
               maxSocket = max_logical 0 sockets;
               numa = map numa_summary (topo_NUMANodes t);
               (lo, hi) = numa_range True 0 0 numa in
           \<lparr>SourceUsed = src, LogicalCPUs = logical, PhysicalCoresTotal = length (core_keys t),
            SocketCount = length (PackageIDs t), NUMANodeCount = length (topo_NUMANodes t),
            Sockets = sockets, NUMANodes = numa, MaxLogicalPerSocket = maxSocket,
            MaxLogicalPerNUMANode = (if numa = [] then logical else hi),
            MinLogicalPerNUMANode = (if numa = [] then logical else lo),
            SuggestedCPUsPerTaskSocketLocal = (if maxSocket = 0 then logical else maxSocket),
            FirstSocketCPUList = (case sockets of [] \<Rightarrow> [] | s # _ \<Rightarrow> ss_CPUList s),
            MakefileJWholeNodeLogical = logical, MakefileJPerSocketCore = map ss_PhysicalCores sockets\<rparr>))"

section \<open>Model: the renderings\<close>

text \<open>\<open>json\<close> is \<^verbatim>\<open>json.MarshalIndent\<close> at this type, with two blanks.\<close>

definition FormatHintsJSON :: "(ClusterHints \<Rightarrow> string + string) \<Rightarrow> ClusterHints option \<Rightarrow> string + string" where
  "FormatHintsJSON json ho = json (case ho of None \<Rightarrow> empty_hints [] | Some h \<Rightarrow> h)"

definition line_end :: string where
  "line_end = [CHR 0x0A]"

definition tab :: string where
  "tab = [CHR 0x09]"

definition em_dash :: string where
  "em_dash = [CHR 0xE2, CHR 0x80, CHR 0x94]"

definition squote :: char where
  "squote = CHR 0x27"

definition dquote :: char where
  "dquote = CHR 0x22"

definition shellQuote :: "string \<Rightarrow> string" where
  "shellQuote s =
     (if s = [] then [squote, squote]
      else if squote \<notin> set s then [squote] @ s @ [squote]
      else [squote] @ replace_all squote [squote, dquote, squote, dquote, squote] s @ [squote])"

text \<open>\<^verbatim>\<open>%d\<close> of a count.\<close>

definition show_nat :: "nat \<Rightarrow> string" where
  "show_nat n = itoa (int n)"

definition export_line :: "string \<Rightarrow> string \<Rightarrow> string" where
  "export_line name val = ''export '' @ name @ ''='' @ val @ line_end"

definition WriteHintsShell :: "ClusterHints option \<Rightarrow> string" where
  "WriteHintsShell ho =
     (let h = (case ho of None \<Rightarrow> empty_hints [] | Some h \<Rightarrow> h) in
      ''# NexusFlow topology hints '' @ em_dash @ '' eval: eval '' @ [dquote] @
        ''$(nexusflow topology hints --format shell)'' @ [dquote] @ line_end @
      export_line ''NEXUSFLOW_TOPOLOGY_SOURCE'' (shellQuote (SourceUsed h)) @
      export_line ''NEXUSFLOW_LOGICAL_CPUS'' (show_nat (LogicalCPUs h)) @
      export_line ''NEXUSFLOW_PHYSICAL_CORES'' (show_nat (PhysicalCoresTotal h)) @
      export_line ''NEXUSFLOW_SOCKET_COUNT'' (show_nat (SocketCount h)) @
      export_line ''NEXUSFLOW_NUMA_NODE_COUNT'' (show_nat (NUMANodeCount h)) @
      export_line ''NEXUSFLOW_MAX_LOGICAL_PER_SOCKET'' (show_nat (MaxLogicalPerSocket h)) @
      export_line ''NEXUSFLOW_MAX_LOGICAL_PER_NUMA'' (show_nat (MaxLogicalPerNUMANode h)) @
      export_line ''NEXUSFLOW_MIN_LOGICAL_PER_NUMA'' (show_nat (MinLogicalPerNUMANode h)) @
      export_line ''NEXUSFLOW_SUGGEST_CPUS_PER_TASK'' (show_nat (SuggestedCPUsPerTaskSocketLocal h)) @
      export_line ''NEXUSFLOW_MAKE_J_LOGICAL'' (show_nat (MakefileJWholeNodeLogical h)) @
      export_line ''NEXUSFLOW_FIRST_SOCKET_CPUS'' (shellQuote (FirstSocketCPUList h)) @
      export_line ''NEXUSFLOW_SRUN_EXTRA''
        (shellQuote (''--cpu-bind=sockets --cpus-per-task='' @ show_nat (SuggestedCPUsPerTaskSocketLocal h))) @
      export_line ''NEXUSFLOW_MPIRUN_HINT'' (shellQuote ''--bind-to socket --map-by socket''))"

definition socket_row :: "nat \<times> SocketSummary \<Rightarrow> string" where
  "socket_row = (\<lambda>(i, s).
     ''socket-'' @ show_nat i @ tab @ ''-j'' @ show_nat (ss_PhysicalCores s) @ tab @ ''package='' @ itoa (ss_PackageID s) @
     '' logical='' @ show_nat (ss_LogicalCPUs s) @ '' physical_cores='' @ show_nat (ss_PhysicalCores s) @
     '' cpulist='' @ ss_CPUList s @ line_end)"

definition numa_row :: "NUMASummary \<Rightarrow> string" where
  "numa_row n = ''numa-'' @ itoa (ns_NodeID n) @ tab @ ''cpus='' @ show_nat (ns_LogicalCPUs n) @ tab @
     ''CPU_LIST='' @ ns_CPUList n @ line_end"

definition FormatHintsMatrix :: "ClusterHints option \<Rightarrow> string" where
  "FormatHintsMatrix ho =
     (case ho of
        None \<Rightarrow> []
      | Some h \<Rightarrow>
          ''# NexusFlow node matrix '' @ em_dash @ '' paste into CI logs / runner docs'' @ line_end @
          ''scope'' @ tab @ ''parallelism'' @ tab @ ''note'' @ line_end @
          ''whole-node'' @ tab @ ''-j'' @ show_nat (MakefileJWholeNodeLogical h) @ tab @
            ''logical CPUs (hyperthreads included)'' @ line_end @
          concat (map socket_row (enumerate 0 (Sockets h))) @
          concat (map numa_row (NUMANodes h)))"

definition WriteHintsOpenMPI :: "ClusterHints option \<Rightarrow> string" where
  "WriteHintsOpenMPI ho =
     (let h = (case ho of None \<Rightarrow> empty_hints [] | Some h \<Rightarrow> h) in
      ''# Open MPI '' @ em_dash @ '' verify with `ompi_info`; mpirun flags are often more portable.'' @ line_end @
      export_line ''NEXUSFLOW_MPIRUN_HINT'' (shellQuote ''--bind-to socket --map-by socket'') @
      export_line ''OMPI_MCA_hwloc_base_binding_policy'' (shellQuote ''socket'') @
      export_line ''OMPI_MCA_rmaps_base_mapping_policy'' (shellQuote ''socket'') @
      export_line ''NEXUSFLOW_SUGGEST_CPUS_PER_TASK'' (show_nat (SuggestedCPUsPerTaskSocketLocal h)))"

definition WriteHintsSlurm :: "ClusterHints option \<Rightarrow> string" where
  "WriteHintsSlurm ho =
     ''# Slurm '' @ em_dash @ '' combine exports with SLURM_* set by sbatch/srun on the compute node.'' @ line_end @
     WriteHintsShell ho"

section \<open>The summary counts every CPU once\<close>

lemma numa_range_bounds:
  "numa_range first lo hi ns = (lo', hi') \<Longrightarrow> (first \<longrightarrow> ns \<noteq> []) \<Longrightarrow>
     lo' = Min ((if first then {} else {lo}) \<union> ns_LogicalCPUs ` set ns) \<and>
     hi' = Max ((if first then {} else {hi}) \<union> ns_LogicalCPUs ` set ns)"
proof (induction ns arbitrary: first lo hi)
  case (Cons n ns)
  let ?k = "ns_LogicalCPUs n"
  have min: "Min (insert (if first \<or> ?k < lo then ?k else lo) A) = Min ((if first then {} else {lo}) \<union> insert ?k A)"
    if "finite A" for A
    using that by (cases "A = {}") (auto simp: min_def)
  have max: "Max (insert (if first \<or> ?k > hi then ?k else hi) A) = Max ((if first then {} else {hi}) \<union> insert ?k A)"
    if "finite A" for A
    using that by (cases "A = {}") (auto simp: max_def)
  from Cons.prems(1) Cons.IH [of False] have
    "lo' = Min (insert (if first \<or> ?k < lo then ?k else lo) (ns_LogicalCPUs ` set ns))"
    "hi' = Max (insert (if first \<or> ?k > hi then ?k else hi) (ns_LogicalCPUs ` set ns))"
    by (simp_all add: Let_def)
  then show ?case by (simp only: list.set(2) image_insert min max finite_imageI List.finite_set)
qed simp

lemma max_logical_Max: "max_logical m ss = Max (insert m (ss_LogicalCPUs ` set ss))"
proof (induction ss arbitrary: m)
  case (Cons s ss)
  have "Max (insert (if x > m then x else m) A) = Max (insert m (insert x A))" if "finite A" for A and x :: nat
    using that by (cases "A = {}") (auto simp: max_def)
  with Cons show ?case by simp
qed simp

lemma sum_filter_groups:
  assumes "distinct gs" and "f ` set xs \<subseteq> set gs"
  shows "sum_list (map (\<lambda>g. length (filter (\<lambda>x. f x = g) xs)) gs) = length xs"
  using assms(2)
proof (induction xs)
  case (Cons x xs)
  have one: "sum_list (map (\<lambda>g. if f x = g then 1 else 0) gs) = (1 :: nat)"
    using assms(1) Cons.prems by (auto simp: sum_list_map_eq_sum_count2 sum_list_distinct_conv_sum_set)
  have "sum_list (map (\<lambda>g. length (filter (\<lambda>y. f y = g) (x # xs))) gs) =
      sum_list (map (\<lambda>g. (if f x = g then 1 else 0) + length (filter (\<lambda>y. f y = g) xs)) gs)"
    by (intro arg_cong [where f = sum_list] map_cong) auto
  with one Cons show ?case by (simp add: sum_list_addf)
qed simp

lemma PackageIDs_props: "distinct (PackageIDs t)" "set (PackageIDs t) = PackageID ` set (topo_CPUs t)"
  by (simp_all add: PackageIDs_def)

lemma sum_pkg_logical: "sum_list (map ss_LogicalCPUs (map (socket_summary t) (PackageIDs t))) = length (topo_CPUs t)"
  using sum_filter_groups [of "PackageIDs t" PackageID "topo_CPUs t"] PackageIDs_props [of t]
  by (simp add: socket_summary_def pkg_cpus_def Let_def comp_def)

lemma sum_pkg_cores: "sum_list (map ss_PhysicalCores (map (socket_summary t) (PackageIDs t))) = length (core_keys t)"
proof -
  have "fst ` set (core_keys t) \<subseteq> set (PackageIDs t)"
    by (auto simp: core_keys_def PackageIDs_def)
  then show ?thesis
    using sum_filter_groups [of "PackageIDs t" fst "core_keys t"] PackageIDs_props [of t]
    by (simp add: socket_summary_def pkg_phy_def Let_def comp_def)
qed

text \<open>
  C29. The hints account for every CPU and every core exactly once: the sockets' logical CPUs add up to all
  logical CPUs, their cores to all cores, their CPU lists denote exactly the CPUs of their package,
  and the extremes reported are the true extremes over sockets and NUMA nodes.
\<close>

theorem hints_account:
  assumes "BuildClusterHints (Some t) src = h" and "valid_ids (allCPUIDs t)"
  shows "sum_list (map ss_LogicalCPUs (Sockets h)) = length (topo_CPUs t) \<and>
    sum_list (map ss_PhysicalCores (Sockets h)) = card ((\<lambda>c. (PackageID c, CoreID c)) ` set (topo_CPUs t)) \<and>
    map ss_PackageID (Sockets h) = sorted_list_of_set (PackageID ` set (topo_CPUs t)) \<and>
    (\<forall>s \<in> set (Sockets h). ParseCPUList (ss_CPUList s) =
       Some (Inr (sorted_list_of_set {cpu_ID c | c. c \<in> set (topo_CPUs t) \<and> PackageID c = ss_PackageID s}))) \<and>
    MaxLogicalPerSocket h = Max (insert 0 (ss_LogicalCPUs ` set (Sockets h))) \<and>
    (topo_NUMANodes t \<noteq> [] \<longrightarrow>
      MinLogicalPerNUMANode h = Min ((\<lambda>n. length (node_CPUs n)) ` set (topo_NUMANodes t)) \<and>
      MaxLogicalPerNUMANode h = Max ((\<lambda>n. length (node_CPUs n)) ` set (topo_NUMANodes t)))"
proof -
  let ?ss = "map (socket_summary t) (PackageIDs t)" and ?ns = "map numa_summary (topo_NUMANodes t)"
  obtain lo hi where r: "numa_range True 0 0 ?ns = (lo, hi)" by fastforce
  from assms(1) r have h: "Sockets h = ?ss" "MaxLogicalPerSocket h = max_logical 0 ?ss"
    "topo_NUMANodes t \<noteq> [] \<Longrightarrow> MinLogicalPerNUMANode h = lo \<and> MaxLogicalPerNUMANode h = hi"
    by (auto simp: BuildClusterHints_def Let_def)
  have cores: "length (core_keys t) = card ((\<lambda>c. (PackageID c, CoreID c)) ` set (topo_CPUs t))"
    unfolding core_keys_def by (subst distinct_card [symmetric]) simp_all
  have ids: "map ss_PackageID ?ss = sorted_list_of_set (PackageID ` set (topo_CPUs t))"
    by (simp add: socket_summary_def Let_def comp_def PackageIDs_def sort_uniq_loop)
  have parse: "ParseCPUList (ss_CPUList s) =
      Some (Inr (sorted_list_of_set {cpu_ID c | c. c \<in> set (topo_CPUs t) \<and> PackageID c = ss_PackageID s}))"
    if s: "s \<in> set ?ss" for s
  proof -
    obtain pkg where pkg: "s = socket_summary t pkg" using s by auto
    have "set (sort (pkg_cpus t pkg)) = {cpu_ID c | c. c \<in> set (topo_CPUs t) \<and> PackageID c = pkg}"
      by (auto simp: pkg_cpus_def)
    moreover have "valid_ids (sort (pkg_cpus t pkg))"
      using assms(2) by (auto simp: valid_ids_def allCPUIDs_def pkg_cpus_def list_all_iff)
    ultimately show ?thesis
      using format_codec.parse_print [of "sort (pkg_cpus t pkg)"] by (simp add: pkg socket_summary_def Let_def)
  qed
  have "ns_LogicalCPUs ` set ?ns = (\<lambda>n. length (node_CPUs n)) ` set (topo_NUMANodes t)"
    by (simp add: image_comp comp_def numa_summary_def Let_def)
  then have "topo_NUMANodes t \<noteq> [] \<longrightarrow>
      lo = Min ((\<lambda>n. length (node_CPUs n)) ` set (topo_NUMANodes t)) \<and>
      hi = Max ((\<lambda>n. length (node_CPUs n)) ` set (topo_NUMANodes t))"
    using numa_range_bounds [OF r] by auto
  then show ?thesis
    using h sum_pkg_logical [of t] sum_pkg_cores [of t] cores ids parse max_logical_Max [of 0 ?ss]
    by (auto simp del: map_map)
qed

theorem hints_account_witness:
  "sum_list (map ss_LogicalCPUs (Sockets (BuildClusterHints (Some two_node_machine) ''sysfs''))) =
     length (topo_CPUs two_node_machine)"
proof -
  have "valid_ids (allCPUIDs two_node_machine)" by code_simp
  from hints_account [OF refl this] show ?thesis by blast
qed

section \<open>The exports mean what they say\<close>

text \<open>
  How a POSIX shell reads a word: outside quotes only characters without a special meaning are
  allowed here, in single quotes everything is literal, in double quotes everything but the
  characters that start an expansion or end the quotes. The word ends with the line; the result is
  its value and the rest of the text.
\<close>

datatype quoting = Bare | Single | Double

definition bare_char :: "char \<Rightarrow> bool" where
  "bare_char c \<longleftrightarrow> is_digit c \<or> c = CHR ''-''"

fun sh_word :: "quoting \<Rightarrow> string \<Rightarrow> (string \<times> string) option" where
  "sh_word q [] = None"
| "sh_word Bare (c # cs) =
     (if c = CHR 0x0A then Some ([], cs)
      else if c = squote then sh_word Single cs
      else if c = dquote then sh_word Double cs
      else if bare_char c then map_option (\<lambda>(v, r). (c # v, r)) (sh_word Bare cs)
      else None)"
| "sh_word Single (c # cs) =
     (if c = squote then sh_word Bare cs else map_option (\<lambda>(v, r). (c # v, r)) (sh_word Single cs))"
| "sh_word Double (c # cs) =
     (if c = dquote then sh_word Bare cs
      else if c \<in> {CHR ''$'', CHR 0x60, CHR 0x5C} then None
      else map_option (\<lambda>(v, r). (c # v, r)) (sh_word Double cs))"

text \<open>The variables a text of comment lines and \<^verbatim>\<open>export NAME=word\<close> lines sets, in order.\<close>

definition name_char :: "char \<Rightarrow> bool" where
  "name_char c \<longleftrightarrow> (let n = (of_char c :: int) in
     65 \<le> n \<and> n \<le> 90 \<or> 97 \<le> n \<and> n \<le> 122 \<or> 48 \<le> n \<and> n \<le> 57 \<or> n = 95)"

definition sh_name :: "string \<Rightarrow> bool" where
  "sh_name n \<longleftrightarrow> n \<noteq> [] \<and> list_all name_char n"

lemma sh_word_shorter: "sh_word q s = Some (v, r) \<Longrightarrow> length r < length s"
proof (induction q s arbitrary: v rule: sh_word.induct)
  case (1 q)
  then show ?case by simp
qed (fastforce split: if_splits)+

lemma dropWhile_drop_shorter: "length (tl (dropWhile P s)) \<le> length s - 1"
  by (induction s) (auto simp: le_diff_conv)

function sh_exports :: "string \<Rightarrow> (string \<times> string) list option" where
  "sh_exports s =
     (if s = [] then Some []
      else if hd s = CHR ''#'' then sh_exports (tl (dropWhile (\<lambda>c. c \<noteq> CHR 0x0A) s))
      else if has_prefix s ''export '' then
        (let t = drop 7 s; name = takeWhile name_char t; u = dropWhile name_char t in
         if u \<noteq> [] \<and> hd u = CHR ''='' \<and> name \<noteq> [] then
           (case sh_word Bare (tl u) of
              None \<Rightarrow> None
            | Some (v, r) \<Rightarrow> map_option (\<lambda>es. (name, v) # es) (sh_exports r))
         else None)
      else None)"
  by pat_completeness auto

termination
proof (relation "measure length")
  fix s :: string
  assume "s \<noteq> []"
  then show "(tl (dropWhile (\<lambda>c. c \<noteq> CHR 0x0A) s), s) \<in> measure length"
    using dropWhile_drop_shorter [of "\<lambda>c. c \<noteq> CHR 0x0A" s] by (cases s) auto
next
  fix s t name u x v r
  assume a: "t = drop 7 s" "u = dropWhile name_char t" "sh_word Bare (tl u) = Some x" "(v, r) = x"
  then have "sh_word Bare (tl u) = Some (v, r)" by simp
  then have "length r < length (tl u)" by (rule sh_word_shorter)
  also have "\<dots> \<le> length s" using a length_dropWhile_le [of name_char "drop 7 s"] by simp
  finally show "(r, s) \<in> measure length" by simp
qed simp

declare sh_exports.simps [simp del]

text \<open>Reading back what \<^verbatim>\<open>shellQuote\<close> and \<^verbatim>\<open>%d\<close> wrote.\<close>

lemma quote_chars [simp]:
  "squote \<noteq> dquote" "dquote \<noteq> squote" "squote \<noteq> CHR 0x0A" "dquote \<noteq> CHR 0x0A"
  "squote \<noteq> CHR ''$''" "squote \<noteq> CHR 0x60" "squote \<noteq> CHR 0x5C"
  by (simp_all add: squote_def dquote_def)

lemma sh_single:
  "squote \<notin> set s \<Longrightarrow> sh_word Single (s @ squote # r) = map_option (\<lambda>(v, t). (s @ v, t)) (sh_word Bare r)"
  by (induction s; cases "sh_word Bare r") auto

lemma replace_squote_Cons:
  "replace_all squote w (c # s) = (if c = squote then w else [c]) @ replace_all squote w s"
  by (simp add: replace_all_def)

lemma sh_single_replaced:
  "sh_word Single (replace_all squote [squote, dquote, squote, dquote, squote] s @ squote # r) =
     map_option (\<lambda>(v, t). (s @ v, t)) (sh_word Bare r)"
proof (induction s)
  case Nil
  then show ?case by (cases "sh_word Bare r") (auto simp: replace_all_def)
next
  case (Cons c s)
  then show ?case
    by (cases "sh_word Bare r") (auto simp: replace_squote_Cons)
qed

lemma sh_word_shellQuote: "sh_word Bare (shellQuote s @ line_end @ r) = Some (s, r)"
proof -
  have fin: "sh_word Bare (line_end @ r) = Some ([], r)" by (simp add: line_end_def)
  show ?thesis
    using sh_single [of s "line_end @ r"] sh_single_replaced [of s "line_end @ r"] fin
    by (auto simp: shellQuote_def)
qed

lemma sh_word_digits: "(\<And>c. c \<in> set s \<Longrightarrow> bare_char c) \<Longrightarrow> sh_word Bare (s @ line_end @ r) = Some (s, r)"
proof (induction s)
  case Nil
  then show ?case by (simp add: line_end_def)
next
  case (Cons c s)
  have "bare_char c" using Cons.prems by simp
  moreover from this have "c \<noteq> CHR 0x0A" "c \<noteq> squote" "c \<noteq> dquote"
    by (auto simp: bare_char_def is_digit_def squote_def dquote_def)
  ultimately show ?case using Cons by simp
qed

lemma sh_word_show_nat: "sh_word Bare (show_nat n @ line_end @ r) = Some (show_nat n, r)"
  unfolding show_nat_def by (rule sh_word_digits) (auto simp: bare_char_def dest: itoa_nonneg_digits [rotated])

lemma sh_exports_comment:
  assumes "CHR 0x0A \<notin> set c"
  shows "sh_exports (CHR ''#'' # c @ line_end @ r) = sh_exports r"
proof -
  have "dropWhile (\<lambda>x. x \<noteq> CHR 0x0A) (c @ CHR 0x0A # r) = CHR 0x0A # r"
    using assms by (subst dropWhile_append2) auto
  then show ?thesis by (subst sh_exports.simps) (simp add: line_end_def)
qed

lemma sh_exports_line:
  assumes "sh_name name" and "sh_word Bare (val @ line_end @ r) = Some (v, r)"
  shows "sh_exports (export_line name val @ r) = map_option (\<lambda>es. (name, v) # es) (sh_exports r)"
proof -
  have eq: "\<not> name_char (CHR ''='')" by (simp add: name_char_def)
  have tw: "takeWhile name_char (name @ CHR ''='' # t) = name" "dropWhile name_char (name @ CHR ''='' # t) = CHR ''='' # t"
    for t using assms(1) eq by (simp_all add: sh_name_def list_all_iff takeWhile_append2 dropWhile_append2)
  define l where "l = export_line name val @ r"
  have l: "l \<noteq> []" "hd l \<noteq> CHR ''#''" "has_prefix l ''export ''" "drop 7 l = name @ CHR ''='' # (val @ line_end @ r)"
    by (simp_all add: l_def export_line_def has_prefix_def)
  show ?thesis
    using assms unfolding l_def [symmetric] by (subst sh_exports.simps) (simp add: sh_name_def l tw eq Let_def)
qed

lemmas sh_reads = sh_exports_line [OF _ sh_word_shellQuote] sh_exports_line [OF _ sh_word_show_nat]

lemma sh_exports_last:
  "sh_name name \<Longrightarrow> sh_exports (export_line name (shellQuote s)) = Some [(name, s)]"
  using sh_reads(1) [of name s "[]"] by (simp add: sh_exports.simps [of "[]"])

definition hint_exports :: "ClusterHints \<Rightarrow> (string \<times> string) list" where
  "hint_exports h =
     [(''NEXUSFLOW_TOPOLOGY_SOURCE'', SourceUsed h),
      (''NEXUSFLOW_LOGICAL_CPUS'', show_nat (LogicalCPUs h)),
      (''NEXUSFLOW_PHYSICAL_CORES'', show_nat (PhysicalCoresTotal h)),
      (''NEXUSFLOW_SOCKET_COUNT'', show_nat (SocketCount h)),
      (''NEXUSFLOW_NUMA_NODE_COUNT'', show_nat (NUMANodeCount h)),
      (''NEXUSFLOW_MAX_LOGICAL_PER_SOCKET'', show_nat (MaxLogicalPerSocket h)),
      (''NEXUSFLOW_MAX_LOGICAL_PER_NUMA'', show_nat (MaxLogicalPerNUMANode h)),
      (''NEXUSFLOW_MIN_LOGICAL_PER_NUMA'', show_nat (MinLogicalPerNUMANode h)),
      (''NEXUSFLOW_SUGGEST_CPUS_PER_TASK'', show_nat (SuggestedCPUsPerTaskSocketLocal h)),
      (''NEXUSFLOW_MAKE_J_LOGICAL'', show_nat (MakefileJWholeNodeLogical h)),
      (''NEXUSFLOW_FIRST_SOCKET_CPUS'', FirstSocketCPUList h),
      (''NEXUSFLOW_SRUN_EXTRA'', ''--cpu-bind=sockets --cpus-per-task='' @ show_nat (SuggestedCPUsPerTaskSocketLocal h)),
      (''NEXUSFLOW_MPIRUN_HINT'', ''--bind-to socket --map-by socket'')]"

lemma hint_names:
  "sh_name ''NEXUSFLOW_TOPOLOGY_SOURCE''" "sh_name ''NEXUSFLOW_LOGICAL_CPUS''"
  "sh_name ''NEXUSFLOW_PHYSICAL_CORES''" "sh_name ''NEXUSFLOW_SOCKET_COUNT''"
  "sh_name ''NEXUSFLOW_NUMA_NODE_COUNT''" "sh_name ''NEXUSFLOW_MAX_LOGICAL_PER_SOCKET''"
  "sh_name ''NEXUSFLOW_MAX_LOGICAL_PER_NUMA''" "sh_name ''NEXUSFLOW_MIN_LOGICAL_PER_NUMA''"
  "sh_name ''NEXUSFLOW_SUGGEST_CPUS_PER_TASK''" "sh_name ''NEXUSFLOW_MAKE_J_LOGICAL''"
  "sh_name ''NEXUSFLOW_FIRST_SOCKET_CPUS''" "sh_name ''NEXUSFLOW_SRUN_EXTRA''"
  "sh_name ''NEXUSFLOW_MPIRUN_HINT''"
  by code_simp+

text \<open>
  C28. Evaluating the shell output is safe and faithful: a shell that reads the text of \<^verbatim>\<open>WriteHintsShell\<close>
  executes nothing but exports, and sets each variable to exactly the value in the hints, whatever
  characters the source name contains.
\<close>

theorem shell_hints_faithful: "sh_exports (WriteHintsShell (Some h)) = Some (hint_exports h)"
proof -
  define c where "c = '' NexusFlow topology hints '' @ em_dash @ '' eval: eval '' @ [dquote] @
    ''$(nexusflow topology hints --format shell)'' @ [dquote]"
  have c: "CHR 0x0A \<notin> set c" by (simp add: c_def em_dash_def dquote_def)
  have "sh_exports (WriteHintsShell (Some h)) = sh_exports (CHR ''#'' # c @ line_end @
      (drop (length c + 2) (WriteHintsShell (Some h))))"
    by (simp add: WriteHintsShell_def c_def Let_def line_end_def em_dash_def)
  also have "\<dots> = sh_exports (drop (length c + 2) (WriteHintsShell (Some h)))"
    by (rule sh_exports_comment [OF c])
  also have "\<dots> = Some (hint_exports h)"
    by (simp add: WriteHintsShell_def c_def Let_def line_end_def em_dash_def sh_reads sh_exports_last hint_names
        hint_exports_def)
  finally show ?thesis .
qed

end
