(* ===== verification/Snapshot.thy ===== *)
theory Snapshot
  imports Hints
begin

text \<open>
  Renderings of a snapshot: the tree of pkg/topology/format.go and the JSON exchange form of pkg/topology/json.go. The
  JSON library is an argument of the operations that call it. The tree is specified by a reader of its text, \<open>read_tree\<close>, which
  recovers the CPUs with their places.
\<close>

section \<open>Model: format.go\<close>

definition filterPackage :: "CPU list \<Rightarrow> int \<Rightarrow> CPU list" where
  "filterPackage cpus pkg = filter (\<lambda>c. PackageID c = pkg) cpus"

definition coresOnCore :: "CPU list \<Rightarrow> int \<Rightarrow> int list" where
  "coresOnCore cpus coreID = map cpu_ID (filter (\<lambda>c. CoreID c = coreID) cpus)"

text \<open>The key of a CPU in \<^verbatim>\<open>byNode\<close>, the sorted keys, and the value at a key.\<close>

definition tree_node :: "CPU \<Rightarrow> int" where
  "tree_node c = (if cpu_NUMANode c < 0 then -1 else cpu_NUMANode c)"

definition tree_nodes :: "CPU list \<Rightarrow> int list" where
  "tree_nodes sub = sort (uniq_loop {} (map tree_node sub))"

definition by_node :: "CPU list \<Rightarrow> int \<Rightarrow> CPU list" where
  "by_node sub nid = filter (\<lambda>c. tree_node c = nid) sub"

text \<open>The rows of one node: every core once, in ascending order, with its CPUs.\<close>

definition core_rows :: "CPU list \<Rightarrow> (int \<times> int list) list" where
  "core_rows grp =
     (let cores = sort_key (\<lambda>c. (CoreID c, cpu_ID c)) grp in
      map (\<lambda>k. (k, sort (coresOnCore cores k))) (uniq_loop {} (map CoreID cores)))"

text \<open>\<^verbatim>\<open>%v\<close> of a slice of ints, and \<^verbatim>\<open>%-4d\<close>.\<close>

definition show_ints :: "int list \<Rightarrow> string" where
  "show_ints xs = ''['' @ join '' '' (map itoa xs) @ '']''"

definition pad4 :: "int \<Rightarrow> string" where
  "pad4 n = (let s = itoa n in s @ replicate (4 - length s) (CHR '' ''))"

text \<open>The characters of the tree as UTF-8: a branch, a bar, an arrow.\<close>

definition branch_mark :: string where
  "branch_mark = [CHR 0xE2, CHR 0x94, CHR 0x9C, CHR 0xE2, CHR 0x94, CHR 0x80, CHR 0xE2, CHR 0x94, CHR 0x80]"

definition bar_mark :: string where
  "bar_mark = [CHR 0xE2, CHR 0x94, CHR 0x82]"

definition arrow_mark :: string where
  "arrow_mark = [CHR 0xE2, CHR 0x86, CHR 0x92]"

fun dist_hint :: "int \<Rightarrow> NUMANode list \<Rightarrow> string" where
  "dist_hint nid [] = []"
| "dist_hint nid (nn # nns) =
     (if node_ID nn = nid \<and> Distance nn \<noteq> [] then ''  distance sysfs: '' @ show_ints (Distance nn) else dist_hint nid nns)"

definition node_line :: "Topology \<Rightarrow> int \<Rightarrow> string" where
  "node_line t nid =
     (let distHint = (if nid \<ge> 0 then dist_hint nid (topo_NUMANodes t) else []);
          nodeLabel = (if nid \<ge> 0 then ''NUMA node '' @ itoa nid else ''unknown NUMA'') in
      ''  '' @ branch_mark @ '' '' @ nodeLabel @ (if distHint \<noteq> [] then ''  ('' @ distHint @ '')'' else []) @ line_end)"

definition core_line :: "int \<times> int list \<Rightarrow> string" where
  "core_line = (\<lambda>(core, threadIDs).
     ''  '' @ bar_mark @ ''     Core '' @ pad4 core @ '' '' @ arrow_mark @ '' CPUs '' @ show_ints threadIDs @ line_end)"

definition package_block :: "Topology \<Rightarrow> int \<Rightarrow> string" where
  "package_block t pkg =
     (let sub = filterPackage (topo_CPUs t) pkg in
      ''Socket / package '' @ itoa pkg @ line_end @
      concat (map (\<lambda>nid. node_line t nid @ concat (map core_line (core_rows (by_node sub nid)))) (tree_nodes sub)) @ line_end)"

definition FormatASCII :: "Topology \<Rightarrow> string" where
  "FormatASCII t =
     ''NexusFlow '' @ em_dash @ '' NUMA-aware topology'' @ line_end @
     ''Logical CPUs: '' @ show_nat (length (topo_CPUs t)) @
     (if topo_NUMANodes t \<noteq> [] then ''  NUMA nodes: '' @ show_nat (length (topo_NUMANodes t)) else []) @ line_end @ line_end @
     concat (map (package_block t) (PackageIDs t)) @
     (if topo_NUMANodes t \<noteq> []
      then ''NUMA CPU lists (sysfs cpulist):'' @ line_end @
        concat (map (\<lambda>n. ''  node'' @ itoa (node_ID n) @ '' '' @ arrow_mark @ '' '' @ show_ints (node_CPUs n) @ line_end) (topo_NUMANodes t))
      else [])"

section \<open>Model: json.go\<close>

record SnapshotCPU =
  sc_ID :: int
  sc_Package :: int
  sc_Core :: int
  sc_NUMANode :: int
  sc_ThreadSiblings :: "int list"

record SnapshotNUMA =
  sm_ID :: int
  sm_CPUs :: "int list"
  sm_Distance :: "int list"

record Snapshot =
  sn_CPUs :: "SnapshotCPU list"
  sn_NUMANodes :: "SnapshotNUMA list"
  sn_Source :: string

datatype snapshot_error = JSONError string | EmptySnapshot

definition ToSnapshot :: "Topology option \<Rightarrow> string \<Rightarrow> Snapshot option" where
  "ToSnapshot topo source =
     (case topo of
        None \<Rightarrow> None
      | Some t \<Rightarrow> Some \<lparr>
          sn_CPUs = map (\<lambda>c. \<lparr>sc_ID = cpu_ID c, sc_Package = PackageID c, sc_Core = CoreID c, sc_NUMANode = cpu_NUMANode c,
            sc_ThreadSiblings = Siblings c\<rparr>) (topo_CPUs t),
          sn_NUMANodes = map (\<lambda>n. \<lparr>sm_ID = node_ID n, sm_CPUs = node_CPUs n, sm_Distance = Distance n\<rparr>) (topo_NUMANodes t),
          sn_Source = source\<rparr>)"

text \<open>The bytes are of any type \<open>'b\<close>; \<open>marshal\<close> and \<open>unmarshal\<close> are the JSON library at the type \<^verbatim>\<open>Snapshot\<close>.\<close>

definition MarshalTopologyJSON :: "(Snapshot option \<Rightarrow> string + 'b) \<Rightarrow> Topology option \<Rightarrow> string \<Rightarrow> string + 'b" where
  "MarshalTopologyJSON marshal t source = marshal (ToSnapshot t source)"

definition MarshalTopologyJSONIndent ::
  "(Snapshot option \<Rightarrow> string \<Rightarrow> string \<Rightarrow> string + 'b) \<Rightarrow> Topology option \<Rightarrow> string \<Rightarrow> string \<Rightarrow> string \<Rightarrow> string + 'b" where
  "MarshalTopologyJSONIndent marshalIndent t pre indent source = marshalIndent (ToSnapshot t source) pre indent"

definition UnmarshalTopologyJSON :: "('b \<Rightarrow> string + Snapshot) \<Rightarrow> 'b \<Rightarrow> snapshot_error + Topology" where
  "UnmarshalTopologyJSON unmarshal data =
     (case unmarshal data of
        Inl e \<Rightarrow> Inl (JSONError e)
      | Inr snap \<Rightarrow>
          if sn_CPUs snap = [] \<and> sn_NUMANodes snap = [] then Inl EmptySnapshot
          else Inr \<lparr>
            topo_CPUs = map (\<lambda>c. \<lparr>cpu_ID = sc_ID c, PackageID = sc_Package c, CoreID = sc_Core c, cpu_NUMANode = sc_NUMANode c,
              Siblings = sc_ThreadSiblings c\<rparr>) (sn_CPUs snap),
            topo_NUMANodes = map (\<lambda>n. \<lparr>node_ID = sm_ID n, node_CPUs = sm_CPUs n, Distance = sm_Distance n\<rparr>) (sn_NUMANodes snap)\<rparr>)"

section \<open>Reading the tree\<close>

text \<open>
  A reader of the printed text, which knows nothing of the topology. It goes through the lines, keeps the package and the node of the
  last headings, and takes from every row of a core one entry (package, node, core, CPU) for each CPU of its list. An unknown node is
  -1. Lines of any other kind say nothing.
\<close>

definition node_heading :: string where
  "node_heading = ''  '' @ branch_mark @ '' NUMA node ''"

definition unknown_heading :: string where
  "unknown_heading = ''  '' @ branch_mark @ '' unknown NUMA''"

definition row_heading :: string where
  "row_heading = ''  '' @ bar_mark @ ''     Core ''"

definition read_int :: "string \<Rightarrow> int" where
  "read_int s = fst (atoi (takeWhile (\<lambda>c. c \<noteq> CHR '' '') s))"

definition read_ints :: "string \<Rightarrow> int list" where
  "read_ints s =
     map read_int (split_on (CHR '' '') (takeWhile (\<lambda>c. c \<noteq> CHR '']'') (tl (dropWhile (\<lambda>c. c \<noteq> CHR ''['') s))))"

definition read_line :: "int \<times> int \<Rightarrow> string \<Rightarrow> (int \<times> int) \<times> (int \<times> int \<times> int \<times> int) list" where
  "read_line = (\<lambda>(pkg, node) l.
     if has_prefix l ''Socket / package '' then ((read_int (drop 17 l), node), [])
     else if has_prefix l node_heading then ((pkg, read_int (drop (length node_heading) l)), [])
     else if has_prefix l unknown_heading then ((pkg, -1), [])
     else if has_prefix l row_heading then
       (let r = drop (length row_heading) l in ((pkg, node), map (\<lambda>i. (pkg, node, read_int r, i)) (read_ints r)))
     else ((pkg, node), []))"

fun read_lines :: "int \<times> int \<Rightarrow> string list \<Rightarrow> (int \<times> int) \<times> (int \<times> int \<times> int \<times> int) list" where
  "read_lines st [] = (st, [])"
| "read_lines st (l # ls) =
     (case read_line st l of (st1, q1) \<Rightarrow> (case read_lines st1 ls of (st2, q2) \<Rightarrow> (st2, q1 @ q2)))"

definition read_tree :: "string \<Rightarrow> (int \<times> int \<times> int \<times> int) list" where
  "read_tree s = snd (read_lines (0, 0) (split_on (CHR 0x0A) s))"

lemma read_lines_append:
  "read_lines st (ks @ ls) =
     (case read_lines st ks of (st1, q1) \<Rightarrow> (case read_lines st1 ls of (st2, q2) \<Rightarrow> (st2, q1 @ q2)))"
  by (induction ks arbitrary: st) (auto split: prod.splits)

subsection \<open>The lines of the tree\<close>

definition no_newline :: "string \<Rightarrow> bool" where
  "no_newline s \<longleftrightarrow> CHR 0x0A \<notin> set s"

lemma no_newline_simps [simp]:
  "no_newline []" "no_newline (c # cs) \<longleftrightarrow> c \<noteq> CHR 0x0A \<and> no_newline cs" "no_newline (xs @ ys) \<longleftrightarrow> no_newline xs \<and> no_newline ys"
  by (auto simp: no_newline_def)

lemma itoa_chars: "c \<in> set (itoa i) \<Longrightarrow> is_digit c \<or> c = CHR ''-''"
  by (cases "i < 0") (auto simp: itoa_def dest: itoa_digits_digits [rotated])

lemma no_newline_itoa [simp]: "no_newline (itoa i)"
  by (auto simp: no_newline_def is_digit_def dest!: itoa_chars)

lemma no_newline_show_ints [simp]: "no_newline (show_ints xs)"
proof -
  have "no_newline (join '' '' (map itoa xs))" by (induction xs rule: induct_list012) simp_all
  then show ?thesis by (simp add: show_ints_def)
qed

lemma no_newline_texts [simp]:
  "no_newline (pad4 n)" "no_newline branch_mark" "no_newline bar_mark" "no_newline arrow_mark" "no_newline em_dash"
  "no_newline (show_nat k)" "no_newline (dist_hint nid nodes)"
proof -
  show "no_newline (dist_hint nid nodes)" by (induction nodes) simp_all
  show "no_newline (pad4 n)" by (simp add: pad4_def Let_def) (simp add: no_newline_def)
qed (simp_all add: branch_mark_def bar_mark_def arrow_mark_def em_dash_def show_nat_def)

definition unlines :: "string list \<Rightarrow> string" where
  "unlines ls = concat (map (\<lambda>l. l @ line_end) ls)"

lemma unlines_simps [simp]:
  "unlines [] = []" "unlines (l # ls) = l @ line_end @ unlines ls" "unlines (ks @ ls) = unlines ks @ unlines ls"
  "unlines (map f xs) = concat (map (\<lambda>x. f x @ line_end) xs)"
  "unlines (concat (map g ys)) = concat (map (\<lambda>y. unlines (g y)) ys)"
  by (simp_all add: unlines_def comp_def) (induction ys; simp)

lemma split_on_lines:
  assumes "\<forall>l \<in> set ls. no_newline l"
  shows "split_on (CHR 0x0A) (unlines ls) = ls @ [[]]"
  using assms by (induction ls) (simp_all add: line_end_def no_newline_def split_on_append)

definition node_text :: "Topology \<Rightarrow> int \<Rightarrow> string" where
  "node_text t nid = butlast (node_line t nid)"

definition row_text :: "int \<times> int list \<Rightarrow> string" where
  "row_text r = butlast (core_line r)"

lemma line_texts: "node_line t nid = node_text t nid @ line_end" "core_line = (\<lambda>r. row_text r @ line_end)"
  by (simp_all add: fun_eq_iff node_text_def row_text_def node_line_def core_line_def line_end_def Let_def butlast_append split: prod.split)

lemma no_newline_lines [simp]: "no_newline (node_text t nid)" "no_newline (row_text r)"
  by (simp_all add: node_text_def row_text_def node_line_def core_line_def line_end_def Let_def butlast_append split: prod.split)

definition node_block :: "Topology \<Rightarrow> CPU list \<Rightarrow> int \<Rightarrow> string list" where
  "node_block t sub nid = node_text t nid # map row_text (core_rows (by_node sub nid))"

definition package_lines :: "Topology \<Rightarrow> int \<Rightarrow> string list" where
  "package_lines t pkg =
     (let sub = filterPackage (topo_CPUs t) pkg in
      (''Socket / package '' @ itoa pkg) # concat (map (node_block t sub) (tree_nodes sub)) @ [[]])"

definition head_lines :: "Topology \<Rightarrow> string list" where
  "head_lines t =
     [''NexusFlow '' @ em_dash @ '' NUMA-aware topology'',
      ''Logical CPUs: '' @ show_nat (length (topo_CPUs t)) @
        (if topo_NUMANodes t \<noteq> [] then ''  NUMA nodes: '' @ show_nat (length (topo_NUMANodes t)) else []), []]"

definition tail_lines :: "Topology \<Rightarrow> string list" where
  "tail_lines t =
     (if topo_NUMANodes t \<noteq> []
      then ''NUMA CPU lists (sysfs cpulist):'' #
        map (\<lambda>n. ''  node'' @ itoa (node_ID n) @ '' '' @ arrow_mark @ '' '' @ show_ints (node_CPUs n)) (topo_NUMANodes t)
      else [])"

lemma package_block_lines: "package_block t = (\<lambda>pkg. unlines (package_lines t pkg))"
  by (simp add: fun_eq_iff package_block_def package_lines_def node_block_def Let_def line_texts)

lemma FormatASCII_lines:
  "FormatASCII t = unlines (head_lines t @ concat (map (package_lines t) (PackageIDs t)) @ tail_lines t)"
  by (simp add: FormatASCII_def head_lines_def tail_lines_def package_block_lines)

lemma FormatASCII_split:
  "split_on (CHR 0x0A) (FormatASCII t) = head_lines t @ concat (map (package_lines t) (PackageIDs t)) @ tail_lines t @ [[]]"
proof -
  have "\<forall>l \<in> set (head_lines t @ concat (map (package_lines t) (PackageIDs t)) @ tail_lines t). no_newline l"
    by (auto simp: head_lines_def tail_lines_def package_lines_def node_block_def Let_def)
  from split_on_lines [OF this] show ?thesis unfolding FormatASCII_lines by simp
qed

subsection \<open>What the reader makes of the lines\<close>

lemma read_int_itoa: "int64 i \<Longrightarrow> (\<forall>c cs. rest = c # cs \<longrightarrow> c = CHR '' '') \<Longrightarrow> read_int (itoa i @ rest) = i"
proof -
  assume i: "int64 i" and rest: "\<forall>c cs. rest = c # cs \<longrightarrow> c = CHR '' ''"
  have "\<forall>c \<in> set (itoa i). c \<noteq> CHR '' ''" by (auto simp: is_digit_def dest!: itoa_chars)
  then have "takeWhile (\<lambda>c. c \<noteq> CHR '' '') (itoa i @ rest) = itoa i @ takeWhile (\<lambda>c. c \<noteq> CHR '' '') rest"
    by (intro takeWhile_append2) blast
  moreover have "takeWhile (\<lambda>c. c \<noteq> CHR '' '') rest = []" using rest by (cases rest) simp_all
  ultimately show ?thesis using i by (simp add: read_int_def atoi_itoa)
qed

lemma read_int_plain: "int64 i \<Longrightarrow> read_int (itoa i) = i"
  using read_int_itoa [of i "[]"] by simp

lemma read_ints_row:
  assumes "CHR ''['' \<notin> set pre" and "ids \<noteq> []" and "\<forall>i \<in> set ids. int64 i"
  shows "read_ints (pre @ show_ints ids) = ids"
proof -
  have "\<forall>c \<in> set (join '' '' ws). c \<in> \<Union> (set ` set ws) \<or> c = CHR '' ''" for ws
    by (induction ws rule: induct_list012) auto
  then have "\<forall>c \<in> set (join '' '' (map itoa ids)). c \<noteq> CHR '']''" by (fastforce simp: is_digit_def dest: itoa_chars)
  then have "takeWhile (\<lambda>c. c \<noteq> CHR '']'') (join '' '' (map itoa ids) @ '']'') = join '' '' (map itoa ids)"
    by (subst takeWhile_append2) auto
  moreover have "dropWhile (\<lambda>c. c \<noteq> CHR ''['') (pre @ show_ints ids) = show_ints ids"
    using assms(1) by (subst dropWhile_append2) (auto simp: show_ints_def)
  moreover have "split_on (CHR '' '') (join '' '' (map itoa ids)) = map itoa ids"
    using assms(2) by (intro split_on_join) (auto simp: is_digit_def dest!: itoa_chars)
  ultimately show ?thesis using assms(3) by (simp add: read_ints_def show_ints_def comp_def read_int_plain map_idI)
qed

lemmas headings = node_heading_def unknown_heading_def row_heading_def has_prefix_def branch_mark_def bar_mark_def

lemma read_package: "int64 pkg \<Longrightarrow> read_line (p, n) (''Socket / package '' @ itoa pkg) = ((pkg, n), [])"
  by (simp add: read_line_def has_prefix_def read_int_plain)

lemma read_node:
  assumes "nid = -1 \<or> 0 \<le> nid" and "int64 nid"
  shows "read_line (p, n) (node_text t nid) = ((p, nid), [])"
proof (cases "0 \<le> nid")
  case True
  then obtain rest where "node_text t nid = node_heading @ itoa nid @ rest" "\<forall>c cs. rest = c # cs \<longrightarrow> c = CHR '' ''"
    by (simp add: node_text_def node_line_def node_heading_def line_end_def Let_def butlast_append)
  then show ?thesis using read_int_itoa [OF assms(2)] by (simp add: read_line_def headings)
next
  case False
  with assms(1) show ?thesis
    by (simp add: read_line_def headings node_text_def node_line_def line_end_def Let_def)
qed

lemma read_row:
  assumes "int64 k" and "ids \<noteq> []" and "\<forall>i \<in> set ids. int64 i"
  shows "read_line (p, n) (row_text (k, ids)) = ((p, n), map (\<lambda>i. (p, n, k, i)) ids)"
proof -
  let ?gap = "replicate (4 - length (itoa k)) (CHR '' '') @ '' ''"
  let ?pre = "itoa k @ ?gap @ arrow_mark @ '' CPUs ''"
  have row: "row_text (k, ids) = row_heading @ ?pre @ show_ints ids"
    by (simp add: row_text_def core_line_def row_heading_def pad4_def line_end_def Let_def butlast_append)
  have "CHR ''['' \<notin> set ?pre" by (auto simp: arrow_mark_def is_digit_def dest!: itoa_chars)
  note ints = read_ints_row [OF this assms(2,3)]
  have "\<exists>rest. ?gap @ arrow_mark @ '' CPUs '' @ show_ints ids = CHR '' '' # rest"
    by (cases "4 - length (itoa k)") simp_all
  then have "read_int (?pre @ show_ints ids) = k" using read_int_itoa [OF assms(1)] by auto
  with ints show ?thesis unfolding row by (simp add: read_line_def headings)
qed

text \<open>The entries of a row, of the rows of a node, of the nodes of a package.\<close>

definition row_entries :: "int \<Rightarrow> int \<Rightarrow> int \<times> int list \<Rightarrow> (int \<times> int \<times> int \<times> int) list" where
  "row_entries pkg node = (\<lambda>(k, ids). map (\<lambda>i. (pkg, node, k, i)) ids)"

definition node_entries :: "int \<Rightarrow> CPU list \<Rightarrow> int \<Rightarrow> (int \<times> int \<times> int \<times> int) list" where
  "node_entries pkg sub node = concat (map (row_entries pkg node) (core_rows (by_node sub node)))"

definition package_entries :: "Topology \<Rightarrow> int \<Rightarrow> (int \<times> int \<times> int \<times> int) list" where
  "package_entries t pkg =
     (let sub = filterPackage (topo_CPUs t) pkg in concat (map (node_entries pkg sub) (tree_nodes sub)))"

definition cpu_int64 :: "CPU \<Rightarrow> bool" where
  "cpu_int64 c \<longleftrightarrow> int64 (cpu_ID c) \<and> int64 (PackageID c) \<and> int64 (CoreID c) \<and> int64 (cpu_NUMANode c)"

lemma core_rows_elem:
  assumes "(k, ids) \<in> set (core_rows grp)"
  shows "ids \<noteq> [] \<and> k \<in> CoreID ` set grp \<and> set ids \<subseteq> cpu_ID ` set grp"
  using assms by (auto simp: core_rows_def Let_def coresOnCore_def filter_empty_conv)

lemma read_rows:
  assumes "\<forall>(k, ids) \<in> set rs. int64 k \<and> ids \<noteq> [] \<and> (\<forall>i \<in> set ids. int64 i)"
  shows "read_lines (p, n) (map row_text rs) = ((p, n), concat (map (row_entries p n) rs))"
  using assms by (induction rs) (auto simp: read_row row_entries_def)

lemma read_node_block:
  assumes "\<forall>c \<in> set sub. cpu_int64 c" and "nid = -1 \<or> 0 \<le> nid" and "int64 nid"
  shows "read_lines (p, n) (node_block t sub nid) = ((p, nid), node_entries p sub nid)"
proof -
  have "\<forall>(k, ids) \<in> set (core_rows (by_node sub nid)). int64 k \<and> ids \<noteq> [] \<and> (\<forall>i \<in> set ids. int64 i)"
    using assms(1) by (fastforce simp: by_node_def cpu_int64_def dest!: core_rows_elem)
  from read_rows [OF this] show ?thesis by (simp add: node_block_def read_node [OF assms(2,3)] node_entries_def)
qed

lemma read_node_blocks:
  assumes "\<forall>c \<in> set sub. cpu_int64 c" and "\<forall>nid \<in> set nids. (nid = -1 \<or> 0 \<le> nid) \<and> int64 nid"
  shows "\<exists>n'. read_lines (p, n) (concat (map (node_block t sub) nids)) = ((p, n'), concat (map (node_entries p sub) nids))"
  using assms(2)
proof (induction nids arbitrary: n)
  case (Cons nid nids)
  then obtain n' where "read_lines (p, nid) (concat (map (node_block t sub) nids)) = ((p, n'), concat (map (node_entries p sub) nids))"
    by auto
  with Cons.prems show ?case by (simp add: read_lines_append read_node_block [OF assms(1)])
qed simp

lemma tree_nodes_known:
  assumes "\<forall>c \<in> set sub. cpu_int64 c"
  shows "\<forall>nid \<in> set (tree_nodes sub). (nid = -1 \<or> 0 \<le> nid) \<and> int64 nid"
  using assms by (auto simp: tree_nodes_def tree_node_def cpu_int64_def go_int)

lemma read_package_lines:
  assumes "\<forall>c \<in> set (topo_CPUs t). cpu_int64 c" and "int64 pkg"
  shows "\<exists>st'. read_lines st (package_lines t pkg) = (st', package_entries t pkg)"
proof -
  let ?sub = "filterPackage (topo_CPUs t) pkg"
  have sub: "\<forall>c \<in> set ?sub. cpu_int64 c" using assms(1) by (simp add: filterPackage_def)
  obtain p n where st: "st = (p, n)" by fastforce
  obtain n' where "read_lines (pkg, n) (concat (map (node_block t ?sub) (tree_nodes ?sub))) =
      ((pkg, n'), concat (map (node_entries pkg ?sub) (tree_nodes ?sub)))"
    using read_node_blocks [OF sub tree_nodes_known [OF sub]] by blast
  moreover have "read_line s [] = (s, [])" for s by (cases s) (simp add: read_line_def headings)
  moreover note read_package [OF assms(2), of p n, simplified]
  ultimately show ?thesis by (simp add: st package_lines_def package_entries_def Let_def read_lines_append)
qed

lemma read_packages:
  assumes "\<forall>c \<in> set (topo_CPUs t). cpu_int64 c" and "\<forall>pkg \<in> set pkgs. int64 pkg"
  shows "\<exists>st'. read_lines st (concat (map (package_lines t) pkgs)) = (st', concat (map (package_entries t) pkgs))"
  using assms(2)
proof (induction pkgs arbitrary: st)
  case (Cons pkg pkgs)
  obtain st1 where 1: "read_lines st (package_lines t pkg) = (st1, package_entries t pkg)"
    using read_package_lines [OF assms(1), of pkg st] Cons.prems by auto
  obtain st2 where "read_lines st1 (concat (map (package_lines t) pkgs)) = (st2, concat (map (package_entries t) pkgs))"
    using Cons.IH [of st1] Cons.prems by auto
  with 1 show ?case by (simp add: read_lines_append)
qed simp

definition silent :: "string \<Rightarrow> bool" where
  "silent l \<longleftrightarrow> \<not> has_prefix l ''Socket / package '' \<and> \<not> has_prefix l node_heading \<and> \<not> has_prefix l unknown_heading \<and> \<not> has_prefix l row_heading"

lemma read_silent: "\<forall>l \<in> set ls. silent l \<Longrightarrow> read_lines st ls = (st, [])"
  by (induction ls arbitrary: st) (auto simp: silent_def read_line_def split: prod.split)

lemma silent_lines: "\<forall>l \<in> set (head_lines t). silent l" "\<forall>l \<in> set (tail_lines t @ [[]]). silent l"
  by (auto simp: head_lines_def tail_lines_def silent_def headings)

lemma read_tree_entries:
  assumes "\<forall>c \<in> set (topo_CPUs t). cpu_int64 c"
  shows "read_tree (FormatASCII t) = concat (map (package_entries t) (PackageIDs t))"
proof -
  have "\<forall>pkg \<in> set (PackageIDs t). int64 pkg" using assms by (auto simp: PackageIDs_def cpu_int64_def)
  from read_packages [OF assms this] obtain st' where
    "read_lines (0, 0) (concat (map (package_lines t) (PackageIDs t))) = (st', concat (map (package_entries t) (PackageIDs t)))" by blast
  then show ?thesis
    unfolding read_tree_def FormatASCII_split read_lines_append [of _ "head_lines t"] read_silent [OF silent_lines(1)]
    using read_silent [OF silent_lines(2)] by (simp add: read_lines_append)
qed

subsection \<open>The entries in order\<close>

lemma sorted_concat_keyed:
  assumes "sorted_wrt (<) ks" and "\<And>k. k \<in> set ks \<Longrightarrow> sorted (g k)"
    and "\<And>j k x y. j \<in> set ks \<Longrightarrow> k \<in> set ks \<Longrightarrow> j < k \<Longrightarrow> x \<in> set (g j) \<Longrightarrow> y \<in> set (g k) \<Longrightarrow> x \<le> y"
  shows "sorted (concat (map g ks))"
  using assms
proof (induction ks)
  case (Cons k ks)
  have "sorted (concat (map g ks))" 
  proof (rule Cons.IH)
    show "sorted_wrt (<) ks" using Cons.prems(1) by simp
    show "sorted (g j)" if "j \<in> set ks" for j using Cons.prems(2) [of j] that by simp
    show "x \<le> y" if "i \<in> set ks" "j \<in> set ks" "i < j" "x \<in> set (g i)" "y \<in> set (g j)" for i j x y
      using Cons.prems(3) [of i j x y] that by simp
  qed
  moreover have "x \<le> y" if "x \<in> set (g k)" "j \<in> set ks" "y \<in> set (g j)" for x y j
    using Cons.prems(1) Cons.prems(3) [of k j] that by simp
  ultimately show ?case using Cons.prems(2) [of k] by (auto simp: sorted_append)
qed simp

lemma mset_concat_keyed:
  assumes "distinct ks" and "f ` set xs \<subseteq> set ks"
    and "\<And>k. k \<in> set ks \<Longrightarrow> mset (g k) = mset (map h (filter (\<lambda>x. f x = k) xs))"
  shows "mset (concat (map g ks)) = mset (map h xs)"
proof -
  have "mset (concat (map g js)) = image_mset h (mset (concat (map (\<lambda>k. filter (\<lambda>x. f x = k) xs) js)))" if "set js \<subseteq> set ks" for js
    using that assms(3) by (induction js) simp_all
  from this [of ks] show ?thesis by (simp add: mset_groups [OF assms(1,2)])
qed

lemma sorted_uniq_loop: "sorted xs \<Longrightarrow> sorted (uniq_loop seen xs)"
  by (induction xs arbitrary: seen) auto

text \<open>What the tree says of a CPU.\<close>

definition tree_entry :: "CPU \<Rightarrow> int \<times> int \<times> int \<times> int" where
  "tree_entry c = (PackageID c, tree_node c, CoreID c, cpu_ID c)"

lemma node_entries_spec:
  fixes sub :: "CPU list"
  assumes "\<forall>c \<in> set sub. PackageID c = p"
  shows "mset (node_entries p sub n) = mset (map tree_entry (filter (\<lambda>c. tree_node c = n) sub))" and "sorted (node_entries p sub n)"
    and "x \<in> set (node_entries p sub n) \<Longrightarrow> fst x = p \<and> fst (snd x) = n"
proof -
  define cores where "cores = sort_key (\<lambda>c. (CoreID c, cpu_ID c)) (by_node sub n)"
  define ks where "ks = uniq_loop {} (map CoreID cores)"
  let ?row = "\<lambda>k. map (\<lambda>i. (p, n, k, i)) (sort (coresOnCore cores k))"
  have rows: "node_entries p sub n = concat (map ?row ks)"
    by (simp add: node_entries_def core_rows_def Let_def row_entries_def cores_def ks_def comp_def)
  have of_core: "c \<in> set cores \<Longrightarrow> PackageID c = p \<and> tree_node c = n" for c using assms by (auto simp: cores_def by_node_def)
  then have entry: "c \<in> set cores \<Longrightarrow> tree_entry c = (p, n, CoreID c, cpu_ID c)" for c by (simp add: tree_entry_def)
  have "mset (concat (map ?row ks)) = mset (map tree_entry cores)"
  proof (rule mset_concat_keyed [where f = CoreID])
    show "mset (?row k) = mset (map tree_entry (filter (\<lambda>c. CoreID c = k) cores))" for k
      using entry by (auto simp: coresOnCore_def multiset.map_comp comp_def simp flip: mset_filter intro!: image_mset_cong)
  qed (simp_all add: ks_def)
  then show "mset (node_entries p sub n) = mset (map tree_entry (filter (\<lambda>c. tree_node c = n) sub))"
    by (simp add: rows cores_def by_node_def)
  have "sorted (map (\<lambda>c. (CoreID c, cpu_ID c)) cores)" by (simp add: cores_def)
  then have "sorted (map CoreID cores)" unfolding sorted_map by (rule sorted_wrt_mono_rel [rotated]) auto
  then have "sorted_wrt (<) ks" by (simp add: ks_def strict_sorted_iff sorted_uniq_loop)
  moreover have "sorted (?row k)" for k unfolding sorted_map by (simp add: sorted_wrt_mono_rel [OF _ sorted_sort])
  ultimately show "sorted (node_entries p sub n)" unfolding rows by (intro sorted_concat_keyed) auto
  show "x \<in> set (node_entries p sub n) \<Longrightarrow> fst x = p \<and> fst (snd x) = n" by (auto simp: rows)
qed

lemma package_entries_spec:
  "mset (package_entries t p) = mset (map tree_entry (filter (\<lambda>c. PackageID c = p) (topo_CPUs t)))" "sorted (package_entries t p)"
  "x \<in> set (package_entries t p) \<Longrightarrow> fst x = p"
proof -
  let ?sub = "filterPackage (topo_CPUs t) p"
  have sub: "\<forall>c \<in> set ?sub. PackageID c = p" by (simp add: filterPackage_def)
  note node = node_entries_spec [OF sub]
  show "mset (package_entries t p) = mset (map tree_entry (filter (\<lambda>c. PackageID c = p) (topo_CPUs t)))"
    unfolding package_entries_def Let_def filterPackage_def [symmetric]
    by (rule mset_concat_keyed [where f = tree_node, OF _ _ node(1)]) (auto simp: tree_nodes_def)
  have "sorted_wrt (<) (tree_nodes ?sub)" by (simp add: tree_nodes_def strict_sorted_uniq)
  then show "sorted (package_entries t p)" unfolding package_entries_def Let_def
    by (rule sorted_concat_keyed [OF _ node(2)]) (auto dest!: node(3))
  show "x \<in> set (package_entries t p) \<Longrightarrow> fst x = p" by (auto simp: package_entries_def Let_def dest!: node(3))
qed

text \<open>
  C37. The printed topology tree shows every logical CPU of the snapshot under its own package, node and core, none twice and none that is not
  there, and in order: a reader of the text of \<^verbatim>\<open>FormatASCII\<close> that goes by the headings and the rows finds exactly the CPUs of the
  snapshot with their packages, nodes (-1 for all that are unknown) and cores, sorted by package, node, core and id. The numbers are
  those of 64 bits; nothing else is asked of the snapshot.
\<close>

theorem tree_shows_every_cpu:
  assumes "\<forall>c \<in> set (topo_CPUs t). int64 (cpu_ID c) \<and> int64 (PackageID c) \<and> int64 (CoreID c) \<and> int64 (cpu_NUMANode c)"
  shows "read_tree (FormatASCII t) =
    sort (map (\<lambda>c. (PackageID c, if cpu_NUMANode c < 0 then -1 else cpu_NUMANode c, CoreID c, cpu_ID c)) (topo_CPUs t))"
proof -
  let ?es = "concat (map (package_entries t) (PackageIDs t))"
  have "sorted_wrt (<) (PackageIDs t)" by (simp add: PackageIDs_def strict_sorted_uniq)
  then have "sorted ?es" by (rule sorted_concat_keyed [OF _ package_entries_spec(2)]) (auto dest!: package_entries_spec(3))
  moreover have "mset ?es = mset (map tree_entry (topo_CPUs t))"
    by (rule mset_concat_keyed [where f = PackageID, OF _ _ package_entries_spec(1)]) (auto simp: PackageIDs_def)
  ultimately have "?es = sort (map tree_entry (topo_CPUs t))" by (metis properties_for_sort)
  then show ?thesis using read_tree_entries [of t] assms by (simp add: cpu_int64_def tree_entry_def [abs_def] tree_node_def)
qed

theorem tree_shows_every_cpu_witness:
  "read_tree (FormatASCII \<lparr>topo_CPUs = [\<lparr>cpu_ID = 3, PackageID = 1, CoreID = 0, cpu_NUMANode = -5, Siblings = []\<rparr>,
       \<lparr>cpu_ID = 12, PackageID = 0, CoreID = 7, cpu_NUMANode = 1, Siblings = []\<rparr>, \<lparr>cpu_ID = 4, PackageID = 0, CoreID = 7, cpu_NUMANode = 1, Siblings = []\<rparr>],
     topo_NUMANodes = [\<lparr>node_ID = 1, node_CPUs = [4, 12], Distance = [20, 10]\<rparr>]\<rparr>) =
   [(0, 1, 7, 4), (0, 1, 7, 12), (1, -1, 0, 3)]"
  by (subst tree_shows_every_cpu) (simp_all add: go_int)

section \<open>The exchange form\<close>

lemma snapshot_eta:
  "(\<lambda>c. \<lparr>cpu_ID = cpu_ID c, PackageID = PackageID c, CoreID = CoreID c, cpu_NUMANode = cpu_NUMANode c, Siblings = Siblings c\<rparr>) = (\<lambda>c :: CPU. c)"
  "(\<lambda>n. \<lparr>node_ID = node_ID n, node_CPUs = node_CPUs n, Distance = Distance n\<rparr>) = (\<lambda>n :: NUMANode. n)"
  by (simp_all add: fun_eq_iff)

text \<open>
  A topology exported as JSON and imported again is the same topology, provided the JSON library reads back the
  snapshots of this source that it wrote; the one exception is a topology with neither CPUs nor nodes,
  whose export is refused as empty.
\<close>

theorem snapshot_roundtrip:
  assumes "\<forall>s b. marshal (Some s) = Inr b \<longrightarrow> sn_Source s = source \<longrightarrow> unmarshal b = Inr s"
    and "MarshalTopologyJSON marshal (Some t) source = Inr b"
  shows "UnmarshalTopologyJSON unmarshal b = (if topo_CPUs t = [] \<and> topo_NUMANodes t = [] then Inl EmptySnapshot else Inr t)"
proof -
  obtain s where s: "ToSnapshot (Some t) source = Some s" "sn_Source s = source" by (simp add: ToSnapshot_def)
  with assms have "unmarshal b = Inr s" by (simp add: MarshalTopologyJSON_def)
  then show ?thesis using s(1) by (auto simp: UnmarshalTopologyJSON_def ToSnapshot_def comp_def snapshot_eta)
qed

text \<open>Snapshots as their own encoding, with the library's \<^verbatim>\<open>null\<close> for the missing one.\<close>

definition plain_unmarshal :: "Snapshot option \<Rightarrow> string + Snapshot" where
  "plain_unmarshal b = Inr (case b of Some s \<Rightarrow> s | None \<Rightarrow> \<lparr>sn_CPUs = [], sn_NUMANodes = [], sn_Source = []\<rparr>)"

theorem snapshot_roundtrip_witness:
  "UnmarshalTopologyJSON plain_unmarshal (ToSnapshot (Some \<lparr>topo_CPUs = [], topo_NUMANodes = [\<lparr>node_ID = 0, node_CPUs = [1], Distance = []\<rparr>]\<rparr>) ''sysfs'') =
     Inr \<lparr>topo_CPUs = [], topo_NUMANodes = [\<lparr>node_ID = 0, node_CPUs = [1], Distance = []\<rparr>]\<rparr>"
proof -
  have law: "\<forall>s b. Inr (Some s) = (Inr b :: string + Snapshot option) \<longrightarrow> sn_Source s = ''sysfs'' \<longrightarrow> plain_unmarshal b = Inr s"
    by (auto simp: plain_unmarshal_def)
  show ?thesis
    using snapshot_roundtrip [OF law, of "\<lparr>topo_CPUs = [], topo_NUMANodes = [\<lparr>node_ID = 0, node_CPUs = [1], Distance = []\<rparr>]\<rparr>"]
    by (simp add: MarshalTopologyJSON_def)
qed

end
