(* ===== verification/Discover.thy ===== *)
theory Discover
  imports Topology Go_Path
begin

text \<open>
  Topology from sysfs (pkg/topology/discover_linux.go). What the kernel's files hold is an argument, \<open>read\<close>, and so are the
  entries of the node directory; a file read twice gives the same text. A list that the parser never
  finishes with makes the result \<open>None\<close>.
\<close>

section \<open>Model\<close>

type_synonym file_reader = "string \<Rightarrow> string + string"

definition sysfsCPU :: string where
  "sysfsCPU = ''/sys/devices/system/cpu''"

definition sysfsNode :: string where
  "sysfsNode = ''/sys/devices/system/node''"

datatype discover_error = ReadPresent string | NoCPUs | LinuxOnly

definition readIntFile :: "file_reader \<Rightarrow> string \<Rightarrow> int \<Rightarrow> int" where
  "readIntFile read path d =
     (case read path of
        Inl _ \<Rightarrow> d
      | Inr b \<Rightarrow> (case atoi (trim_space b) of (v, None) \<Rightarrow> v | (_, Some _) \<Rightarrow> d))"

text \<open>
  What the two loops over the node directory do first with an entry: its id and CPU list, or \<open>Some None\<close> for
  \<^verbatim>\<open>continue\<close>.
\<close>

definition node_entry :: "file_reader \<Rightarrow> string \<times> bool \<Rightarrow> (int \<times> int list) option option" where
  "node_entry read = (\<lambda>(name, isDir).
     if \<not> has_prefix name ''node'' \<or> \<not> isDir then Some None
     else (case atoi (trim_prefix name ''node'') of
       (_, Some _) \<Rightarrow> Some None
     | (nid, None) \<Rightarrow>
         (case read (path_join [sysfsNode, name, ''cpulist'']) of
            Inl _ \<Rightarrow> Some None
          | Inr data \<Rightarrow>
              (case ParseCPUList (trim_space data) of
                 None \<Rightarrow> None
               | Some (Inl _) \<Rightarrow> Some None
               | Some (Inr l) \<Rightarrow> Some (Some (nid, l))))))"

fun numa_loop :: "file_reader \<Rightarrow> (int \<rightharpoonup> int list) \<Rightarrow> (string \<times> bool) list \<Rightarrow> (int \<rightharpoonup> int list) option" where
  "numa_loop read m [] = Some m"
| "numa_loop read m (ent # ents) =
     (case node_entry read ent of
        None \<Rightarrow> None
      | Some None \<Rightarrow> numa_loop read m ents
      | Some (Some (nid, l)) \<Rightarrow> numa_loop read (m(nid \<mapsto> l)) ents)"

text \<open>The map from CPUs to nodes; \<open>visit\<close> is the order in which \<^verbatim>\<open>range\<close> goes through the node map.\<close>

fun mark_cpus :: "int \<Rightarrow> int list \<Rightarrow> (int \<rightharpoonup> int) \<Rightarrow> (int \<rightharpoonup> int)" where
  "mark_cpus nid [] m = m"
| "mark_cpus nid (i # is) m = mark_cpus nid is (m(i \<mapsto> nid))"

fun cpu_numa_map :: "(int \<rightharpoonup> int list) \<Rightarrow> int list \<Rightarrow> (int \<rightharpoonup> int) \<Rightarrow> (int \<rightharpoonup> int)" where
  "cpu_numa_map numaCPUs [] m = m"
| "cpu_numa_map numaCPUs (nid # nids) m =
     cpu_numa_map numaCPUs nids (case numaCPUs nid of None \<Rightarrow> m | Some cpus \<Rightarrow> mark_cpus nid cpus m)"

definition sysfs_cpu :: "file_reader \<Rightarrow> (int \<rightharpoonup> int) \<Rightarrow> int \<Rightarrow> CPU option" where
  "sysfs_cpu read cpuNUMA i =
     (let topo = path_join [path_join [sysfsCPU, ''cpu'' @ itoa i], ''topology''];
          pkg = readIntFile read (path_join [topo, ''physical_package_id'']) 0;
          core = readIntFile read (path_join [topo, ''core_id'']) i;
          sibRaw = (case read (path_join [topo, ''thread_siblings_list'']) of Inl _ \<Rightarrow> [] | Inr b \<Rightarrow> b) in
      case ParseCPUList (trim_space sibRaw) of
        None \<Rightarrow> None
      | Some r \<Rightarrow>
          (let sib = (case r of Inl _ \<Rightarrow> [] | Inr l \<Rightarrow> l) in
           Some \<lparr>cpu_ID = i, PackageID = pkg, CoreID = core,
             cpu_NUMANode = (case cpuNUMA i of Some n \<Rightarrow> n | None \<Rightarrow> -1),
             Siblings = (if sib = [] then [i] else sib)\<rparr>))"

fun cpus_loop :: "file_reader \<Rightarrow> (int \<rightharpoonup> int) \<Rightarrow> int list \<Rightarrow> CPU list option" where
  "cpus_loop read cpuNUMA [] = Some []"
| "cpus_loop read cpuNUMA (i # is) =
     (case sysfs_cpu read cpuNUMA i of
        None \<Rightarrow> None
      | Some c \<Rightarrow> (case cpus_loop read cpuNUMA is of None \<Rightarrow> None | Some cs \<Rightarrow> Some (c # cs)))"

text \<open>Fields of the distance file that are no numbers count as what \<^verbatim>\<open>Atoi\<close> returns beside its error.\<close>

definition node_distance :: "file_reader \<Rightarrow> string \<Rightarrow> int list" where
  "node_distance read name =
     (case read (path_join [sysfsNode, name, ''distance'']) of
        Inl _ \<Rightarrow> []
      | Inr raw \<Rightarrow> map (\<lambda>f. fst (atoi f)) (Go_Prelude.fields (trim_space raw)))"

fun nodes_loop :: "file_reader \<Rightarrow> (string \<times> bool) list \<Rightarrow> NUMANode list option" where
  "nodes_loop read [] = Some []"
| "nodes_loop read (ent # ents) =
     (case node_entry read ent of
        None \<Rightarrow> None
      | Some None \<Rightarrow> nodes_loop read ents
      | Some (Some (nid, l)) \<Rightarrow>
          (case nodes_loop read ents of
             None \<Rightarrow> None
           | Some ns \<Rightarrow> Some (\<lparr>node_ID = nid, node_CPUs = l, Distance = node_distance read (fst ent)\<rparr> # ns)))"

definition Discover ::
  "int list \<Rightarrow> file_reader \<Rightarrow> string + (string \<times> bool) list \<Rightarrow> (discover_error + Topology) option" where
  "Discover visit read nodeDir =
     (case read (path_join [sysfsCPU, ''present'']) of
        Inl e \<Rightarrow> Some (Inl (ReadPresent e))
      | Inr raw \<Rightarrow>
        (case ParseCPUList (trim_space raw) of
           None \<Rightarrow> None
         | Some (Inl _) \<Rightarrow> Some (Inl NoCPUs)
         | Some (Inr cpuIDs) \<Rightarrow>
             if cpuIDs = [] then Some (Inl NoCPUs)
             else
               (let nodeDirs = (case nodeDir of Inl _ \<Rightarrow> [] | Inr es \<Rightarrow> es) in
                case numa_loop read Map.empty nodeDirs of
                  None \<Rightarrow> None
                | Some numaCPUs \<Rightarrow>
                  (case cpus_loop read (cpu_numa_map numaCPUs visit Map.empty) cpuIDs of
                     None \<Rightarrow> None
                   | Some cpus \<Rightarrow>
                     (case nodes_loop read nodeDirs of
                        None \<Rightarrow> None
                      | Some nodes \<Rightarrow> Some (Inr \<lparr>topo_CPUs = cpus, topo_NUMANodes = sort_key node_ID nodes\<rparr>))))))"

section \<open>The loops\<close>

text \<open>The nodes the directory shows, with their CPU lists, in directory order.\<close>

definition node_lists :: "file_reader \<Rightarrow> (string \<times> bool) list \<Rightarrow> (int \<times> int list) list" where
  "node_lists read ents = concat (map (\<lambda>e. case node_entry read e of Some (Some p) \<Rightarrow> [p] | _ \<Rightarrow> []) ents)"

text \<open>No file holds a list the parser never finishes with.\<close>

definition files_parse :: "file_reader \<Rightarrow> bool" where
  "files_parse read \<longleftrightarrow> (\<forall>p s. read p = Inr s \<longrightarrow> ParseCPUList (trim_space s) \<noteq> None)"

lemma files_parseD: "files_parse read \<Longrightarrow> read p = Inr s \<Longrightarrow> \<exists>r. ParseCPUList (trim_space s) = Some r"
  by (auto simp: files_parse_def)

lemma parse_nothing: "ParseCPUList (trim_space []) = Some (Inr [])"
  using trim_space_all_plain [of "[]"] by (simp add: ParseCPUList_def)

lemma node_entry_returns: "files_parse read \<Longrightarrow> node_entry read ent \<noteq> None"
  by (cases ent) (auto simp: node_entry_def split: prod.splits sum.splits option.splits dest: files_parseD)

lemma numa_loop_lists: "files_parse read \<Longrightarrow> numa_loop read m ents = Some (m ++ map_of (rev (node_lists read ents)))"
proof (induction ents arbitrary: m)
  case (Cons e ents)
  with node_entry_returns [of read e] show ?case
    by (cases "node_entry read e") (auto simp: node_lists_def split: option.splits)
qed (simp add: node_lists_def)

lemma nodes_loop_lists:
  "files_parse read \<Longrightarrow> \<exists>ns. nodes_loop read ents = Some ns \<and> map (\<lambda>n. (node_ID n, node_CPUs n)) ns = node_lists read ents"
proof (induction ents)
  case (Cons e ents)
  with node_entry_returns [of read e] show ?case
    by (cases "node_entry read e") (auto simp: node_lists_def split: option.splits)
qed (simp add: node_lists_def)

lemma sysfs_cpu_returns:
  "files_parse read \<Longrightarrow> \<exists>c. sysfs_cpu read m i = Some c \<and> cpu_ID c = i \<and> cpu_NUMANode c = (case m i of Some n \<Rightarrow> n | None \<Rightarrow> -1)"
  by (cases "read (path_join [path_join [path_join [sysfsCPU, ''cpu'' @ itoa i], ''topology''], ''thread_siblings_list''])")
    (auto simp: sysfs_cpu_def Let_def parse_nothing dest: files_parseD)

lemma cpus_loop_returns:
  "files_parse read \<Longrightarrow> \<exists>cs. cpus_loop read m is = Some cs \<and>
     map (\<lambda>c. (cpu_ID c, cpu_NUMANode c)) cs = map (\<lambda>i. (i, case m i of Some n \<Rightarrow> n | None \<Rightarrow> -1)) is"
proof (induction "is")
  case (Cons i "is")
  with sysfs_cpu_returns [of read m i] show ?case by auto
qed simp

lemma mark_cpus_eq: "mark_cpus nid is m = (\<lambda>i. if i \<in> set is then Some nid else m i)"
  by (induction "is" arbitrary: m) (auto simp: fun_eq_iff)

lemma cpu_numa_other:
  "\<forall>k \<in> set visit. \<forall>l. numaCPUs k = Some l \<longrightarrow> i \<notin> set l \<Longrightarrow> cpu_numa_map numaCPUs visit m i = m i"
  by (induction visit arbitrary: m) (auto simp: mark_cpus_eq split: option.split)

lemma cpu_numa_same:
  assumes "nid \<in> set visit" and "numaCPUs nid = Some l" and "i \<in> set l"
    and "\<forall>k \<in> set visit. \<forall>l'. numaCPUs k = Some l' \<longrightarrow> i \<in> set l' \<longrightarrow> k = nid"
  shows "cpu_numa_map numaCPUs visit m i = Some nid"
  using assms(1,4)
proof (induction visit arbitrary: m)
  case (Cons k ks)
  show ?case
  proof (cases "nid \<in> set ks")
    case True
    with Cons show ?thesis by simp
  next
    case False
    with Cons have k: "k = nid" by simp
    have "cpu_numa_map numaCPUs ks (mark_cpus nid l m) i = mark_cpus nid l m i"
      using False Cons.prems(2) by (intro cpu_numa_other) auto
    with assms(2,3) k show ?thesis by (simp add: mark_cpus_eq)
  qed
qed simp

text \<open>
  What sysfs shows of a machine: every CPU once in the list of present CPUs, every node once, and the nodes
  share the CPUs among them.
\<close>

definition sysfs_ok :: "int list \<Rightarrow> (int \<times> int list) list \<Rightarrow> bool" where
  "sysfs_ok ids nl \<longleftrightarrow>
     ids \<noteq> [] \<and> distinct ids \<and> distinct (map fst nl) \<and> distinct (concat (map snd nl)) \<and> set (concat (map snd nl)) \<subseteq> set ids"

lemma distinct_concat_unique:
  "distinct (concat (map snd nl)) \<Longrightarrow> (n, l) \<in> set nl \<Longrightarrow> (k, l') \<in> set nl \<Longrightarrow> i \<in> set l \<Longrightarrow> i \<in> set l' \<Longrightarrow> n = k"
  by (induction nl) (fastforce simp: image_iff)+

lemma numa_of_cpu:
  assumes "sysfs_ok ids nl" and "distinct visit" and "set visit = fst ` set nl" and "numaCPUs = map_of (rev nl)"
  shows "(n, l) \<in> set nl \<Longrightarrow> i \<in> set l \<Longrightarrow> cpu_numa_map numaCPUs visit Map.empty i = Some n"
    and "\<forall>(n, l) \<in> set nl. i \<notin> set l \<Longrightarrow> cpu_numa_map numaCPUs visit Map.empty i = None"
proof -
  have look: "numaCPUs k = Some l' \<longleftrightarrow> (k, l') \<in> set nl" for k l'
    using assms(1,4) by (simp add: sysfs_ok_def rev_map [symmetric])
  show "cpu_numa_map numaCPUs visit Map.empty i = Some n" if nl: "(n, l) \<in> set nl" "i \<in> set l"
  proof (rule cpu_numa_same)
    show "n \<in> set visit" using nl(1) assms(3) by force
    show "numaCPUs n = Some l" using nl(1) look by simp
    show "\<forall>k \<in> set visit. \<forall>l'. numaCPUs k = Some l' \<longrightarrow> i \<in> set l' \<longrightarrow> k = n"
      using look distinct_concat_unique [of nl] nl assms(1) unfolding sysfs_ok_def by blast
  qed (rule nl(2))
  show "cpu_numa_map numaCPUs visit Map.empty i = None" if "\<forall>(n, l) \<in> set nl. i \<notin> set l"
    using that look by (subst cpu_numa_other) auto
qed

lemma Discover_correct:
  assumes "files_parse read" and "read (path_join [sysfsCPU, ''present'']) = Inr raw"
    and "ParseCPUList (trim_space raw) = Some (Inr ids)" and "sysfs_ok ids (node_lists read ents)"
    and "distinct visit" and "set visit = fst ` set (node_lists read ents)"
  shows "\<exists>t. Discover visit read (Inr ents) = Some (Inr t) \<and> wf_topology t \<and> map cpu_ID (topo_CPUs t) = ids \<and>
    map (\<lambda>n. (node_ID n, node_CPUs n)) (topo_NUMANodes t) = sort_key fst (node_lists read ents) \<and>
    (\<forall>c \<in> set (topo_CPUs t). \<forall>(n, l) \<in> set (node_lists read ents). cpu_ID c \<in> set l \<longrightarrow> cpu_NUMANode c = n) \<and>
    (\<forall>c \<in> set (topo_CPUs t). (\<forall>(n, l) \<in> set (node_lists read ents). cpu_ID c \<notin> set l) \<longrightarrow> cpu_NUMANode c = -1)"
proof -
  let ?nl = "node_lists read ents"
  define m where "m = cpu_numa_map (map_of (rev ?nl)) visit Map.empty"
  have numa: "numa_loop read Map.empty ents = Some (map_of (rev ?nl))" using numa_loop_lists [OF assms(1)] by simp
  obtain ns where ns: "nodes_loop read ents = Some ns" "map (\<lambda>n. (node_ID n, node_CPUs n)) ns = ?nl"
    using nodes_loop_lists [OF assms(1)] by blast
  obtain cs where cs: "cpus_loop read m ids = Some cs"
    and ids: "map (\<lambda>c. (cpu_ID c, cpu_NUMANode c)) cs = map (\<lambda>i. (i, case m i of Some n \<Rightarrow> n | None \<Rightarrow> -1)) ids"
    using cpus_loop_returns [OF assms(1)] by blast
  define t where "t = \<lparr>topo_CPUs = cs, topo_NUMANodes = sort_key node_ID ns\<rparr>"
  have D: "Discover visit read (Inr ents) = Some (Inr t)"
    using assms(2-4) numa ns cs by (simp add: Discover_def m_def t_def sysfs_ok_def)
  have idl: "map cpu_ID cs = ids" using arg_cong [OF ids, of "map fst"] by (simp add: comp_def)
  have node: "cpu_NUMANode c = (case m (cpu_ID c) of Some n \<Rightarrow> n | None \<Rightarrow> -1)" if "c \<in> set cs" for c
    using arg_cong [OF ids, of set] that by force
  have sorted: "map (\<lambda>n. (node_ID n, node_CPUs n)) (sort_key node_ID ns) = sort_key fst ?nl"
    unfolding ns(2) [symmetric] using map_sort_key_comp [of "\<lambda>n. (node_ID n, node_CPUs n)" fst ns] by simp
  have pairs: "map node_ID (sort_key node_ID ns) = map fst (sort_key fst ?nl)"
    "map node_CPUs (sort_key node_ID ns) = map snd (sort_key fst ?nl)"
    using arg_cong [OF sorted, of "map fst"] arg_cong [OF sorted, of "map snd"] by (simp_all add: comp_def)
  have sel: "topo_CPUs t = cs" "topo_NUMANodes t = sort_key node_ID ns" by (simp_all add: t_def)
  have "wf_topology t"
    unfolding wf_topology_def sel pairs idl
    using assms(4) distinct_concat_mset [of "sort_key fst ?nl" ?nl snd] by (auto simp: sysfs_ok_def distinct_map)
  moreover have "cpu_NUMANode c = n" if "c \<in> set cs" "(n, l) \<in> set ?nl" "cpu_ID c \<in> set l" for c n l
    using node [OF that(1)] numa_of_cpu(1) [OF assms(4-6) refl that(2,3)] by (simp add: m_def)
  moreover have "cpu_NUMANode c = -1" if "c \<in> set cs" "\<forall>(n, l) \<in> set ?nl. cpu_ID c \<notin> set l" for c
    using node [OF that(1)] numa_of_cpu(2) [OF assms(4-6) refl that(2)] by (simp add: m_def)
  ultimately show ?thesis using D idl sorted by (intro exI [of _ t]) (auto simp: t_def)
qed

text \<open>
  C32. From the files of a machine whose nodes share its CPUs sysfs discovery builds a well-formed snapshot: the CPUs of the
  present list in order, the nodes with their lists in ascending order, and for every CPU the node that
  lists it, or -1; all of this whatever order the node map is visited in.
\<close>

theorem Discover_wf:
  assumes "files_parse read" and "read (path_join [sysfsCPU, ''present'']) = Inr raw"
    and "ParseCPUList (trim_space raw) = Some (Inr ids)" and "sysfs_ok ids (node_lists read ents)"
    and "distinct visit" and "set visit = fst ` set (node_lists read ents)"
  shows "\<exists>t. Discover visit read (Inr ents) = Some (Inr t) \<and> wf_topology t \<and> map cpu_ID (topo_CPUs t) = ids \<and>
    map (\<lambda>n. (node_ID n, node_CPUs n)) (topo_NUMANodes t) = sort_key fst (node_lists read ents) \<and>
    (\<forall>c \<in> set (topo_CPUs t). \<forall>(n, l) \<in> set (node_lists read ents). cpu_ID c \<in> set l \<longrightarrow> cpu_NUMANode c = n) \<and>
    (\<forall>c \<in> set (topo_CPUs t). (\<forall>(n, l) \<in> set (node_lists read ents). cpu_ID c \<notin> set l) \<longrightarrow> cpu_NUMANode c = -1)"
  by (rule Discover_correct [OF assms])

text \<open>A machine with two CPUs on two nodes, whose other files cannot be read.\<close>

definition demo_sysfs :: file_reader where
  "demo_sysfs p =
     (if p = path_join [sysfsCPU, ''present''] then Inr ''0-1''
      else if p = path_join [sysfsNode, ''node0'', ''cpulist''] then Inr ''1''
      else if p = path_join [sysfsNode, ''node1'', ''cpulist''] then Inr ''0''
      else Inl ''ENOENT'')"

definition demo_dir :: "(string \<times> bool) list" where
  "demo_dir = [(''node1'', True), (''online'', False), (''node0'', True)]"

lemma demo_parses: "ParseCPUList (trim_space ''0-1'') = Some (Inr [0, 1])" "ParseCPUList (trim_space ''1'') = Some (Inr [1])"
  "ParseCPUList (trim_space ''0'') = Some (Inr [0])"
  by code_simp+

theorem Discover_wf_witness:
  "\<exists>t. Discover [0, 1] demo_sysfs (Inr demo_dir) = Some (Inr t) \<and> wf_topology t \<and> map cpu_ID (topo_CPUs t) = [0, 1]"
proof -
  have fp: "files_parse demo_sysfs" by (auto simp: files_parse_def demo_sysfs_def demo_parses split: if_splits)
  have raw: "demo_sysfs (path_join [sysfsCPU, ''present'']) = Inr ''0-1''" by (simp add: demo_sysfs_def)
  have nl: "node_lists demo_sysfs demo_dir = [(1, [0]), (0, [1])]" by code_simp
  have ok: "sysfs_ok [0, 1] (node_lists demo_sysfs demo_dir)" by (simp add: nl sysfs_ok_def)
  have v: "set [0, 1 :: int] = fst ` set (node_lists demo_sysfs demo_dir)" by (auto simp: nl)
  from Discover_wf [OF fp raw demo_parses(1) ok _ v] show ?thesis by auto
qed

end
