(* ===== verification/Hwloc.thy ===== *)
theory Hwloc
  imports Topology
begin

text \<open>
  Topology from hwloc (pkg/hwloc/parse.go): the walk over the exported object tree, the snapshot built from it, and
  the command-line tools tried for the export. The XML decoder and the tools are arguments.
\<close>

section \<open>Model\<close>

datatype xmlObj = XmlObj (xo_Type: string) (xo_OsIndex: "int option") (xo_Object: "xmlObj list")

definition deref :: "int option \<Rightarrow> int \<Rightarrow> int" where
  "deref p d = (case p of None \<Rightarrow> d | Some v \<Rightarrow> v)"

record puRec =
  rc_pu :: int
  rc_pkg :: int
  rc_numa :: int
  rc_core :: int

text \<open>
  The two pointers \<^verbatim>\<open>nextCore\<close> and \<^verbatim>\<open>out\<close> are a pair that the walk passes on; the switch gives the context of the
  children and the new pair.
\<close>

definition walk_switch ::
  "int \<Rightarrow> int \<Rightarrow> int \<Rightarrow> string \<Rightarrow> int option \<Rightarrow> int \<times> puRec list \<Rightarrow> (int \<times> int \<times> int) \<times> int \<times> puRec list" where
  "walk_switch pkg numa core ty ix = (\<lambda>(nextCore, out).
     if ty = ''Package'' then ((deref ix pkg, numa, core), nextCore, out)
     else if ty = ''NUMANode'' then ((pkg, deref ix numa, core), nextCore, out)
     else if ty = ''Core'' then
       (let coreN = deref ix nextCore in ((pkg, numa, coreN), wrap64 (coreN + 1), out))
     else if ty = ''PU'' then
       (let pu = deref ix (-1) in
        ((pkg, numa, core), nextCore,
         if pu \<ge> 0 then out @ [\<lparr>rc_pu = pu, rc_pkg = pkg, rc_numa = numa, rc_core = core\<rparr>] else out))
     else ((pkg, numa, core), nextCore, out))"

fun walk :: "int \<Rightarrow> int \<Rightarrow> int \<Rightarrow> xmlObj \<Rightarrow> int \<times> puRec list \<Rightarrow> int \<times> puRec list"
  and walks :: "int \<Rightarrow> int \<Rightarrow> int \<Rightarrow> xmlObj list \<Rightarrow> int \<times> puRec list \<Rightarrow> int \<times> puRec list" where
  "walk pkg numa core (XmlObj ty ix objs) st =
     (case walk_switch pkg numa core ty ix st of
        ((pkgN, numaN, coreN), st1) \<Rightarrow> walks pkgN numaN coreN objs st1)"
| "walks pkg numa core [] st = st"
| "walks pkg numa core (ob # obs) st = walks pkg numa core obs (walk pkg numa core ob st)"

text \<open>
  \<^verbatim>\<open>ReplaceAll\<close> with the pattern of white space followed by an \<^verbatim>\<open>xmlns\<close> attribute. After the white space comes a
  letter, so a match takes a whole run of white space and starts at its first character.
\<close>

definition re_space :: "char \<Rightarrow> bool" where
  "re_space c \<longleftrightarrow> c \<in> {CHR 0x09, CHR 0x0A, CHR 0x0C, CHR 0x0D, CHR 0x20}"

definition xmlns_match :: "string \<Rightarrow> string option" where
  "xmlns_match s =
     (let rest = dropWhile re_space s; open = ''xmlns='' @ [CHR 0x22] in
      if has_prefix rest open
      then (case dropWhile (\<lambda>c. c \<noteq> CHR 0x22) (drop (length open) rest) of [] \<Rightarrow> None | _ # after \<Rightarrow> Some after)
      else None)"

lemma xmlns_match_shorter: "xmlns_match s = Some t \<Longrightarrow> length t < length s"
proof -
  assume m: "xmlns_match s = Some t"
  let ?d = "drop (length (''xmlns='' @ [CHR 0x22])) (dropWhile re_space s)"
  from m obtain c where "dropWhile (\<lambda>c. c \<noteq> CHR 0x22) ?d = c # t"
    by (auto simp: xmlns_match_def Let_def split: if_splits list.splits)
  then have "Suc (length t) \<le> length ?d" by (metis length_Cons length_dropWhile_le)
  also have "\<dots> \<le> length s" using length_dropWhile_le [of re_space s] by simp
  finally show ?thesis by simp
qed

function xmlnsStrip :: "string \<Rightarrow> string" where
  "xmlnsStrip [] = []"
| "xmlnsStrip (c # cs) =
     (if re_space c
      then (case xmlns_match (c # cs) of
              Some t \<Rightarrow> xmlnsStrip t
            | None \<Rightarrow> takeWhile re_space (c # cs) @ xmlnsStrip (dropWhile re_space (c # cs)))
      else c # xmlnsStrip cs)"
  by pat_completeness auto

termination
  by (relation "measure length") (auto dest: xmlns_match_shorter simp: less_Suc_eq_le length_dropWhile_le)

datatype hwloc_error =
    BadXML string
  | NoPU
  | ExporterFailed string
  | NoExporter

definition max0 :: "int \<Rightarrow> int" where
  "max0 v = (if v < 0 then 0 else v)"

definition rec_cpu :: "puRec \<Rightarrow> CPU" where
  "rec_cpu r = \<lparr>cpu_ID = rc_pu r, PackageID = max0 (rc_pkg r),
     CoreID = (if rc_core r < 0 then rc_pu r else rc_core r), cpu_NUMANode = rc_numa r, Siblings = [rc_pu r]\<rparr>"

text \<open>The value of \<^verbatim>\<open>numaMap\<close> at a node, and its keys; the keys are sorted in the end, so their order does not matter.\<close>

definition numa_pus :: "puRec list \<Rightarrow> int \<Rightarrow> int list" where
  "numa_pus recs nid = map rc_pu (filter (\<lambda>r. rc_numa r = nid) recs)"

definition numa_keys :: "puRec list \<Rightarrow> int list" where
  "numa_keys recs = uniq_loop {} (filter (\<lambda>n. n \<ge> 0) (map rc_numa recs))"

definition hwloc_node :: "puRec list \<Rightarrow> int \<Rightarrow> NUMANode" where
  "hwloc_node recs nid = \<lparr>node_ID = nid, node_CPUs = sort (numa_pus recs nid), Distance = []\<rparr>"

definition TopologyFromXML :: "(string \<Rightarrow> string + xmlObj list) \<Rightarrow> string \<Rightarrow> hwloc_error + Topology" where
  "TopologyFromXML decode xmlData =
     (case decode (xmlnsStrip xmlData) of
        Inl e \<Rightarrow> Inl (BadXML e)
      | Inr objs \<Rightarrow>
          (let recs0 = snd (walks (-1) (-1) (-1) objs (0, [])) in
           if recs0 = [] then Inl NoPU
           else
             (let recs = sort_key rc_pu recs0 in
              Inr \<lparr>topo_CPUs = map rec_cpu recs,
                   topo_NUMANodes = sort_key node_ID (map (hwloc_node recs) (numa_keys recs))\<rparr>)))"

text \<open>\<open>run argv\<close> is the output of a command or its error.\<close>

definition exporters :: "string list list" where
  "exporters = [[''hwloc-ls'', ''--no-io'', ''--of'', ''xml''], [''lstopo-no-graphics'', ''--no-io'', ''--of'', ''xml''],
     [''lstopo'', ''--no-io'', ''--of'', ''xml'']]"

fun try_exporters :: "(string list \<Rightarrow> string + string) \<Rightarrow> (string \<Rightarrow> string + xmlObj list) \<Rightarrow>
    string option \<Rightarrow> string list list \<Rightarrow> hwloc_error + Topology" where
  "try_exporters run decode lastErr [] = (case lastErr of Some e \<Rightarrow> Inl (ExporterFailed e) | None \<Rightarrow> Inl NoExporter)"
| "try_exporters run decode lastErr (argv # argvs) =
     (case run argv of
        Inl e \<Rightarrow> try_exporters run decode (Some e) argvs
      | Inr out \<Rightarrow> TopologyFromXML decode out)"

definition DiscoverCLI :: "(string list \<Rightarrow> string + string) \<Rightarrow> (string \<Rightarrow> string + xmlObj list) \<Rightarrow> hwloc_error + Topology" where
  "DiscoverCLI run decode = try_exporters run decode None exporters"

section \<open>The walk\<close>

text \<open>The processing units of an object, in document order.\<close>

fun pus :: "xmlObj \<Rightarrow> int list" where
  "pus (XmlObj ty ix objs) =
     (if ty = ''PU'' \<and> deref ix (-1) \<ge> 0 then [deref ix (-1)] else []) @ concat (map pus objs)"

lemma walk_switch_pu:
  assumes "walk_switch pkg numa core ty ix st = ((p, n, c), st1)"
  shows "\<exists>ext. snd st1 = snd st @ ext \<and> (\<forall>r \<in> set ext. rc_numa r = numa) \<and>
    map rc_pu ext = (if ty = ''PU'' \<and> deref ix (-1) \<ge> 0 then [deref ix (-1)] else [])"
    and "ty \<noteq> ''NUMANode'' \<Longrightarrow> n = numa"
  using assms by (cases st; force simp: walk_switch_def Let_def split: if_splits)+

lemma walk_pus:
  "map rc_pu (snd (walk pkg numa core ob st)) = map rc_pu (snd st) @ pus ob"
  "map rc_pu (snd (walks pkg numa core obs st)) = map rc_pu (snd st) @ concat (map pus obs)"
proof (induction pkg numa core ob st and pkg numa core obs st rule: walk_walks.induct)
  case (1 pkg numa core ty ix objs st)
  obtain p n c st1 where sw: "walk_switch pkg numa core ty ix st = ((p, n, c), st1)" by (metis surj_pair)
  with 1 walk_switch_pu(1) [OF sw] show ?case by auto
qed simp_all

lemma walk_append:
  "\<exists>ext. snd (walk pkg numa core ob st) = snd st @ ext"
  "\<exists>ext. snd (walks pkg numa core obs st) = snd st @ ext"
proof (induction pkg numa core ob st and pkg numa core obs st rule: walk_walks.induct)
  case (1 pkg numa core ty ix objs st)
  obtain p n c st1 where sw: "walk_switch pkg numa core ty ix st = ((p, n, c), st1)" by (metis surj_pair)
  obtain e where "snd st1 = snd st @ e" using walk_switch_pu(1) [OF sw] by blast
  moreover obtain e' where "snd (walks p n c objs st1) = snd st1 @ e'" using 1 [OF sw [symmetric] refl refl] by blast
  ultimately show ?case using sw by simp
next
  case (3 pkg numa core ob obs st)
  then show ?case by (metis append_assoc walks.simps(2))
qed simp

lemma walks_no_pu:
  assumes "concat (map pus obs) = []"
  shows "snd (walks pkg numa core obs st) = snd st"
proof -
  obtain ext where e: "snd (walks pkg numa core obs st) = snd st @ ext" using walk_append(2) by blast
  with walk_pus(2) [of pkg numa core obs st] assms have "map rc_pu ext = []" by simp
  with e show ?thesis by simp
qed

text \<open>Where no NUMA node has processing units below it, the walk never learns a node.\<close>

fun detached :: "xmlObj \<Rightarrow> bool" where
  "detached (XmlObj ty ix objs) \<longleftrightarrow>
     (if ty = ''NUMANode'' then concat (map pus objs) = [] else list_all detached objs)"

lemma walk_detached:
  "detached ob \<Longrightarrow> \<forall>r \<in> set (snd st). rc_numa r = numa \<Longrightarrow> \<forall>r \<in> set (snd (walk pkg numa core ob st)). rc_numa r = numa"
  "list_all detached obs \<Longrightarrow> \<forall>r \<in> set (snd st). rc_numa r = numa \<Longrightarrow>
     \<forall>r \<in> set (snd (walks pkg numa core obs st)). rc_numa r = numa"
proof (induction pkg numa core ob st and pkg numa core obs st rule: walk_walks.induct)
  case (1 pkg numa core ty ix objs st)
  obtain p n c st1 where sw: "walk_switch pkg numa core ty ix st = ((p, n, c), st1)" by (metis surj_pair)
  from walk_switch_pu(1) [OF sw] 1(3) have st1: "\<forall>r \<in> set (snd st1). rc_numa r = numa" by auto
  show ?case
  proof (cases "ty = ''NUMANode''")
    case True
    with 1(2) have "snd (walks p n c objs st1) = snd st1" by (intro walks_no_pu) simp
    with sw st1 show ?thesis by simp
  next
    case False
    with walk_switch_pu(2) [OF sw] 1 st1 sw show ?thesis by simp
  qed
next
  case (3 pkg numa core ob obs st)
  have d: "detached ob" "list_all detached obs" using 3(3) by (simp_all only: list.pred_inject(2))
  show ?case unfolding walks.simps by (rule 3(2) [OF d(2) 3(1) [OF d(1) 3(4)]])
qed simp

section \<open>The snapshot\<close>

definition hwloc_topology :: "puRec list \<Rightarrow> Topology" where
  "hwloc_topology recs = \<lparr>topo_CPUs = map rec_cpu recs,
     topo_NUMANodes = sort_key node_ID (map (hwloc_node recs) (numa_keys recs))\<rparr>"

lemma TopologyFromXML_eq:
  assumes "decode (xmlnsStrip xml) = Inr objs" and "concat (map pus objs) \<noteq> []"
  shows "TopologyFromXML decode xml = Inr (hwloc_topology (sort_key rc_pu (snd (walks (-1) (-1) (-1) objs (0, [])))))"
proof -
  have "snd (walks (-1) (-1) (-1) objs (0, [])) \<noteq> []"
    using walk_pus(2) [of "-1" "-1" "-1" objs "(0, [])"] assms(2) by auto
  then show ?thesis by (simp add: TopologyFromXML_def assms(1) hwloc_topology_def Let_def)
qed

lemma rec_cpu_simps [simp]: "cpu_ID (rec_cpu r) = rc_pu r" "cpu_NUMANode (rec_cpu r) = rc_numa r"
  "node_ID (hwloc_node recs k) = k"
  by (simp_all add: rec_cpu_def hwloc_node_def)

lemma hwloc_nodes:
  "n \<in> set (topo_NUMANodes (hwloc_topology recs)) \<longleftrightarrow> (\<exists>r \<in> set recs. 0 \<le> rc_numa r \<and> n = hwloc_node recs (rc_numa r))"
  by (auto simp: hwloc_topology_def numa_keys_def)

lemma set_hwloc_node: "set (node_CPUs (hwloc_node recs nid)) = rc_pu ` {r \<in> set recs. rc_numa r = nid}"
  by (auto simp: hwloc_node_def numa_pus_def)

lemma hwloc_wf:
  assumes "distinct (map rc_pu recs)"
  shows "wf_topology (hwloc_topology recs)"
  unfolding wf_topology_def
proof (intro conjI)
  let ?t = "hwloc_topology recs"
  have ids: "map cpu_ID (topo_CPUs ?t) = map rc_pu recs" by (simp add: hwloc_topology_def rec_cpu_def)
  show "distinct (map cpu_ID (topo_CPUs ?t))" using assms ids by simp
  have "map node_ID (topo_NUMANodes ?t) = sort (numa_keys recs)"
    by (simp add: hwloc_topology_def map_sort_key comp_def hwloc_node_def)
  then show nodes: "distinct (map node_ID (topo_NUMANodes ?t))" by (simp add: numa_keys_def)
  show "distinct (concat (map node_CPUs (topo_NUMANodes ?t)))"
  proof (rule distinct_concat_map)
    show "distinct (topo_NUMANodes ?t)" using nodes by (simp add: distinct_map)
    show "\<forall>n \<in> set (topo_NUMANodes ?t). distinct (node_CPUs n)"
      using assms by (auto simp: hwloc_nodes hwloc_node_def numa_pus_def distinct_map inj_on_def)
    show "\<forall>n \<in> set (topo_NUMANodes ?t). \<forall>m \<in> set (topo_NUMANodes ?t). n \<noteq> m \<longrightarrow> set (node_CPUs n) \<inter> set (node_CPUs m) = {}"
      using assms by (auto simp: hwloc_nodes set_hwloc_node distinct_map inj_on_def) metis
  qed
  show "set (concat (map node_CPUs (topo_NUMANodes ?t))) \<subseteq> set (map cpu_ID (topo_CPUs ?t))"
    unfolding ids by (auto simp: hwloc_nodes set_hwloc_node)
qed

text \<open>
  C34. From an export in which no processing unit occurs twice hwloc gives a well-formed snapshot: its CPUs are exactly
  the processing units, in ascending order, package ids are not negative, and the NUMA nodes and the
  CPUs' own node ids agree: a node lists exactly the CPUs that name it, and every node named is listed.
\<close>

theorem hwloc_snapshot_wf:
  assumes "decode (xmlnsStrip xml) = Inr objs" and "concat (map pus objs) \<noteq> []" and "distinct (concat (map pus objs))"
  shows "\<exists>t. TopologyFromXML decode xml = Inr t \<and> wf_topology t \<and> map cpu_ID (topo_CPUs t) = sort (concat (map pus objs)) \<and>
    (\<forall>c \<in> set (topo_CPUs t). 0 \<le> PackageID c \<and>
       (0 \<le> cpu_NUMANode c \<longrightarrow> (\<exists>n \<in> set (topo_NUMANodes t). node_ID n = cpu_NUMANode c))) \<and>
    (\<forall>n \<in> set (topo_NUMANodes t). set (node_CPUs n) = cpu_ID ` {c \<in> set (topo_CPUs t). cpu_NUMANode c = node_ID n})"
proof -
  define recs where "recs = sort_key rc_pu (snd (walks (-1) (-1) (-1) objs (0, [])))"
  have ids: "map rc_pu recs = sort (concat (map pus objs))"
    using walk_pus(2) [of "-1" "-1" "-1" objs "(0, [])"] by (simp add: recs_def map_sort_key)
  have cpus: "topo_CPUs (hwloc_topology recs) = map rec_cpu recs" by (simp add: hwloc_topology_def)
  have "wf_topology (hwloc_topology recs)" using assms(3) ids by (intro hwloc_wf) simp
  moreover have "map cpu_ID (topo_CPUs (hwloc_topology recs)) = sort (concat (map pus objs))"
    unfolding cpus using ids by (simp add: rec_cpu_def comp_def)
  moreover have "0 \<le> PackageID c \<and> (0 \<le> cpu_NUMANode c \<longrightarrow> (\<exists>n \<in> set (topo_NUMANodes (hwloc_topology recs)). node_ID n = cpu_NUMANode c))"
    if "c \<in> set (topo_CPUs (hwloc_topology recs))" for c
  proof -
    obtain r where r: "r \<in> set recs" "c = rec_cpu r" using \<open>c \<in> _\<close> by (auto simp: cpus)
    have "hwloc_node recs (rc_numa r) \<in> set (topo_NUMANodes (hwloc_topology recs))" if "0 \<le> rc_numa r"
      using r(1) that by (auto simp: hwloc_nodes)
    then show ?thesis using r(2) by (force simp: rec_cpu_def max0_def hwloc_node_def)
  qed
  moreover have "set (node_CPUs n) = cpu_ID ` {c \<in> set (topo_CPUs (hwloc_topology recs)). cpu_NUMANode c = node_ID n}"
    if "n \<in> set (topo_NUMANodes (hwloc_topology recs))" for n
  proof -
    obtain k where "n = hwloc_node recs k" using \<open>n \<in> _\<close> by (auto simp: hwloc_nodes)
    moreover have "{c \<in> rec_cpu ` set recs. cpu_NUMANode c = k} = rec_cpu ` {r \<in> set recs. rc_numa r = k}" by auto
    ultimately show ?thesis by (simp add: set_hwloc_node cpus image_image)
  qed
  ultimately show ?thesis using TopologyFromXML_eq [of decode xml, OF assms(1,2)] unfolding recs_def [symmetric] by blast
qed

text \<open>
  An export of hwloc 2 loses its NUMA nodes. There the nodes hang beside the cores as memory children without
  processing units below them (hwloc's own documentation); the walk looks for nodes above a processing
  unit only, so the snapshot has no NUMA node and every CPU has the node id of an unknown node.
\<close>

theorem hwloc2_loses_numa:
  assumes "decode (xmlnsStrip xml) = Inr objs" and "concat (map pus objs) \<noteq> []" and "list_all detached objs"
  shows "\<exists>t. TopologyFromXML decode xml = Inr t \<and> topo_NUMANodes t = [] \<and> (\<forall>c \<in> set (topo_CPUs t). cpu_NUMANode c = -1)"
proof -
  define recs where "recs = sort_key rc_pu (snd (walks (-1) (-1) (-1) objs (0, [])))"
  have "\<forall>r \<in> set recs. rc_numa r = -1"
    using walk_detached(2) [OF assms(3), of "(0, [])" "-1" "-1" "-1"] by (simp add: recs_def)
  then have "topo_NUMANodes (hwloc_topology recs) = []" "\<forall>c \<in> set (topo_CPUs (hwloc_topology recs)). cpu_NUMANode c = -1"
    by (auto simp: hwloc_topology_def numa_keys_def filter_empty_conv)
  then show ?thesis using TopologyFromXML_eq [of decode xml, OF assms(1,2)] unfolding recs_def [symmetric] by blast
qed

definition pu_obj :: "int \<Rightarrow> xmlObj" where
  "pu_obj i = XmlObj ''PU'' (Some i) []"

text \<open>The same machine as hwloc 1 and as hwloc 2 export it.\<close>

definition hwloc1_export :: "xmlObj list" where
  "hwloc1_export = [XmlObj ''Machine'' (Some 0) [XmlObj ''Package'' (Some 0) [XmlObj ''NUMANode'' (Some 0)
     [XmlObj ''Core'' (Some 0) [pu_obj 1, pu_obj 0]]]]]"

definition hwloc2_export :: "xmlObj list" where
  "hwloc2_export = [XmlObj ''Machine'' (Some 0) [XmlObj ''Package'' (Some 0) [XmlObj ''NUMANode'' (Some 0) [],
     XmlObj ''Core'' (Some 0) [pu_obj 1, pu_obj 0]]]]"

lemma export_pus: "concat (map pus hwloc1_export) = [1, 0]" "concat (map pus hwloc2_export) = [1, 0]"
  by (simp_all add: hwloc1_export_def hwloc2_export_def pu_obj_def deref_def)

theorem hwloc_snapshot_wf_witness:
  "\<exists>t. TopologyFromXML (\<lambda>_. Inr hwloc1_export) ''x'' = Inr t \<and> wf_topology t \<and> map cpu_ID (topo_CPUs t) = [0, 1]"
proof -
  have "concat (map pus hwloc1_export) \<noteq> []" "distinct (concat (map pus hwloc1_export))" by (simp_all add: export_pus)
  from hwloc_snapshot_wf [of "\<lambda>_. Inr hwloc1_export" "''x''", OF refl this] show ?thesis by (auto simp: export_pus)
qed

theorem hwloc2_loses_numa_witness:
  "\<exists>t. TopologyFromXML (\<lambda>_. Inr hwloc2_export) ''x'' = Inr t \<and> topo_NUMANodes t = []"
proof -
  have "concat (map pus hwloc2_export) \<noteq> []" by (simp add: export_pus)
  moreover have "list_all detached hwloc2_export" by (simp add: hwloc2_export_def pu_obj_def)
  ultimately show ?thesis using hwloc2_loses_numa [of "\<lambda>_. Inr hwloc2_export" "''x''" hwloc2_export] by blast
qed

end
