(* ===== verification/Dashboard.thy ===== *)
theory Dashboard
  imports Go_Path Go_Net
begin

text \<open>
  The HTTP dashboard (pkg/dashboard/server.go, health.go, meta.go): argument checks, the command
  endpoint, the address filter, the token check, and how the server puts them together.

  A handler maps a request to a response and the commands it runs. What Go's libraries and the
  machine answer is the record \<open>web_env\<close>: JSON decoding of the body, random bytes,
  the clock, the outcome of a command, and the embedded files.
\<close>

section \<open>Model: requests and responses\<close>

record http_request =
  rq_Method :: string
  rq_Path :: string
  rq_RemoteAddr :: string
  rq_Authorization :: string
  rq_Body :: string

record ExecRequest =
  er_Argv :: "string list"
  er_TimeoutSec :: int

datatype argv_error =
    EmptyArgs
  | TooManyArgs
  | NotAllowed string
  | ArgTooLong
  | InvalidArg

text \<open>The error text of a response: none, that of the argument check, or that of the failed run.\<close>

datatype resp_error = NoError | ArgvError argv_error | RunError string

record ExecResponse =
  xr_Stdout :: string
  xr_Stderr :: string
  xr_ExitCode :: int
  xr_DurationMs :: int
  xr_Error :: resp_error
  xr_RequestID :: string
  xr_ServerTime :: string

record healthResponse =
  hr_Status :: string
  hr_Service :: string
  hr_Version :: string
  hr_TimeUTC :: string

datatype body =
    TextBody string
  | ExecBody ExecResponse
  | HealthBody healthResponse
  | StaticBody string
  | RedirectBody string

record http_response =
  rs_Status :: int
  rs_Headers :: "(string \<times> string) list"
  rs_Body :: body

text \<open>A command run by the server: program, arguments, time limit in nanoseconds.\<close>

record exec_call =
  xc_Binary :: string
  xc_Argv :: "string list"
  xc_Timeout :: int

datatype run_outcome = RunOK | RunExit int string | RunFailed string

record web_env =
  we_decode :: "string \<Rightarrow> ExecRequest option"
  we_rand :: "8 word list option"
  we_nanos :: int
  we_now :: string
  we_later :: string
  we_run :: "exec_call \<Rightarrow> run_outcome \<times> string \<times> string \<times> int"
  we_static :: "string \<Rightarrow> int \<times> string"
  we_buildInfo :: "(string \<times> (string \<times> string) list) option"

type_synonym handler = "http_request \<Rightarrow> http_response \<times> exec_call list"

definition http_error :: "string \<Rightarrow> int \<Rightarrow> http_response \<times> exec_call list" where
  "http_error msg code = (\<lparr>rs_Status = code, rs_Headers = [], rs_Body = TextBody msg\<rparr>, [])"

section \<open>Model: server.go\<close>

definition qmark :: string where
  "qmark = [CHR 0x22]"

definition allowedRoots :: "string list" where
  "allowedRoots = [''topology'', ''topo'', ''run'', ''dag'', ''shm'', ''perf'', ''plasma'', ''hugepages'', ''help'', ''-h'', ''--help'']"

definition second :: int where
  "second = 1000000000"

definition execDuration :: "int \<Rightarrow> int" where
  "execDuration timeoutSec =
     (if timeoutSec \<le> 0 then 180 * second
      else
        (let t1 = (if timeoutSec < 10 then 10 else timeoutSec);
             t2 = (if t1 > 7200 then 7200 else t1) in
         wrap64 (t2 * second)))"

fun validate_args :: "string list \<Rightarrow> argv_error option" where
  "validate_args [] = None"
| "validate_args (a # as) =
     (if length a > 4096 then Some ArgTooLong
      else if CHR 0x00 \<in> set a then Some InvalidArg
      else validate_args as)"

definition validateArgv :: "string list \<Rightarrow> argv_error option" where
  "validateArgv argv =
     (case argv of
        [] \<Rightarrow> Some EmptyArgs
      | root # _ \<Rightarrow>
          if length argv > 48 then Some TooManyArgs
          else if root \<notin> set allowedRoots then Some (NotAllowed root)
          else validate_args argv)"

text \<open>Ten random bytes, or the clock when there are none.\<close>

definition newRequestID :: "web_env \<Rightarrow> string" where
  "newRequestID env =
     (case we_rand env of None \<Rightarrow> ''nf'' @ itoa (we_nanos env) | Some b \<Rightarrow> hex_encode b)"

text \<open>The body is read through a limit of 1 MiB.\<close>

definition execHandler :: "web_env \<Rightarrow> string \<Rightarrow> handler" where
  "execHandler env binary r =
     (if rq_Method r \<noteq> ''POST'' then http_error ''method not allowed'' 405
      else (case we_decode env (take (2 ^ 20) (rq_Body r)) of
        None \<Rightarrow> http_error ''bad json'' 400
      | Some req \<Rightarrow>
          (let rid = newRequestID env;
               hdrs = [(''X-Request-ID'', rid), (''Content-Type'', ''application/json'')] in
           case validateArgv (er_Argv req) of
             Some e \<Rightarrow>
               (\<lparr>rs_Status = 400, rs_Headers = hdrs,
                 rs_Body = ExecBody \<lparr>xr_Stdout = [], xr_Stderr = [], xr_ExitCode = -1, xr_DurationMs = 0,
                   xr_Error = ArgvError e, xr_RequestID = rid, xr_ServerTime = we_now env\<rparr>\<rparr>, [])
           | None \<Rightarrow>
               (let call = \<lparr>xc_Binary = binary, xc_Argv = er_Argv req, xc_Timeout = execDuration (er_TimeoutSec req)\<rparr> in
                case we_run env call of
                  (res, out, err, ms) \<Rightarrow>
                    (let exit = (case res of RunOK \<Rightarrow> 0 | RunExit c _ \<Rightarrow> c | RunFailed _ \<Rightarrow> -1);
                         msg = (case res of RunOK \<Rightarrow> NoError | RunExit c m \<Rightarrow> if c = -1 then RunError m else NoError
                           | RunFailed m \<Rightarrow> RunError m) in
                     (\<lparr>rs_Status = 200, rs_Headers = hdrs,
                       rs_Body = ExecBody \<lparr>xr_Stdout = out, xr_Stderr = err, xr_ExitCode = exit, xr_DurationMs = ms,
                         xr_Error = msg, xr_RequestID = rid, xr_ServerTime = we_later env\<rparr>\<rparr>, [call]))))))"

text \<open>The error is the text that is no network.\<close>

fun parseAllowedNetworks :: "string list \<Rightarrow> string + IPNet list" where
  "parseAllowedNetworks [] = Inr []"
| "parseAllowedNetworks (raw0 # cidrs) =
     (let raw = trim_space raw0 in
      if raw = [] then parseAllowedNetworks cidrs
      else (case ParseCIDR raw of
              None \<Rightarrow> Inl raw
            | Some n \<Rightarrow>
                (case parseAllowedNetworks cidrs of Inl e \<Rightarrow> Inl e | Inr ns \<Rightarrow> Inr (n # ns))))"

definition ipAllowMiddleware :: "IPNet list \<Rightarrow> handler \<Rightarrow> handler" where
  "ipAllowMiddleware allowed next =
     (if allowed = [] then next
      else (\<lambda>r.
        case SplitHost (rq_RemoteAddr r) of
          None \<Rightarrow> http_error ''forbidden'' 403
        | Some host \<Rightarrow>
            (case ParseIP host of
               None \<Rightarrow> http_error ''forbidden'' 403
             | Some ip \<Rightarrow>
                 if \<not> list_ex (\<lambda>n. ipnet_Contains n ip) allowed then http_error ''forbidden'' 403
                 else next r)))"

definition bearerAuthMiddleware :: "string \<Rightarrow> handler \<Rightarrow> handler" where
  "bearerAuthMiddleware token0 next =
     (let token = trim_space token0 in
      if token = [] then next
      else (\<lambda>r.
        if rq_Path r = ''/api/exec'' \<and> rq_Method r = ''POST'' \<and> rq_Authorization r \<noteq> ''Bearer '' @ token then
          (\<lparr>rs_Status = 401, rs_Headers = [(''WWW-Authenticate'', ''Bearer realm='' @ qmark @ ''nexusflow'' @ qmark @ '', charset='' @ qmark @ ''UTF-8'' @ qmark)],
            rs_Body = TextBody ''unauthorized''\<rparr>, [])
        else next r))"

section \<open>Model: health.go, meta.go\<close>

fun vcs_version :: "(string \<times> string) list \<Rightarrow> string" where
  "vcs_version [] = ''dev''"
| "vcs_version ((k, v) # ss) =
     (if k = ''vcs.revision'' \<and> length v \<ge> 7 then ''devel-'' @ take 7 v else vcs_version ss)"

definition BinaryVersion :: "web_env \<Rightarrow> string" where
  "BinaryVersion env =
     (case we_buildInfo env of
        None \<Rightarrow> ''unknown''
      | Some (v, settings) \<Rightarrow> if v \<noteq> [] \<and> v \<noteq> ''(devel)'' then v else vcs_version settings)"

definition healthHandler :: "web_env \<Rightarrow> handler" where
  "healthHandler env r =
     (if rq_Method r \<noteq> ''GET'' \<and> rq_Method r \<noteq> ''HEAD'' then http_error ''method not allowed'' 405
      else
        (\<lparr>rs_Status = 200, rs_Headers = [(''Content-Type'', ''application/json''), (''Cache-Control'', ''no-store'')],
          rs_Body = HealthBody \<lparr>hr_Status = ''ok'', hr_Service = ''nexusflow-dashboard'',
            hr_Version = BinaryVersion env, hr_TimeUTC = we_now env\<rparr>\<rparr>, []))"

section \<open>Model: the server\<close>

text \<open>
  \<^verbatim>\<open>http.ServeMux\<close> on the four patterns: a path that is not clean is redirected, except for \<^verbatim>\<open>CONNECT\<close>.
\<close>

definition mux_clean :: "string \<Rightarrow> string" where
  "mux_clean p0 =
     (if p0 = [] then ''/''
      else
        (let p = (if hd p0 = CHR ''/'' then p0 else CHR ''/'' # p0); np = path_clean p in
         if last p = CHR ''/'' \<and> np \<noteq> ''/'' then np @ ''/'' else np))"

definition mux :: "web_env \<Rightarrow> string \<Rightarrow> handler" where
  "mux env binary r =
     (if rq_Method r \<noteq> ''CONNECT'' \<and> mux_clean (rq_Path r) \<noteq> rq_Path r then
        (\<lparr>rs_Status = 301, rs_Headers = [], rs_Body = RedirectBody (mux_clean (rq_Path r))\<rparr>, [])
      else if rq_Path r = ''/healthz'' \<or> rq_Path r = ''/health'' then healthHandler env r
      else if rq_Path r = ''/api/exec'' then execHandler env binary r
      else (case we_static env (rq_Path r) of
              (code, content) \<Rightarrow> (\<lparr>rs_Status = code, rs_Headers = [], rs_Body = StaticBody content\<rparr>, [])))"

text \<open>The requests that are logged: all but health checks. Logging changes nothing else.\<close>

definition logRequests :: "handler \<Rightarrow> http_request \<Rightarrow> (http_response \<times> exec_call list) \<times> string list" where
  "logRequests next r =
     (next r, if rq_Path r = ''/healthz'' \<or> rq_Path r = ''/health'' then [] else [rq_Method r @ '' '' @ rq_Path r])"

record ServerConfig =
  sc_Addr :: string
  NexusflowBinary :: string
  TLSCertFile :: string
  TLSKeyFile :: string
  AuthToken :: string
  AllowedCIDRs :: "string list"

text \<open>What the server is started with: the address, whether it speaks TLS, and the handler.\<close>

definition ListenAndServe ::
  "web_env \<Rightarrow> ServerConfig \<Rightarrow> string + string \<times> bool \<times> (http_request \<Rightarrow> (http_response \<times> exec_call list) \<times> string list)" where
  "ListenAndServe env cfg =
     (let addr = (if sc_Addr cfg = [] then ''127.0.0.1:9842'' else sc_Addr cfg) in
      case parseAllowedNetworks (AllowedCIDRs cfg) of
        Inl e \<Rightarrow> Inl e
      | Inr nets \<Rightarrow>
          (let h1 = mux env (NexusflowBinary cfg);
               h2 = bearerAuthMiddleware (AuthToken cfg) h1;
               h3 = ipAllowMiddleware nets h2;
               useTLS = (trim_space (TLSCertFile cfg) \<noteq> [] \<and> trim_space (TLSKeyFile cfg) \<noteq> []) in
           Inr (addr, useTLS, logRequests h3)))"

text \<open>The package's function of the same name, which nothing calls: no TLS, no token, no filter.\<close>

definition ListenAndServe_plain ::
  "web_env \<Rightarrow> string \<Rightarrow> string \<Rightarrow> string + string \<times> bool \<times> (http_request \<Rightarrow> (http_response \<times> exec_call list) \<times> string list)" where
  "ListenAndServe_plain env addr binary =
     ListenAndServe env \<lparr>sc_Addr = addr, NexusflowBinary = binary, TLSCertFile = [], TLSKeyFile = [], AuthToken = [], AllowedCIDRs = []\<rparr>"

section \<open>Lemmas\<close>

lemma validate_args_iff:
  "validate_args as = None \<longleftrightarrow> (\<forall>a \<in> set as. length a \<le> 4096 \<and> CHR 0x00 \<notin> set a)"
  by (induction as) auto

lemma validateArgv_accepts:
  "validateArgv argv = None \<longleftrightarrow>
     argv \<noteq> [] \<and> length argv \<le> 48 \<and> hd argv \<in> set allowedRoots \<and>
     (\<forall>a \<in> set argv. length a \<le> 4096 \<and> CHR 0x00 \<notin> set a)"
  by (cases argv) (auto simp: validateArgv_def validate_args_iff simp del: validate_args.simps)

lemma execDuration_range: "10 * second \<le> execDuration n" "execDuration n \<le> 7200 * second"
  by (auto simp: execDuration_def second_def wrap64_def)

lemma execDuration_exact: "10 \<le> n \<Longrightarrow> n \<le> 7200 \<Longrightarrow> execDuration n = n * second"
  by (simp add: execDuration_def second_def wrap64_def)

lemma http_error_runs [simp]: "snd (http_error msg code) = []"
  by (simp add: http_error_def)

lemma execHandler_runs:
  assumes "c \<in> set (snd (execHandler env binary r))"
  shows "rq_Method r = ''POST'' \<and> snd (execHandler env binary r) = [c] \<and>
    (\<exists>req. we_decode env (take (2 ^ 20) (rq_Body r)) = Some req \<and> validateArgv (er_Argv req) = None \<and>
      c = \<lparr>xc_Binary = binary, xc_Argv = er_Argv req, xc_Timeout = execDuration (er_TimeoutSec req)\<rparr>)"
proof -
  have post: "rq_Method r = ''POST''"
    using assms by (cases "rq_Method r = ''POST''") (simp_all add: execHandler_def)
  then obtain req where req: "we_decode env (take (2 ^ 20) (rq_Body r)) = Some req"
    using assms by (cases "we_decode env (take (2 ^ 20) (rq_Body r))") (simp_all add: execHandler_def)
  with post assms have ok: "validateArgv (er_Argv req) = None"
    by (cases "validateArgv (er_Argv req)") (simp_all add: execHandler_def Let_def)
  with post req assms show ?thesis
    by (auto simp: execHandler_def Let_def split: prod.splits)
qed

lemma mux_runs:
  "c \<in> set (snd (mux env binary r)) \<Longrightarrow> rq_Path r = ''/api/exec'' \<and> snd (mux env binary r) = snd (execHandler env binary r)"
  by (auto simp: mux_def healthHandler_def split: if_splits prod.splits)

lemma bearer_runs:
  assumes "c \<in> set (snd (bearerAuthMiddleware token next r))"
  shows "bearerAuthMiddleware token next r = next r \<and>
    (trim_space token \<noteq> [] \<and> rq_Path r = ''/api/exec'' \<and> rq_Method r = ''POST'' \<longrightarrow>
      rq_Authorization r = ''Bearer '' @ trim_space token)"
  using assms by (auto simp: bearerAuthMiddleware_def Let_def split: if_splits)

definition ip_allowed :: "IPNet list \<Rightarrow> string \<Rightarrow> bool" where
  "ip_allowed nets addr \<longleftrightarrow>
     (case SplitHost addr of
        None \<Rightarrow> False
      | Some host \<Rightarrow> (case ParseIP host of None \<Rightarrow> False | Some ip \<Rightarrow> list_ex (\<lambda>n. ipnet_Contains n ip) nets))"

lemma ip_middleware:
  "ipAllowMiddleware nets next r =
     (if nets = [] \<or> ip_allowed nets (rq_RemoteAddr r) then next r else http_error ''forbidden'' 403)"
  by (auto simp: ipAllowMiddleware_def ip_allowed_def split: option.splits)

lemma parse_networks_blank:
  "parseAllowedNetworks cidrs = Inr [] \<longleftrightarrow> (\<forall>c \<in> set cidrs. trim_space c = [])"
proof (induction cidrs)
  case (Cons c cidrs)
  then show ?case
    by (cases "parseAllowedNetworks cidrs") (auto simp: Let_def split: sum.splits option.splits)
qed simp

section \<open>Properties\<close>

text \<open>
  C4. The dashboard runs a command only for a request that passes every check. Whatever arrives, a
  command is run only for a POST to the command endpoint that carries the configured token and comes
  from an allowed network (where these are configured); it is the configured program with an
  allowed subcommand and bounded arguments, at most one per request, and it is stopped after at
  least ten seconds and at most two hours.
\<close>

theorem exec_guarded:
  assumes "ListenAndServe env cfg = Inr (addr, tls, serve)" and "c \<in> set (snd (fst (serve r)))"
  shows "rq_Method r = ''POST'' \<and> rq_Path r = ''/api/exec'' \<and>
    (trim_space (AuthToken cfg) \<noteq> [] \<longrightarrow> rq_Authorization r = ''Bearer '' @ trim_space (AuthToken cfg)) \<and>
    ((\<exists>x \<in> set (AllowedCIDRs cfg). trim_space x \<noteq> []) \<longrightarrow>
      (\<exists>nets. parseAllowedNetworks (AllowedCIDRs cfg) = Inr nets \<and> ip_allowed nets (rq_RemoteAddr r))) \<and>
    snd (fst (serve r)) = [c] \<and> xc_Binary c = NexusflowBinary cfg \<and>
    xc_Argv c \<noteq> [] \<and> hd (xc_Argv c) \<in> set allowedRoots \<and> length (xc_Argv c) \<le> 48 \<and>
    (\<forall>a \<in> set (xc_Argv c). length a \<le> 4096 \<and> CHR 0x00 \<notin> set a) \<and>
    10 * second \<le> xc_Timeout c \<and> xc_Timeout c \<le> 7200 * second"
proof -
  let ?mux = "mux env (NexusflowBinary cfg)"
  let ?auth = "bearerAuthMiddleware (AuthToken cfg) ?mux"
  from assms(1) obtain nets where nets: "parseAllowedNetworks (AllowedCIDRs cfg) = Inr nets"
    and serve: "serve = logRequests (ipAllowMiddleware nets ?auth)"
    by (auto simp: ListenAndServe_def Let_def split: sum.splits)
  have ip: "nets = [] \<or> ip_allowed nets (rq_RemoteAddr r)" and run: "fst (serve r) = ?auth r"
    using assms(2) by (auto simp: serve logRequests_def ip_middleware split: if_splits)
  have blank: "nets = [] \<longrightarrow> (\<forall>x \<in> set (AllowedCIDRs cfg). trim_space x = [])"
    using nets parse_networks_blank by metis
  have auth: "c \<in> set (snd (?auth r))" using assms(2) run by simp
  note b = bearer_runs [OF auth]
  then have m: "c \<in> set (snd (?mux r))" using auth by simp
  note x = mux_runs [OF m]
  then have e: "c \<in> set (snd (execHandler env (NexusflowBinary cfg) r))" using m by simp
  from execHandler_runs [OF e] obtain req :: ExecRequest where post: "rq_Method r = ''POST''"
    and one: "snd (execHandler env (NexusflowBinary cfg) r) = [c]" and ok: "validateArgv (er_Argv req) = None"
    and call: "c = \<lparr>xc_Binary = NexusflowBinary cfg, xc_Argv = er_Argv req, xc_Timeout = execDuration (er_TimeoutSec req)\<rparr>"
    by blast
  have "snd (fst (serve r)) = [c]" using run b x one by simp
  moreover have "(\<exists>x \<in> set (AllowedCIDRs cfg). trim_space x \<noteq> []) \<longrightarrow>
      (\<exists>nets. parseAllowedNetworks (AllowedCIDRs cfg) = Inr nets \<and> ip_allowed nets (rq_RemoteAddr r))"
    using nets ip blank by blast
  ultimately show ?thesis
    using post x b ok execDuration_range by (simp add: call validateArgv_accepts)
qed

definition demo_env :: web_env where
  "demo_env = \<lparr>we_decode = (\<lambda>b. if b = ''good'' then Some \<lparr>er_Argv = [''topology''], er_TimeoutSec = 3\<rparr>
       else if b = ''rm'' then Some \<lparr>er_Argv = [''rm''], er_TimeoutSec = 0\<rparr> else None),
     we_rand = None, we_nanos = 7, we_now = ''t0'', we_later = ''t1'', we_run = (\<lambda>c. (RunOK, ''out'', [], 5)),
     we_static = (\<lambda>p. (404, [])), we_buildInfo = None\<rparr>"

definition demo_server :: ServerConfig where
  "demo_server = \<lparr>sc_Addr = [], NexusflowBinary = ''/usr/bin/nexusflow'', TLSCertFile = [], TLSKeyFile = [],
     AuthToken = ''s3cret'', AllowedCIDRs = [''10.0.0.0/8'']\<rparr>"

definition demo_request :: http_request where
  "demo_request = \<lparr>rq_Method = ''POST'', rq_Path = ''/api/exec'', rq_RemoteAddr = ''10.0.0.7:5000'',
     rq_Authorization = ''Bearer s3cret'', rq_Body = ''good''\<rparr>"

definition demo_net :: IPNet where
  "demo_net = \<lparr>net_IP = [10, 0, 0, 0], net_Mask = [255, 0, 0, 0]\<rparr>"

lemma demo_net_parse: "ParseCIDR ''10.0.0.0/8'' = Some demo_net"
  by code_simp

lemma demo_net_allows: "ip_allowed [demo_net] ''10.0.0.7:5000''"
  by code_simp

lemma mux_clean_exec: "mux_clean ''/api/exec'' = ''/api/exec''"
  by code_simp

lemma trim_space_token: "trim_space ''s3cret'' = ''s3cret''" "trim_space ''10.0.0.0/8'' = ''10.0.0.0/8''"
  by (rule trim_space_all_plain; auto simp: plain_char_def)+

theorem exec_guarded_witness:
  "\<exists>serve c. ListenAndServe demo_env demo_server = Inr (''127.0.0.1:9842'', False, serve) \<and>
     snd (fst (serve demo_request)) = [c] \<and> xc_Argv c = [''topology''] \<and> 10 * second \<le> xc_Timeout c"
proof -
  let ?serve = "logRequests (ipAllowMiddleware [demo_net] (bearerAuthMiddleware ''s3cret'' (mux demo_env ''/usr/bin/nexusflow'')))"
  let ?c = "\<lparr>xc_Binary = ''/usr/bin/nexusflow'', xc_Argv = [''topology''], xc_Timeout = execDuration 3\<rparr>"
  have empty: "trim_space [] = []" by (rule trim_space_plain) simp
  have start: "ListenAndServe demo_env demo_server = Inr (''127.0.0.1:9842'', False, ?serve)"
    using trim_space_token empty by (simp add: ListenAndServe_def demo_server_def demo_net_parse)
  have ok: "validateArgv [''topology''] = None" by (simp add: validateArgv_def allowedRoots_def)
  have run: "snd (fst (?serve demo_request)) = [?c]"
    using mux_clean_exec trim_space_token ok demo_net_allows
    by (simp add: logRequests_def ip_middleware bearerAuthMiddleware_def mux_def execHandler_def demo_env_def
        demo_request_def Let_def)
  then have "?c \<in> set (snd (fst (?serve demo_request)))" by simp
  from exec_guarded [OF start this] start run show ?thesis by fastforce
qed

text \<open>The command endpoint itself, once a POST has reached it.\<close>

definition exec_answer :: "web_env \<Rightarrow> string \<Rightarrow> http_request \<Rightarrow> http_response \<Rightarrow> exec_call list \<Rightarrow> bool" where
  "exec_answer env binary r resp calls \<longleftrightarrow>
     (case we_decode env (take (2 ^ 20) (rq_Body r)) of
        None \<Rightarrow> rs_Status resp = 400 \<and> calls = []
      | Some req \<Rightarrow>
          (case validateArgv (er_Argv req) of
             Some e \<Rightarrow> rs_Status resp = 400 \<and> calls = [] \<and>
               (\<exists>x. rs_Body resp = ExecBody x \<and> xr_Error x = ArgvError e \<and> xr_ExitCode x = -1)
           | None \<Rightarrow> rs_Status resp = 200 \<and>
               calls = [\<lparr>xc_Binary = binary, xc_Argv = er_Argv req, xc_Timeout = execDuration (er_TimeoutSec req)\<rparr>] \<and>
               (case we_run env (hd calls) of (res, out, err, ms) \<Rightarrow>
                  \<exists>x. rs_Body resp = ExecBody x \<and> xr_Stdout x = out \<and> xr_Stderr x = err \<and>
                    xr_ExitCode x = (case res of RunOK \<Rightarrow> 0 | RunExit code _ \<Rightarrow> code | RunFailed _ \<Rightarrow> -1) \<and>
                    (\<forall>m. res = RunFailed m \<longrightarrow> xr_Error x = RunError m))))"

lemma execHandler_answers: "rq_Method r = ''POST'' \<Longrightarrow> execHandler env binary r = (resp, calls) \<Longrightarrow> exec_answer env binary r resp calls"
  by (auto simp: exec_answer_def execHandler_def http_error_def Let_def split: option.splits prod.splits run_outcome.splits)

lemma bearer_exec:
  assumes "rq_Method r = ''POST''" and "rq_Path r = ''/api/exec''" and "bearerAuthMiddleware token next r = (resp, calls)"
  shows "if trim_space token \<noteq> [] \<and> rq_Authorization r \<noteq> ''Bearer '' @ trim_space token
    then rs_Status resp = 401 \<and> calls = [] else next r = (resp, calls)"
  using assms by (auto simp: bearerAuthMiddleware_def Let_def split: if_splits)

lemma mux_exec: "rq_Path r = ''/api/exec'' \<Longrightarrow> mux env binary r = execHandler env binary r"
  using mux_clean_exec by (simp add: mux_def)

text \<open>
  A POST to the command endpoint gets the answer its checks call for, in this order: 403 from an
  address that is not allowed, 401 without the token, 400 when the body is not the expected JSON or
  the arguments are refused (with the reason), and otherwise 200 with the command's output, exit code
  and, if it could not be run, the error. Only in the last case a command is run.
\<close>

theorem exec_statuses:
  assumes "ListenAndServe env cfg = Inr (addr, tls, serve)"
    and "parseAllowedNetworks (AllowedCIDRs cfg) = Inr nets"
    and "rq_Method r = ''POST''" and "rq_Path r = ''/api/exec''" and "fst (serve r) = (resp, calls)"
  shows "if nets \<noteq> [] \<and> \<not> ip_allowed nets (rq_RemoteAddr r) then rs_Status resp = 403 \<and> calls = []
    else if trim_space (AuthToken cfg) \<noteq> [] \<and> rq_Authorization r \<noteq> ''Bearer '' @ trim_space (AuthToken cfg)
      then rs_Status resp = 401 \<and> calls = []
    else exec_answer env (NexusflowBinary cfg) r resp calls"
proof -
  let ?auth = "bearerAuthMiddleware (AuthToken cfg) (mux env (NexusflowBinary cfg))"
  from assms(1,2) have "serve = logRequests (ipAllowMiddleware nets ?auth)"
    by (auto simp: ListenAndServe_def Let_def)
  with assms(5) have run: "(resp, calls) = (if nets = [] \<or> ip_allowed nets (rq_RemoteAddr r) then ?auth r else http_error ''forbidden'' 403)"
    by (simp add: logRequests_def ip_middleware)
  show ?thesis
  proof (cases "nets = [] \<or> ip_allowed nets (rq_RemoteAddr r)")
    case True
    with run have "?auth r = (resp, calls)" by simp
    from bearer_exec [OF assms(3,4) this] True show ?thesis
      using execHandler_answers [OF assms(3)] mux_exec [OF assms(4)] by (auto split: if_splits)
  next
    case False
    with run show ?thesis by (simp add: http_error_def)
  qed
qed

theorem exec_statuses_witness:
  "\<exists>serve resp. ListenAndServe demo_env demo_server = Inr (''127.0.0.1:9842'', False, serve) \<and>
     fst (serve (demo_request\<lparr>rq_Authorization := ''Bearer guess''\<rparr>)) = (resp, []) \<and> rs_Status resp = 401"
proof -
  let ?r = "demo_request\<lparr>rq_Authorization := ''Bearer guess''\<rparr>"
  obtain serve where start: "ListenAndServe demo_env demo_server = Inr (''127.0.0.1:9842'', False, serve)"
    using trim_space_token trim_space_plain [of "[]"] by (simp add: ListenAndServe_def demo_server_def demo_net_parse)
  have nets: "parseAllowedNetworks (AllowedCIDRs demo_server) = Inr [demo_net]"
    using trim_space_token by (simp add: demo_server_def demo_net_parse)
  obtain resp calls where run: "fst (serve ?r) = (resp, calls)" by fastforce
  have post: "rq_Method ?r = ''POST''" "rq_Path ?r = ''/api/exec''" by (simp_all add: demo_request_def)
  have ip: "ip_allowed [demo_net] (rq_RemoteAddr ?r)" using demo_net_allows by (simp add: demo_request_def)
  have tok: "trim_space (AuthToken demo_server) \<noteq> [] \<and> rq_Authorization ?r \<noteq> ''Bearer '' @ trim_space (AuthToken demo_server)"
    using trim_space_token by (simp add: demo_server_def)
  from exec_statuses [OF start nets post run] ip tok have "rs_Status resp = 401" "calls = []" by simp_all
  with start run show ?thesis by blast
qed

section \<open>The address filter\<close>

lemma cidr_text_plain: "length b = 4 \<Longrightarrow> c \<in> set (cidr_text (b, n)) \<Longrightarrow> plain_char c"
  using itoa_nonneg_digits [of "int n" c] dotted_chars [of b c] by (auto simp: cidr_text_def plain_char_def is_digit_def)

lemma cidr_text_nonempty: "cidr_text bn \<noteq> []"
  by (cases bn) (simp add: cidr_text_def)

lemma parse_networks_text:
  "\<forall>(b, n) \<in> set cidrs. length b = 4 \<and> n \<le> 32 \<Longrightarrow> parseAllowedNetworks (map cidr_text cidrs) = Inr (map v4_net cidrs)"
proof (induction cidrs)
  case (Cons bn cidrs)
  obtain b n where bn: "bn = (b, n)" by fastforce
  with Cons.prems have ok: "length b = 4" "n \<le> 32" by auto
  have "trim_space (cidr_text (b, n)) = cidr_text (b, n)" by (rule trim_space_all_plain) (rule cidr_text_plain [OF ok(1)])
  with Cons ok bn show ?case by (simp add: ParseCIDR_text cidr_text_nonempty)
qed simp

lemma ip_allowed_v4:
  assumes "\<forall>(b, n) \<in> set cidrs. length b = 4 \<and> n \<le> 32"
  shows "ip_allowed (map v4_net cidrs) addr \<longleftrightarrow>
    (\<exists>a. peer_v4 addr = Some a \<and> (\<exists>(b, n) \<in> set cidrs. take n (ip_bits a) = take n (ip_bits b)))"
proof -
  have "ip_allowed (map v4_net cidrs) addr \<longleftrightarrow>
      (\<exists>h ip. SplitHost addr = Some h \<and> ParseIP h = Some ip \<and> (\<exists>bn \<in> set cidrs. ipnet_Contains (v4_net bn) ip))"
    by (auto simp: ip_allowed_def list_ex_iff split: option.splits)
  also have "\<dots> \<longleftrightarrow> (\<exists>h ip. SplitHost addr = Some h \<and> ParseIP h = Some ip \<and>
      (\<exists>(b, n) \<in> set cidrs. \<exists>a. To4 ip = Some a \<and> take n (ip_bits a) = take n (ip_bits b)))"
    using assms by (intro ex_cong1 conj_cong refl bex_cong) (auto simp: v4_net_contains)
  also have "\<dots> \<longleftrightarrow> (\<exists>a. peer_v4 addr = Some a \<and> (\<exists>(b, n) \<in> set cidrs. take n (ip_bits a) = take n (ip_bits b)))"
    by (fastforce simp: peer_v4_def bind_eq_Some_conv)
  finally show ?thesis .
qed

text \<open>
  C17. The address filter lets through exactly the networks given. When the allowed networks are written as IPv4 prefixes, in dotted form
  with a prefix length, the server starts, and a request, whatever its remote address, reaches the handlers
  exactly when the peer has an IPv4 address that agrees with one of the networks in its first bits, as many as its length says;
  every other request, from any other IPv6 address or with an address that cannot be parsed, is answered with 403 and does nothing. A dotted
  address with any port is that IPv4 address.
\<close>

theorem cidr_filter_exact:
  assumes "AllowedCIDRs cfg = map cidr_text cidrs" and "cidrs \<noteq> []" and "\<forall>(b, n) \<in> set cidrs. length b = 4 \<and> n \<le> 32"
  shows "\<exists>addr tls serve. ListenAndServe env cfg = Inr (addr, tls, serve) \<and>
    (\<forall>r. fst (serve r) =
      (if \<exists>a. peer_v4 (rq_RemoteAddr r) = Some a \<and> (\<exists>(b, n) \<in> set cidrs. take n (ip_bits a) = take n (ip_bits b))
       then bearerAuthMiddleware (AuthToken cfg) (mux env (NexusflowBinary cfg)) r
       else http_error ''forbidden'' 403)) \<and>
    (\<forall>a port. length a = 4 \<longrightarrow> (\<forall>c \<in> set port. c \<notin> {CHR '':'', CHR ''['', CHR '']''}) \<longrightarrow>
      peer_v4 (dotted a @ '':'' @ port) = Some a)"
proof -
  have nets: "parseAllowedNetworks (AllowedCIDRs cfg) = Inr (map v4_net cidrs)"
    using parse_networks_text [OF assms(3)] assms(1) by simp
  then obtain addr tls where start: "ListenAndServe env cfg = Inr (addr, tls,
      logRequests (ipAllowMiddleware (map v4_net cidrs) (bearerAuthMiddleware (AuthToken cfg) (mux env (NexusflowBinary cfg)))))"
    by (simp add: ListenAndServe_def Let_def)
  show ?thesis
    by (intro exI conjI allI, rule start)
      (use assms(2) peer_v4_dotted in \<open>auto simp: logRequests_def ip_middleware ip_allowed_v4 [OF assms(3)]\<close>)
qed

theorem cidr_filter_exact_witness:
  "\<exists>addr tls serve. ListenAndServe demo_env (demo_server\<lparr>AllowedCIDRs := [''10.0.0.0/9'']\<rparr>) = Inr (addr, tls, serve) \<and>
     fst (serve (demo_request\<lparr>rq_RemoteAddr := ''10.128.0.1:80''\<rparr>)) = http_error ''forbidden'' 403 \<and>
     fst (serve (demo_request\<lparr>rq_RemoteAddr := ''[2001:db8::1]:80''\<rparr>)) = http_error ''forbidden'' 403 \<and>
     fst (serve (demo_request\<lparr>rq_RemoteAddr := ''10.1.0.1:80''\<rparr>)) =
       bearerAuthMiddleware ''s3cret'' (mux demo_env ''/usr/bin/nexusflow'') (demo_request\<lparr>rq_RemoteAddr := ''10.1.0.1:80''\<rparr>)"
proof -
  let ?cfg = "demo_server\<lparr>AllowedCIDRs := [''10.0.0.0/9'']\<rparr>"
  have tx: "cidr_text ([10, 0, 0, 0], 9) = ''10.0.0.0/9''" by code_simp
  have peers: "peer_v4 ''10.128.0.1:80'' = Some [10, 128, 0, 1]" "peer_v4 ''[2001:db8::1]:80'' = None"
    "peer_v4 ''10.1.0.1:80'' = Some [10, 1, 0, 1]" by code_simp+
  have bits: "take 9 (ip_bits [10, 128, 0, 1]) \<noteq> take 9 (ip_bits [10, 0, 0, 0])"
    "take 9 (ip_bits [10, 1, 0, 1]) = take 9 (ip_bits [10, 0, 0, 0])" by code_simp+
  have c: "AllowedCIDRs ?cfg = map cidr_text [([10, 0, 0, 0], 9)]" by (simp add: tx)
  obtain addr tls serve where start: "ListenAndServe demo_env ?cfg = Inr (addr, tls, serve)"
    and all: "\<And>r. fst (serve r) =
      (if \<exists>a. peer_v4 (rq_RemoteAddr r) = Some a \<and> (\<exists>(b, n) \<in> set [([10, 0, 0, 0], 9)]. take n (ip_bits a) = take n (ip_bits b))
       then bearerAuthMiddleware (AuthToken ?cfg) (mux demo_env (NexusflowBinary ?cfg)) r else http_error ''forbidden'' 403)"
    using cidr_filter_exact [OF c, of demo_env] by auto
  have "AuthToken ?cfg = ''s3cret''" "NexusflowBinary ?cfg = ''/usr/bin/nexusflow''" by (simp_all add: demo_server_def)
  then have "fst (serve (demo_request\<lparr>rq_RemoteAddr := ''10.128.0.1:80''\<rparr>)) = http_error ''forbidden'' 403"
    "fst (serve (demo_request\<lparr>rq_RemoteAddr := ''[2001:db8::1]:80''\<rparr>)) = http_error ''forbidden'' 403"
    "fst (serve (demo_request\<lparr>rq_RemoteAddr := ''10.1.0.1:80''\<rparr>)) =
      bearerAuthMiddleware ''s3cret'' (mux demo_env ''/usr/bin/nexusflow'') (demo_request\<lparr>rq_RemoteAddr := ''10.1.0.1:80''\<rparr>)"
    using bits by (simp_all add: all peers)
  with start show ?thesis by blast
qed

end
