(* ===== verification/Cgv2.thy ===== *)
theory Cgv2
  imports Go_Path Cpulist
begin

text \<open>
  Cgroup v2 cells (pkg/cgv2/manager_linux.go).

  The control-group tree is a map from paths to file contents; which paths cannot be created, read or
  written is part of the world, so every error branch of the code can be taken.
\<close>

section \<open>Model: the file system\<close>

record cg_world =
  cg_files :: "string \<rightharpoonup> string"
  cg_dirs :: "string set"
  cg_fail :: "string \<rightharpoonup> string"

text \<open>\<^verbatim>\<open>os.MkdirAll\<close>: the directories on the way to \<open>p\<close> and \<open>p\<close> itself, outermost first; those that exist are left alone.\<close>

definition on_the_way :: "string \<Rightarrow> string list" where
  "on_the_way p = map (\<lambda>n. take n p) (filter (\<lambda>n. n = length p \<or> p ! n = CHR ''/'') [1..<Suc (length p)])"

fun make_dirs :: "string list \<Rightarrow> cg_world \<Rightarrow> string option \<times> cg_world" where
  "make_dirs [] w = (None, w)"
| "make_dirs (q # qs) w =
     (if q \<in> cg_dirs w then make_dirs qs w
      else (case cg_fail w q of
              Some e \<Rightarrow> (Some e, w)
            | None \<Rightarrow> make_dirs qs (w\<lparr>cg_dirs := insert q (cg_dirs w)\<rparr>)))"

definition mkdirAll :: "string \<Rightarrow> cg_world \<Rightarrow> string option \<times> cg_world" where
  "mkdirAll p w = make_dirs (on_the_way p) w"

text \<open>A file can only be written in a directory that exists.\<close>

definition write_file :: "string \<Rightarrow> string \<Rightarrow> cg_world \<Rightarrow> string option \<times> cg_world" where
  "write_file p s w =
     (case cg_fail w p of
        Some e \<Rightarrow> (Some e, w)
      | None \<Rightarrow>
          if path_dir p \<notin> cg_dirs w then (Some ''ENOENT'', w)
          else (None, w\<lparr>cg_files := (cg_files w)(p \<mapsto> s)\<rparr>))"

definition read_file :: "string \<Rightarrow> cg_world \<Rightarrow> string + string" where
  "read_file p w = (case cg_fail w p of Some e \<Rightarrow> Inl e | None \<Rightarrow> (case cg_files w p of None \<Rightarrow> Inl ''ENOENT'' | Some s \<Rightarrow> Inr s))"

text \<open>\<^verbatim>\<open>os.RemoveAll\<close>: the directory and everything below it; a missing path is no error.\<close>

definition remove_all :: "string \<Rightarrow> cg_world \<Rightarrow> string option \<times> cg_world" where
  "remove_all p w =
     (case cg_fail w p of
        Some e \<Rightarrow> (Some e, w)
      | None \<Rightarrow>
          (let below = (\<lambda>q. q = p \<or> has_prefix q (p @ ''/'')) in
           (None, w\<lparr>cg_files := (\<lambda>q. if below q then None else cg_files w q), cg_dirs := {q \<in> cg_dirs w. \<not> below q}\<rparr>)))"

section \<open>Model: runes\<close>

text \<open>The number of bytes \<^verbatim>\<open>range\<close> over a string takes for its next rune; one for an invalid byte.\<close>

definition cont_byte :: "int \<Rightarrow> int \<Rightarrow> char \<Rightarrow> bool" where
  "cont_byte lo hi c \<longleftrightarrow> lo \<le> of_char c \<and> of_char c \<le> hi"

fun rune_len :: "string \<Rightarrow> nat" where
  "rune_len [] = 0"
| "rune_len (c # cs) =
     (let b = (of_char c :: int);
          lo = (if b = 0xE0 then 0xA0 else if b = 0xF0 then 0x90 else 0x80);
          hi = (if b = 0xED then 0x9F else if b = 0xF4 then 0x8F else 0xBF);
          conts = (\<lambda>n. length cs \<ge> n \<and> cont_byte lo hi (cs ! 0) \<and> list_all (cont_byte 0x80 0xBF) (tl (take n cs))) in
      if b < 0x80 then 1
      else if 0xC2 \<le> b \<and> b \<le> 0xDF then (if conts 1 then 2 else 1)
      else if 0xE0 \<le> b \<and> b \<le> 0xEF then (if conts 2 then 3 else 1)
      else if 0xF0 \<le> b \<and> b \<le> 0xF4 then (if conts 3 then 4 else 1)
      else 1)"

lemma rune_len_pos [simp]: "0 < rune_len (c # cs)"
  by (simp add: Let_def)

declare rune_len.simps(2) [simp del]

section \<open>Model: manager\_linux.go\<close>

record Manager =
  mg_Root :: string

definition contains_str :: "string \<Rightarrow> string \<Rightarrow> bool" where
  "contains_str s t \<longleftrightarrow> list_ex (\<lambda>n. has_prefix (drop n s) t) [0..<Suc (length s)]"

text \<open>The write is an append to the control file.\<close>

definition enableController :: "string \<Rightarrow> string \<Rightarrow> cg_world \<Rightarrow> string option \<times> cg_world" where
  "enableController dir name w =
     (let ctl = path_join [dir, ''cgroup.subtree_control''] in
      case read_file ctl w of
        Inl e \<Rightarrow> (Some e, w)
      | Inr data \<Rightarrow>
          if contains_str data name then (None, w)
          else write_file ctl (data @ ''+'' @ name @ [CHR 0x0A]) w)"

definition NewManager :: "string \<Rightarrow> cg_world \<Rightarrow> (string + Manager) \<times> cg_world" where
  "NewManager root0 w =
     (let root = (if root0 = [] then ''/sys/fs/cgroup/nexusflow-daemon'' else root0) in
      case mkdirAll root w of
        (Some e, w1) \<Rightarrow> (Inl e, w1)
      | (None, w1) \<Rightarrow>
          (let parent = path_dir root;
               w2 = snd (enableController parent ''cpuset'' w1);
               w3 = snd (enableController parent ''memory'' w2);
               w4 = snd (enableController root ''cpuset'' w3) in
           (Inr \<lparr>mg_Root = root\<rparr>, w4)))"

definition id_char :: "char \<Rightarrow> bool" where
  "id_char c \<longleftrightarrow> (let n = (of_char c :: int) in
     97 \<le> n \<and> n \<le> 122 \<or> 65 \<le> n \<and> n \<le> 90 \<or> 48 \<le> n \<and> n \<le> 57 \<or> n = 45 \<or> n = 95)"

function sanitize_runes :: "string \<Rightarrow> string" where
  "sanitize_runes [] = []"
| "sanitize_runes (c # cs) =
     (if id_char c then c else CHR ''-'') # sanitize_runes (drop (rune_len (c # cs)) (c # cs))"
  by pat_completeness auto

termination
  by (relation "measure length") auto

definition sanitizeID :: "string \<Rightarrow> string" where
  "sanitizeID s = (let out = sanitize_runes s in if out = [] then ''default'' else out)"

definition CellPath :: "Manager \<Rightarrow> string \<Rightarrow> string" where
  "CellPath m cellID = path_join [mg_Root m, ''cell-'' @ sanitizeID cellID]"

definition joinInts :: "int list \<Rightarrow> string \<Rightarrow> string" where
  "joinInts xs sep = join sep (map itoa xs)"

definition joinIntsNonEmpty :: "int list \<Rightarrow> string" where
  "joinIntsNonEmpty xs = (let s = joinInts xs '','' in if s = [] then ''0'' else s)"

datatype cg_error = MkdirFailed string | CpusFailed string | MemsFailed string

definition mem_spec :: "string \<Rightarrow> int list \<Rightarrow> cg_world \<Rightarrow> string" where
  "mem_spec path mems w =
     (if mems = [] then
        (let parentMems = (case read_file (path_join [path_dir path, ''cpuset.mems'']) w of Inl _ \<Rightarrow> [] | Inr s \<Rightarrow> s);
             memStr = trim_space parentMems in
         if memStr = [] then ''0'' else memStr)
      else joinInts mems '','')"

definition CreateCell ::
  "Manager \<Rightarrow> string \<Rightarrow> int list \<Rightarrow> int list \<Rightarrow> bool \<Rightarrow> cg_world \<Rightarrow> (cg_error + string) \<times> cg_world" where
  "CreateCell m cellID cpus mems exclusive w =
     (let path = CellPath m cellID in
      case mkdirAll path w of
        (Some e, w1) \<Rightarrow> (Inl (MkdirFailed e), w1)
      | (None, w1) \<Rightarrow>
        (case write_file (path_join [path, ''cpuset.cpus'']) (joinIntsNonEmpty cpus @ [CHR 0x0A]) w1 of
           (Some e, w2) \<Rightarrow> (Inl (CpusFailed e), w2)
         | (None, w2) \<Rightarrow>
           (case write_file (path_join [path, ''cpuset.mems'']) (mem_spec path mems w2 @ [CHR 0x0A]) w2 of
              (Some e, w3) \<Rightarrow> (Inl (MemsFailed e), w3)
            | (None, w3) \<Rightarrow>
                (Inr path,
                 if exclusive
                 then snd (write_file (path_join [path, ''cpuset.cpus.partition'']) (''isolated'' @ [CHR 0x0A]) w3)
                 else w3))))"

definition DestroyCell :: "Manager \<Rightarrow> string \<Rightarrow> cg_world \<Rightarrow> string option \<times> cg_world" where
  "DestroyCell m cellID w = remove_all (CellPath m cellID) w"

definition Attach :: "string \<Rightarrow> int \<Rightarrow> cg_world \<Rightarrow> string option \<times> cg_world" where
  "Attach cgroupPath pid w = write_file (path_join [cgroupPath, ''cgroup.procs'']) (itoa pid @ [CHR 0x0A]) w"

text \<open>\<^verbatim>\<open>bufio.Scanner\<close> by lines: a last empty piece is no line. Lines that are no numbers are skipped.\<close>

definition scan_lines :: "string \<Rightarrow> string list" where
  "scan_lines s = (let ls = split_on (CHR 0x0A) s in if last ls = [] then butlast ls else ls)"

text \<open>The ids read so far and the error: a line of 64 KiB or more ends the scan.\<close>

definition ListPIDs :: "string \<Rightarrow> cg_world \<Rightarrow> int list \<times> string option" where
  "ListPIDs cgroupPath w =
     (case read_file (path_join [cgroupPath, ''cgroup.procs'']) w of
        Inl e \<Rightarrow> ([], Some e)
      | Inr s \<Rightarrow>
          (let ls = scan_lines s; fit = takeWhile (\<lambda>l. length l < 65536) ls in
           (concat (map (\<lambda>l. case atoi (trim_space l) of (pid, None) \<Rightarrow> [pid] | (_, Some _) \<Rightarrow> []) fit),
            if length fit < length ls then Some ''bufio.Scanner: token too long'' else None)))"

section \<open>Names\<close>

lemma sanitize_runes_chars: "c \<in> set (sanitize_runes s) \<Longrightarrow> id_char c"
  by (induction s rule: sanitize_runes.induct) (auto simp: id_char_def split: if_splits)

lemma sanitizeID_safe: "sanitizeID s \<noteq> []" "c \<in> set (sanitizeID s) \<Longrightarrow> id_char c"
proof -
  show "sanitizeID s \<noteq> []" by (simp add: sanitizeID_def Let_def)
  have "id_char x" if "x \<in> set ''default''" for x using that by (auto simp: id_char_def)
  then show "c \<in> set (sanitizeID s) \<Longrightarrow> id_char c"
    using sanitize_runes_chars [of c s] by (auto simp: sanitizeID_def Let_def split: if_splits)
qed

lemma id_char_no_slash: "\<not> id_char (CHR ''/'')"
  by (simp add: id_char_def)

lemma CellPath_file:
  assumes "mg_Root m = abs_path ds" and "ds \<noteq> []" and "list_all file_name ds"
  shows "CellPath m cid = abs_path (ds @ [''cell-'' @ sanitizeID cid])" and "file_name (''cell-'' @ sanitizeID cid)"
proof -
  have "CHR ''/'' \<notin> set (sanitizeID cid)" using sanitizeID_safe(2) id_char_no_slash by blast
  then show fn: "file_name (''cell-'' @ sanitizeID cid)" by (intro file_name_prefixed) auto
  show "CellPath m cid = abs_path (ds @ [''cell-'' @ sanitizeID cid])"
    unfolding CellPath_def assms(1) by (rule path_join_file [OF assms(2,3) fn])
qed

text \<open>A file of a cell is below the cell's directory.\<close>

lemma cell_file:
  assumes "mg_Root m = abs_path ds" and "ds \<noteq> []" and "list_all file_name ds" and "file_name n"
  shows "path_join [CellPath m cid, n] = CellPath m cid @ ''/'' @ n"
proof -
  note p = CellPath_file [OF assms(1-3), of cid]
  have "path_join [CellPath m cid, n] = abs_path ((ds @ [''cell-'' @ sanitizeID cid]) @ [n])"
    unfolding p(1) using assms(3,4) p(2) by (intro path_join_file) auto
  also have "\<dots> = CellPath m cid @ CHR ''/'' # n" unfolding p(1) by (rule abs_path_snoc) simp
  finally show ?thesis by simp
qed

lemma cell_file_dir:
  assumes "mg_Root m = abs_path ds" and "ds \<noteq> []" and "list_all file_name ds" and "file_name n"
  shows "path_dir (path_join [CellPath m cid, n]) = CellPath m cid"
proof -
  note p = CellPath_file [OF assms(1-3), of cid]
  have "path_join [CellPath m cid, n] = abs_path ((ds @ [''cell-'' @ sanitizeID cid]) @ [n])"
    unfolding p(1) using assms(3,4) p(2) by (intro path_join_file) auto
  then show ?thesis using path_dir_file [OF _ _ assms(4), of "ds @ [''cell-'' @ sanitizeID cid]"] assms(3) p by simp
qed

lemma plain_files: "file_name ''cpuset.cpus''" "file_name ''cpuset.mems''" "file_name ''cpuset.cpus.partition''"
  "file_name ''cgroup.procs''"
  by (simp_all add: file_name_def)

section \<open>Lists\<close>

lemma trim_space_newline:
  assumes "s \<noteq> []" and "plain_char (hd s)"
  shows "trim_space (s @ [CHR 0x0A]) = trim_space s"
proof -
  have "strip_all go_spaces (s @ [CHR 0x0A]) = s @ [CHR 0x0A]" "strip_all go_spaces s = s"
    using assms strip_all_plain(1) by simp_all
  moreover have "strip_all (map rev go_spaces) (CHR 0x0A # rev s) = strip_all (map rev go_spaces) (rev s)"
    by (subst strip_all.simps) (simp add: go_spaces_def)
  ultimately show ?thesis by (simp add: trim_space_def trim_left_def trim_right_def)
qed

lemma joinInts_chars: "(\<forall>x \<in> set xs. 0 \<le> x) \<Longrightarrow> c \<in> set (joinInts xs '','') \<Longrightarrow> is_digit c \<or> c = CHR '',''"
  using set_join [of "'',''" "map itoa xs"] itoa_nonneg_digits by (fastforce simp: joinInts_def)

lemma joinInts_nonempty: "xs \<noteq> [] \<Longrightarrow> joinInts xs '','' \<noteq> []"
  by (cases xs) (auto simp: joinInts_def join_eq_Nil)

text \<open>What the kernel reads from a written list: the numbers, in the order given.\<close>

lemma parse_joinInts:
  assumes "xs \<noteq> []" and "\<forall>x \<in> set xs. 0 \<le> x \<and> x < maxInt"
  shows "ParseCPUList (joinInts xs '','' @ [CHR 0x0A]) = Some (Inr xs)"
proof -
  let ?s = "joinInts xs '',''"
  have ne: "?s \<noteq> []" by (rule joinInts_nonempty [OF assms(1)])
  have plain: "plain_char c" if "c \<in> set ?s" for c
    using joinInts_chars [of xs c] assms(2) that by auto
  have "plain_char (hd ?s)" using plain ne by simp
  then have trim: "trim_space (?s @ [CHR 0x0A]) = ?s"
    using trim_space_newline [OF ne] trim_space_all_plain [OF plain] by simp
  have split: "split_on (CHR '','') ?s = map itoa xs"
    unfolding joinInts_def using assms comma_not_digit by (intro split_on_join) auto
  have "part_value (itoa x) = Some (Inr [x])" if "x \<in> set xs" for x
    using part_value_run [of x x] assms(2) that by simp
  then have "list_all2 (\<lambda>p ys. part_value p = Some (Inr ys)) (map itoa xs) (map (\<lambda>x. [x]) xs)"
    by (simp add: list_all2_conv_all_nth)
  from parse_parts_values [OF this, of "[]"] show ?thesis
    using trim split ne by (simp add: ParseCPUList_def concat_map_singleton [of "\<lambda>x. x", simplified])
qed

section \<open>Properties\<close>

lemma write_file_ok:
  "write_file p s w = (None, w') \<Longrightarrow> cg_files w' = (cg_files w)(p \<mapsto> s) \<and> cg_dirs w' = cg_dirs w \<and> cg_fail w' = cg_fail w"
  by (auto simp: write_file_def split: option.splits if_splits)

lemma write_file_other: "q \<noteq> p \<Longrightarrow> cg_files (snd (write_file p s w)) q = cg_files w q"
  by (simp add: write_file_def split: option.splits)

lemma write_file_keeps [simp]:
  "cg_dirs (snd (write_file p s w)) = cg_dirs w" "cg_fail (snd (write_file p s w)) = cg_fail w"
  by (simp_all add: write_file_def split: option.splits)

lemma make_dirs_files:
  "make_dirs qs w = (e, w') \<Longrightarrow> cg_files w' = cg_files w \<and> cg_fail w' = cg_fail w \<and> cg_dirs w \<subseteq> cg_dirs w'"
  by (induction qs w rule: make_dirs.induct) (auto split: if_splits option.splits)

lemma make_dirs_made: "make_dirs qs w = (None, w') \<Longrightarrow> set qs \<subseteq> cg_dirs w'"
proof (induction qs w rule: make_dirs.induct)
  case (2 q qs w)
  show ?case
  proof (cases "q \<in> cg_dirs w")
    case True
    with 2 show ?thesis using make_dirs_files [of qs w None w'] by auto
  next
    case False
    with 2 show ?thesis using make_dirs_files [of qs "w\<lparr>cg_dirs := insert q (cg_dirs w)\<rparr>" None w'] by (auto split: option.splits)
  qed
qed simp

lemma make_dirs_succeeds: "cg_fail w = Map.empty \<Longrightarrow> fst (make_dirs qs w) = None"
  by (induction qs w rule: make_dirs.induct) auto

lemma on_the_way_self: "p \<noteq> [] \<Longrightarrow> p \<in> set (on_the_way p)"
  unfolding on_the_way_def set_map by (rule image_eqI [where x = "length p"]) (cases p; simp)+

lemma mkdirAll_files: "mkdirAll p w = (e, w') \<Longrightarrow> cg_files w' = cg_files w \<and> cg_fail w' = cg_fail w"
  using make_dirs_files by (simp add: mkdirAll_def)

lemma mkdirAll_made: "mkdirAll p w = (None, w') \<Longrightarrow> p \<noteq> [] \<Longrightarrow> p \<in> cg_dirs w'"
  using make_dirs_made on_the_way_self by (fastforce simp: mkdirAll_def)

lemma mkdirAll_succeeds:
  assumes "cg_fail w = Map.empty" and "p \<noteq> []"
  obtains w' where "mkdirAll p w = (None, w')" "cg_fail w' = Map.empty" "p \<in> cg_dirs w'"
proof -
  obtain e w' where m: "mkdirAll p w = (e, w')" by fastforce
  moreover have "e = None" using make_dirs_succeeds [OF assms(1), of "on_the_way p"] m by (simp add: mkdirAll_def)
  ultimately show ?thesis using that mkdirAll_files [OF m] mkdirAll_made [OF _ assms(2)] assms(1) by simp
qed

text \<open>Where nothing is refused, a file in an existing directory is written.\<close>

lemma write_file_succeeds:
  "cg_fail w p = None \<Longrightarrow> path_dir p \<in> cg_dirs w \<Longrightarrow> write_file p s w = (None, w\<lparr>cg_files := (cg_files w)(p \<mapsto> s)\<rparr>)"
  by (simp add: write_file_def)

lemma CreateCell_ok:
  assumes "CreateCell m cid cpus mems excl w = (Inr path, w')"
  obtains w1 w2 where "path = CellPath m cid" "mkdirAll path w = (None, w1)"
    "write_file (path_join [path, ''cpuset.cpus'']) (joinIntsNonEmpty cpus @ [CHR 0x0A]) w1 = (None, w2)"
    "w' = (let w3 = snd (write_file (path_join [path, ''cpuset.mems'']) (mem_spec path mems w2 @ [CHR 0x0A]) w2) in
       if excl then snd (write_file (path_join [path, ''cpuset.cpus.partition'']) (''isolated'' @ [CHR 0x0A]) w3) else w3)"
    "fst (write_file (path_join [path, ''cpuset.mems'']) (mem_spec path mems w2 @ [CHR 0x0A]) w2) = None"
  using assms by (auto simp: CreateCell_def Let_def split: prod.splits option.splits)

lemma CreateCell_files:
  assumes "mg_Root m = abs_path ds" and "ds \<noteq> []" and "list_all file_name ds"
    and "CreateCell m cid cpus mems excl w = (Inr path, w')"
  shows "path = mg_Root m @ ''/cell-'' @ sanitizeID cid"
    and "cg_files w' (path @ ''/cpuset.cpus'') = Some (joinIntsNonEmpty cpus @ [CHR 0x0A])"
    and "mems \<noteq> [] \<Longrightarrow> cg_files w' (path @ ''/cpuset.mems'') = Some (joinInts mems '','' @ [CHR 0x0A])"
    and "\<not> has_prefix q (path @ ''/'') \<Longrightarrow> cg_files w' q = cg_files w q"
    and "path \<in> cg_dirs w'"
proof -
  from assms(4) obtain w1 w2 where path: "path = CellPath m cid" and w1: "mkdirAll path w = (None, w1)"
    and w2: "write_file (path_join [path, ''cpuset.cpus'']) (joinIntsNonEmpty cpus @ [CHR 0x0A]) w1 = (None, w2)"
    and w': "w' = (let w3 = snd (write_file (path_join [path, ''cpuset.mems'']) (mem_spec path mems w2 @ [CHR 0x0A]) w2) in
       if excl then snd (write_file (path_join [path, ''cpuset.cpus.partition'']) (''isolated'' @ [CHR 0x0A]) w3) else w3)"
    and w3: "fst (write_file (path_join [path, ''cpuset.mems'']) (mem_spec path mems w2 @ [CHR 0x0A]) w2) = None"
    by (rule CreateCell_ok)
  note inside = cell_file [OF assms(1-3), of _ cid, folded path]
  let ?cpus = "path @ ''/cpuset.cpus''" and ?mems = "path @ ''/cpuset.mems''" and ?part = "path @ ''/cpuset.cpus.partition''"
  have names: "path_join [path, ''cpuset.cpus''] = ?cpus" "path_join [path, ''cpuset.mems''] = ?mems"
    "path_join [path, ''cpuset.cpus.partition''] = ?part" using inside plain_files by simp_all
  define v3 where "v3 = snd (write_file ?mems (mem_spec path mems w2 @ [CHR 0x0A]) w2)"
  have f2: "cg_files w2 = (cg_files w)(?cpus \<mapsto> joinIntsNonEmpty cpus @ [CHR 0x0A])"
    using write_file_ok [OF w2] mkdirAll_files [OF w1] names by simp
  have f3: "cg_files v3 = (cg_files w2)(?mems \<mapsto> mem_spec path mems w2 @ [CHR 0x0A])"
    using w3 write_file_ok [of ?mems "mem_spec path mems w2 @ [CHR 0x0A]" w2 v3] by (simp add: v3_def names prod_eq_iff)
  have last: "cg_files w' q = cg_files v3 q" if "q \<noteq> ?part" for q
    using w' that write_file_other [of q ?part] by (simp add: names v3_def Let_def)
  show "cg_files w' ?cpus = Some (joinIntsNonEmpty cpus @ [CHR 0x0A])" using last [of ?cpus] f3 f2 by simp
  show "cg_files w' ?mems = Some (joinInts mems '','' @ [CHR 0x0A])" if "mems \<noteq> []"
    using last [of ?mems] f3 that by (simp add: mem_spec_def)
  show "cg_files w' q = cg_files w q" if "\<not> has_prefix q (path @ ''/'')"
  proof -
    have "q \<noteq> ?cpus" "q \<noteq> ?mems" "q \<noteq> ?part" using that by (auto simp: has_prefix_def)
    then show ?thesis using last [of q] f3 f2 by simp
  qed
  show "path = mg_Root m @ ''/cell-'' @ sanitizeID cid"
    unfolding path CellPath_file(1) [OF assms(1-3)] assms(1) using abs_path_snoc [OF assms(2)] by simp
  have "path \<in> cg_dirs w1" using mkdirAll_made [OF w1] by (simp add: path CellPath_file(1) [OF assms(1-3)] abs_path_def)
  then show "path \<in> cg_dirs w'" using w' write_file_ok [OF w2] by (simp add: Let_def)
qed

text \<open>
  C30. A cell is configured as requested and nothing else is touched. Whatever characters the cell id has,
  the cell is a directory directly below the manager's root; after a successful \<^verbatim>\<open>CreateCell\<close> it exists, its CPU file
  lists exactly the requested CPUs and its memory file the requested nodes, in the kernel's list
  format, and no file outside that directory has changed.
\<close>

theorem CreateCell_configures:
  assumes "mg_Root m = abs_path ds" and "ds \<noteq> []" and "list_all file_name ds"
    and "cpus \<noteq> []" and "\<forall>x \<in> set cpus. 0 \<le> x \<and> x < maxInt" and "\<forall>x \<in> set mems. 0 \<le> x \<and> x < maxInt"
    and "CreateCell m cid cpus mems excl w = (Inr path, w')"
  shows "(\<exists>x. path = mg_Root m @ ''/cell-'' @ x \<and> x \<noteq> [] \<and> (\<forall>c \<in> set x. id_char c)) \<and>
    (\<exists>s. cg_files w' (path @ ''/cpuset.cpus'') = Some s \<and> ParseCPUList s = Some (Inr cpus)) \<and>
    (mems \<noteq> [] \<longrightarrow> (\<exists>s. cg_files w' (path @ ''/cpuset.mems'') = Some s \<and> ParseCPUList s = Some (Inr mems))) \<and>
    path \<in> cg_dirs w' \<and> (\<forall>q. \<not> has_prefix q (path @ ''/'') \<longrightarrow> cg_files w' q = cg_files w q)"
proof -
  note files = CreateCell_files [OF assms(1-3,7)]
  have "joinIntsNonEmpty cpus = joinInts cpus '',''"
    using joinInts_nonempty [OF assms(4)] by (simp add: joinIntsNonEmpty_def)
  then show ?thesis
    using files parse_joinInts [OF assms(4,5)] parse_joinInts [OF _ assms(6)]
      sanitizeID_safe(1) [of cid] sanitizeID_safe(2) [of _ cid] by auto
qed

definition demo_manager :: Manager where
  "demo_manager = \<lparr>mg_Root = ''/sys/fs/cgroup/nf''\<rparr>"

definition empty_cg :: cg_world where
  "empty_cg = \<lparr>cg_files = Map.empty, cg_dirs = {}, cg_fail = Map.empty\<rparr>"

lemma empty_cg_fail [simp]: "cg_fail empty_cg = Map.empty"
  by (simp add: empty_cg_def)

lemma demo_root:
  "mg_Root demo_manager = abs_path [''sys'', ''fs'', ''cgroup'', ''nf'']" "[''sys'', ''fs'', ''cgroup'', ''nf''] \<noteq> []"
  "list_all file_name [''sys'', ''fs'', ''cgroup'', ''nf'']"
  by (simp_all add: demo_manager_def abs_path_def file_name_def)

lemma CreateCell_succeeds:
  assumes "mg_Root m = abs_path ds" and "ds \<noteq> []" and "list_all file_name ds" and "cg_fail w = Map.empty"
  shows "\<exists>w'. CreateCell m cid cpus mems excl w = (Inr (CellPath m cid), w') \<and> cg_fail w' = Map.empty"
proof -
  have "CellPath m cid \<noteq> []" by (simp add: CellPath_file(1) [OF assms(1-3)] abs_path_def)
  then obtain w1 where "mkdirAll (CellPath m cid) w = (None, w1)" "cg_fail w1 = Map.empty" "CellPath m cid \<in> cg_dirs w1"
    using mkdirAll_succeeds [OF assms(4)] by metis
  then show ?thesis
    using cell_file_dir [OF assms(1-3) plain_files(1), of cid] cell_file_dir [OF assms(1-3) plain_files(2), of cid]
    by (simp add: CreateCell_def write_file_succeeds Let_def)
qed

theorem CreateCell_configures_witness:
  "\<exists>path w' s. CreateCell demo_manager ''../../etc'' [2, 3] [] True empty_cg = (Inr path, w') \<and>
     cg_files w' (path @ ''/cpuset.cpus'') = Some s \<and> ParseCPUList s = Some (Inr [2, 3])"
proof -
  obtain w' where mk: "CreateCell demo_manager ''../../etc'' [2, 3] [] True empty_cg = (Inr (CellPath demo_manager ''../../etc''), w')"
    using CreateCell_succeeds [OF demo_root empty_cg_fail] by blast
  have ok: "[2, 3 :: int] \<noteq> []" "\<forall>x \<in> set [2, 3 :: int]. 0 \<le> x \<and> x < maxInt"
    "\<forall>x \<in> set ([] :: int list). 0 \<le> x \<and> x < maxInt" by (simp_all add: maxInt_def)
  from CreateCell_configures [OF demo_root ok mk] mk show ?thesis by blast
qed

end
