(* ===== verification/Host.thy ===== *)
theory Host
  imports Go_Path
begin

text \<open>
  Operations on the host: evicting processes (pkg/evict/evict_linux.go) and huge pages
  (pkg/hugepages/hugepages_linux.go).

  What the kernel answers is an argument: the entries of \<^verbatim>\<open>/proc\<close>, affinities, the results of signals,
  reads and writes. What the program does to the host is a list of effects.
\<close>

section \<open>Model: evict\_linux.go\<close>

record proc_env =
  pe_entries :: "string + (string \<times> bool) list"
  pe_self :: int
  pe_affinity :: "int \<Rightarrow> string + int set"
  pe_kill :: "int \<Rightarrow> int \<Rightarrow> string option"

text \<open>The keys of the \<^verbatim>\<open>Mask\<close> map; the map's order does not matter to a search for any hit.\<close>

definition NewCPUTarget :: "int list \<Rightarrow> int list" where
  "NewCPUTarget cpus = uniq_loop {} cpus"

definition cpuSetIntersects :: "int set \<Rightarrow> int list \<Rightarrow> bool" where
  "cpuSetIntersects s target \<longleftrightarrow> list_ex (\<lambda>cpu. cpu \<in> s) target"

fun foreign_loop :: "proc_env \<Rightarrow> int list \<Rightarrow> int set \<Rightarrow> (string \<times> bool) list \<Rightarrow> int list" where
  "foreign_loop env target skip [] = []"
| "foreign_loop env target skip ((name, isDir) # es) =
     (let rest = foreign_loop env target skip es in
      if \<not> isDir then rest
      else (case atoi name of
              (_, Some _) \<Rightarrow> rest
            | (pid, None) \<Rightarrow>
                if pid \<le> 1 \<or> pid = pe_self env then rest
                else if pid \<in> skip then rest
                else (case pe_affinity env pid of
                        Inl _ \<Rightarrow> rest
                      | Inr s \<Rightarrow> if cpuSetIntersects s target then pid # rest else rest)))"

definition ForeignPIDsOnCPUs :: "proc_env \<Rightarrow> int list \<Rightarrow> int set \<Rightarrow> string + int list" where
  "ForeignPIDsOnCPUs env target skip =
     (case pe_entries env of Inl e \<Rightarrow> Inl e | Inr es \<Rightarrow> Inr (foreign_loop env target skip es))"

text \<open>The number of processes and the signals sent, as pairs of process and signal.\<close>

fun stop_loop :: "proc_env \<Rightarrow> int \<Rightarrow> bool \<Rightarrow> int list \<Rightarrow> int \<times> (int \<times> int) list" where
  "stop_loop env sig dryRun [] = (0, [])"
| "stop_loop env sig dryRun (pid # pids) =
     (case stop_loop env sig dryRun pids of
        (n, sent) \<Rightarrow>
          if dryRun then (n + 1, sent)
          else (if pe_kill env pid sig = None then n + 1 else n, (pid, sig) # sent))"

definition StopForeignOnCPUs ::
  "proc_env \<Rightarrow> int list \<Rightarrow> int set \<Rightarrow> int \<Rightarrow> bool \<Rightarrow> (string + int) \<times> (int \<times> int) list" where
  "StopForeignOnCPUs env target skip sig dryRun =
     (case ForeignPIDsOnCPUs env target skip of
        Inl e \<Rightarrow> (Inl e, [])
      | Inr pids \<Rightarrow> (case stop_loop env sig dryRun pids of (n, sent) \<Rightarrow> (Inr n, sent)))"

definition ThreadPath :: "(string \<Rightarrow> string + (string \<times> bool) list) \<Rightarrow> int \<Rightarrow> string + int list" where
  "ThreadPath readDir pid =
     (case readDir (path_join [''/proc'', itoa pid, ''task'']) of
        Inl e \<Rightarrow> Inl e
      | Inr es \<Rightarrow> Inr (concat (map (\<lambda>(name, _). case atoi name of (tid, None) \<Rightarrow> [tid] | (_, Some _) \<Rightarrow> []) es)))"

section \<open>Model: hugepages\_linux.go\<close>

text \<open>
  \<^verbatim>\<open>strings.ToLower\<close> as far as a comparison with ASCII text can tell: besides the ASCII capitals, the dotted
  capital I (U+0130) and the Kelvin sign (U+212A) have ASCII lower-case letters.
\<close>

fun to_lower :: "string \<Rightarrow> string" where
  "to_lower (a # b # c # cs) =
     (if a = CHR 0xC4 \<and> b = CHR 0xB0 then CHR ''i'' # to_lower (c # cs)
      else if a = CHR 0xE2 \<and> b = CHR 0x84 \<and> c = CHR 0xAA then CHR ''k'' # to_lower cs
      else ascii_lower a # to_lower (b # c # cs))"
| "to_lower [a, b] = (if a = CHR 0xC4 \<and> b = CHR 0xB0 then ''i'' else [ascii_lower a, ascii_lower b])"
| "to_lower [a] = [ascii_lower a]"
| "to_lower [] = []"

definition path_2m :: string where
  "path_2m = ''/sys/kernel/mm/hugepages/hugepages-2048kB/nr_hugepages''"

definition path_1g :: string where
  "path_1g = ''/sys/kernel/mm/hugepages/hugepages-1048576kB/nr_hugepages''"

datatype huge_error = UnknownPagesize string | NegativeCount | WriteFailed string

definition SysfsPath :: "string \<Rightarrow> huge_error + string" where
  "SysfsPath pagesize =
     (let ps = to_lower (trim_space pagesize) in
      if ps \<in> {''2m'', ''2mib'', ''2048''} then Inr path_2m
      else if ps \<in> {''1g'', ''1gib'', ''1048576''} then Inr path_1g
      else Inl (UnknownPagesize pagesize))"

text \<open>\<open>write\<close> and \<open>read\<close> are the kernel's answers. The files written, with their contents, are recorded.\<close>

definition SetNrHugepages ::
  "(string \<Rightarrow> string \<Rightarrow> string option) \<Rightarrow> (string \<Rightarrow> string + string) \<Rightarrow> string \<Rightarrow> int \<Rightarrow>
   (huge_error + int) \<times> (string \<times> string) list" where
  "SetNrHugepages write read pagesize n =
     (if n < 0 then (Inl NegativeCount, [])
      else (case SysfsPath pagesize of
        Inl e \<Rightarrow> (Inl e, [])
      | Inr path \<Rightarrow>
          (let content = itoa n @ [CHR 0x0A] in
           case write path content of
             Some e \<Rightarrow> (Inl (WriteFailed e), [(path, content)])
           | None \<Rightarrow>
               (case read path of
                  Inl _ \<Rightarrow> (Inr n, [(path, content)])
                | Inr b \<Rightarrow>
                    (case atoi (trim_space b) of
                       (v, None) \<Rightarrow> (Inr v, [(path, content)])
                     | (_, Some _) \<Rightarrow> (Inr n, [(path, content)]))))))"

section \<open>Eviction\<close>

text \<open>The processes the code means: listed, not init, not itself, not skipped, able to run on a target CPU.\<close>

definition evictable :: "proc_env \<Rightarrow> int list \<Rightarrow> int set \<Rightarrow> int \<Rightarrow> bool" where
  "evictable env cpus skip pid \<longleftrightarrow>
     1 < pid \<and> pid \<noteq> pe_self env \<and> pid \<notin> skip \<and> (\<exists>s. pe_affinity env pid = Inr s \<and> s \<inter> set cpus \<noteq> {})"

lemma cpuSetIntersects_iff: "cpuSetIntersects s (NewCPUTarget cpus) \<longleftrightarrow> s \<inter> set cpus \<noteq> {}"
  by (auto simp: cpuSetIntersects_def NewCPUTarget_def list_ex_iff)

lemma foreign_loop_iff:
  "pid \<in> set (foreign_loop env (NewCPUTarget cpus) skip es) \<longleftrightarrow>
     (\<exists>name. (name, True) \<in> set es \<and> atoi name = (pid, None)) \<and> evictable env cpus skip pid"
proof (induction es)
  case (Cons e es)
  obtain name isDir where e: "e = (name, isDir)" by fastforce
  obtain p err where a: "atoi name = (p, err)" by fastforce
  show ?case
    using Cons a unfolding e
    by (cases err; cases "pe_affinity env p")
      (auto simp: evictable_def cpuSetIntersects_iff Let_def)
qed simp

lemma stop_loop_spec:
  "stop_loop env sig dryRun pids = (n, sent) \<Longrightarrow>
     sent = (if dryRun then [] else map (\<lambda>p. (p, sig)) pids) \<and>
     n = int (length (if dryRun then pids else filter (\<lambda>p. pe_kill env p sig = None) pids))"
  by (induction pids arbitrary: n sent) (auto split: prod.splits if_splits)

text \<open>
  C31. Eviction signals exactly the intended processes: those listed under \<^verbatim>\<open>/proc\<close> that may run on one of the
  given CPUs, but never process 1 or 0, the daemon itself or a process to be skipped; each gets the
  requested signal, the number returned is the number of signals delivered, and a dry run sends none.
\<close>

theorem evict_exact:
  assumes "StopForeignOnCPUs env (NewCPUTarget cpus) skip sig dryRun = (res, sent)" and "pe_entries env = Inr es"
  shows "(dryRun \<longrightarrow> sent = []) \<and>
    (\<not> dryRun \<longrightarrow> set sent = {(pid, sig) | pid name. (name, True) \<in> set es \<and> atoi name = (pid, None) \<and> evictable env cpus skip pid} \<and>
      res = Inr (int (length (filter (\<lambda>(p, s). pe_kill env p s = None) sent))))"
proof -
  let ?pids = "foreign_loop env (NewCPUTarget cpus) skip es"
  obtain n s where st: "stop_loop env sig dryRun ?pids = (n, s)" by fastforce
  with assms have r: "res = Inr n" "sent = s" by (auto simp: StopForeignOnCPUs_def ForeignPIDsOnCPUs_def)
  note spec = stop_loop_spec [OF st]
  have "set (map (\<lambda>p. (p, sig)) ?pids) =
      {(pid, sig) | pid name. (name, True) \<in> set es \<and> atoi name = (pid, None) \<and> evictable env cpus skip pid}"
    using foreign_loop_iff [of _ env cpus skip es] by auto
  then show ?thesis using r spec by (auto simp: filter_map comp_def)
qed

definition demo_procs :: proc_env where
  "demo_procs = \<lparr>pe_entries = Inr [(''1'', True), (''42'', True), (''cpuinfo'', False), (''7'', True)], pe_self = 7,
     pe_affinity = (\<lambda>_. Inr {0, 1}), pe_kill = (\<lambda>_ _. None)\<rparr>"

theorem evict_exact_witness:
  "\<exists>res sent. StopForeignOnCPUs demo_procs (NewCPUTarget [1]) {} 19 False = (res, sent) \<and> (42, 19) \<in> set sent \<and>
     (1, 19) \<notin> set sent \<and> (7, 19) \<notin> set sent"
proof -
  obtain res sent where r: "StopForeignOnCPUs demo_procs (NewCPUTarget [1]) {} 19 False = (res, sent)" by fastforce
  have es: "pe_entries demo_procs = Inr [(''1'', True), (''42'', True), (''cpuinfo'', False), (''7'', True)]"
    by (simp add: demo_procs_def)
  have nums: "atoi ''42'' = (42, None)" "atoi ''1'' = (1, None)" "atoi ''7'' = (7, None)" by code_simp+
  have ev: "evictable demo_procs [1] {} 42" "\<not> evictable demo_procs [1] {} 1" "\<not> evictable demo_procs [1] {} 7"
    by (simp_all add: evictable_def demo_procs_def)
  from evict_exact [OF r es] nums ev r show ?thesis by auto
qed

section \<open>Huge pages\<close>

text \<open>
  Setting huge pages writes at most one file, one of the two page-count files of the kernel, the one
  for the requested size, and writes the requested count; a negative count or an unknown size writes
  nothing and is an error.
\<close>

theorem hugepages_confined:
  assumes "SetNrHugepages write read pagesize n = (res, written)"
  shows "(written = [] \<longrightarrow> \<not> is_ok res \<and> (n < 0 \<or> \<not> is_ok (SysfsPath pagesize))) \<and>
    (written \<noteq> [] \<longrightarrow> 0 \<le> n \<and> (\<exists>path. SysfsPath pagesize = Inr path \<and> path \<in> {path_2m, path_1g} \<and>
      written = [(path, itoa n @ [CHR 0x0A])] \<and> (is_ok res \<longleftrightarrow> write path (itoa n @ [CHR 0x0A]) = None)))"
proof -
  have "path \<in> {path_2m, path_1g}" if "SysfsPath pagesize = Inr path" for path
    using that by (simp add: SysfsPath_def Let_def split: if_splits)
  then show ?thesis
    using assms
    by (auto simp: SetNrHugepages_def Let_def split: if_splits sum.splits option.splits prod.splits)
qed

theorem hugepages_confined_witness:
  "\<exists>path. SysfsPath '' 2MiB'' = Inr path \<and> path \<in> {path_2m, path_1g}"
proof -
  obtain res written where r: "SetNrHugepages (\<lambda>_ _. None) (\<lambda>_. Inl ''EPERM'') '' 2MiB'' 16 = (res, written)" by fastforce
  have "SysfsPath '' 2MiB'' = Inr path_2m" by code_simp
  then have "written \<noteq> []" using r by (auto simp: SetNrHugepages_def)
  with hugepages_confined [OF r] show ?thesis by blast
qed

end
