(* ===== verification/Daemon.thy ===== *)
theory Daemon
  imports Cgv2 Host Perf Systems "HOL-Library.Multiset"
begin

text \<open>
  The gRPC daemon (pkg/daemon/grpc_linux.go): a table of cells over the cgroup manager, and the requests
  that create, destroy and use them, watch the cache, set huge pages and evict processes.

  A request is an operation on the state (table and control-group tree); gRPC, processes, pipes, perf
  reads and the client's stream are arguments. Requests of different clients run concurrently: the
  lock covers the table only, so creating and destroying a cell are two steps each, one on the tree and
  one on the table, and the steps of different requests interleave.
\<close>

section \<open>Model: state and requests\<close>

record cellMeta =
  cm_Path :: string
  cm_CPUs :: "int list"

record Server =
  sv_cg :: Manager
  sv_cells :: "string \<rightharpoonup> cellMeta"

text \<open>
  The errors of the requests. The text of an error is kept as its parts where the code formats them:
  \<^verbatim>\<open>NotFound\<close> holds the id it quotes, \<^verbatim>\<open>PermissionDenied\<close> the error of the hugepages package, and \<open>PerfLLC\<close>
  (code Internal) the two errors of opening the counters.
\<close>

datatype status =
    InvalidArgument string
  | NotFound string
  | Internal string
  | FailedPrecondition string
  | PermissionDenied huge_error
  | PerfLLC "string option" "string option"
  | OtherError string

definition NewServer :: "string \<Rightarrow> cg_world \<Rightarrow> (string + Server) \<times> cg_world" where
  "NewServer cgroupRoot w =
     (case NewManager cgroupRoot w of
        (Inl e, w1) \<Rightarrow> (Inl e, w1)
      | (Inr cg, w1) \<Rightarrow> (Inr \<lparr>sv_cg = cg, sv_cells = Map.empty\<rparr>, w1))"

definition cg_error_text :: "cg_error \<Rightarrow> string" where
  "cg_error_text e =
     (case e of MkdirFailed s \<Rightarrow> s | CpusFailed s \<Rightarrow> ''cpuset.cpus: '' @ s | MemsFailed s \<Rightarrow> ''cpuset.mems: '' @ s)"

definition Server_CreateCell ::
  "string \<Rightarrow> int list \<Rightarrow> int list \<Rightarrow> bool \<Rightarrow> Server \<times> cg_world \<Rightarrow> (status + string) \<times> Server \<times> cg_world" where
  "Server_CreateCell cellId cpus mems exclusive = (\<lambda>(s, w).
     if cellId = [] \<or> cpus = [] then (Inl (InvalidArgument ''cell_id and cpus required''), s, w)
     else (case CreateCell (sv_cg s) cellId cpus mems exclusive w of
        (Inl e, w1) \<Rightarrow> (Inl (Internal (''create cell: '' @ cg_error_text e)), s, w1)
      | (Inr path, w1) \<Rightarrow>
          (Inr path, s\<lparr>sv_cells := (sv_cells s)(cellId \<mapsto> \<lparr>cm_Path = path, cm_CPUs = cpus\<rparr>)\<rparr>, w1)))"

definition Server_DestroyCell ::
  "string \<Rightarrow> Server \<times> cg_world \<Rightarrow> (status + unit) \<times> Server \<times> cg_world" where
  "Server_DestroyCell cellId = (\<lambda>(s, w).
     let s1 = s\<lparr>sv_cells := (sv_cells s)(cellId := None)\<rparr> in
     case DestroyCell (sv_cg s) cellId w of
       (Some e, w1) \<Rightarrow> (Inl (Internal (''destroy: '' @ e)), s1, w1)
     | (None, w1) \<Rightarrow> (Inr (), s1, w1))"

definition AttachPID ::
  "string \<Rightarrow> int \<Rightarrow> Server \<times> cg_world \<Rightarrow> (status + unit) \<times> Server \<times> cg_world" where
  "AttachPID cellId pid = (\<lambda>(s, w).
     case sv_cells s cellId of
       None \<Rightarrow> (Inl (NotFound cellId), s, w)
     | Some meta \<Rightarrow>
         (case Attach (cm_Path meta) pid w of
            (Some e, w1) \<Rightarrow> (Inl (Internal (''attach: '' @ e)), s, w1)
          | (None, w1) \<Rightarrow> (Inr (), s, w1)))"

section \<open>Model: running a command in a cell\<close>

record chunk =
  ck_Stdout :: string
  ck_Stderr :: string
  ck_ExitCode :: int
  ck_Finished :: bool

text \<open>
  What happens to the process: the errors of the two pipes and of \<^verbatim>\<open>Start\<close>, the process id, what the two
  pipes deliver, read by read, in the order the sends get the lock, and how the process ends.
\<close>

datatype wait_result = WaitOK | WaitExit int | WaitError string

record run_env =
  re_pipe1 :: "string option"
  re_pipe2 :: "string option"
  re_start :: "string option"
  re_pid :: int
  re_reads :: "(bool \<times> string) list"
  re_wait :: wait_result

text \<open>\<^verbatim>\<open>pipeToStream\<close>, both copies interleaved: a read of no bytes sends nothing.\<close>

definition pipe_chunks :: "(bool \<times> string) list \<Rightarrow> chunk list" where
  "pipe_chunks reads =
     concat (map (\<lambda>(stdout, b).
       if b = [] then []
       else [if stdout then \<lparr>ck_Stdout = b, ck_Stderr = [], ck_ExitCode = 0, ck_Finished = False\<rparr>
             else \<lparr>ck_Stdout = [], ck_Stderr = b, ck_ExitCode = 0, ck_Finished = False\<rparr>]) reads)"

definition last_chunk :: "wait_result \<Rightarrow> chunk" where
  "last_chunk r =
     (case r of
        WaitOK \<Rightarrow> \<lparr>ck_Stdout = [], ck_Stderr = [], ck_ExitCode = 0, ck_Finished = True\<rparr>
      | WaitExit c \<Rightarrow> \<lparr>ck_Stdout = [], ck_Stderr = [], ck_ExitCode = wrap32 c, ck_Finished = True\<rparr>
      | WaitError e \<Rightarrow> \<lparr>ck_Stdout = [], ck_Stderr = e @ [CHR 0x0A], ck_ExitCode = -1, ck_Finished = True\<rparr>)"

text \<open>The error, the chunks sent, the process started if any, and the new state. The result of \<^verbatim>\<open>Attach\<close> is dropped.\<close>

definition RunInCell ::
  "run_env \<Rightarrow> string \<Rightarrow> string list \<Rightarrow> Server \<times> cg_world \<Rightarrow>
   status option \<times> chunk list \<times> (int \<times> string list) option \<times> Server \<times> cg_world" where
  "RunInCell env cellId argv = (\<lambda>(s, w).
     case sv_cells s cellId of
       None \<Rightarrow> (Some (NotFound cellId), [], None, s, w)
     | Some meta \<Rightarrow>
         if argv = [] then (Some (InvalidArgument ''empty argv''), [], None, s, w)
         else (case re_pipe1 env of
           Some e \<Rightarrow> (Some (OtherError e), [], None, s, w)
         | None \<Rightarrow>
           (case re_pipe2 env of
              Some e \<Rightarrow> (Some (OtherError e), [], None, s, w)
            | None \<Rightarrow>
              (case re_start env of
                 Some e \<Rightarrow> (Some (OtherError e), [], None, s, w)
               | None \<Rightarrow>
                   (None, pipe_chunks (re_reads env) @ [last_chunk (re_wait env)], Some (re_pid env, argv), s,
                    snd (Attach (cm_Path meta) (re_pid env) w))))))"

section \<open>Model: watching the cache\<close>

record L3Sample =
  l3_refs :: "64 word"
  l3_misses :: "64 word"
  l3_time :: int

text \<open>
  One turn of the loop: whether the context is done, what the kernel answers about counters, the time, and whether
  sending fails.
\<close>

record watch_turn =
  wt_ctx :: "string option"
  wt_perf :: perf_kernel
  wt_time :: int
  wt_send :: "string option"

definition sum_error :: "string + 'a \<Rightarrow> string option" where
  "sum_error r = (case r of Inl e \<Rightarrow> Some e | Inr _ \<Rightarrow> None)"

text \<open>The clean-up of a turn in which a counter could not be opened.\<close>

definition close_opened :: "perf_kernel \<Rightarrow> string + Counter \<Rightarrow> perf_ev list" where
  "close_opened k r = (case r of Inl _ \<Rightarrow> [] | Inr c \<Rightarrow> snd (Counter_Close k c))"

text \<open>Measuring with two open counters: the values, and the calls made.\<close>

definition measure_llc :: "perf_kernel \<Rightarrow> int \<Rightarrow> Counter \<Rightarrow> Counter \<Rightarrow> 64 word \<times> 64 word \<times> perf_ev list" where
  "measure_llc k interval acc miss =
     (case ReadUint64 k acc of
        ((av, _), ra) \<Rightarrow>
          (case ReadUint64 k miss of
             ((mv, _), rm) \<Rightarrow>
               (av, mv,
                snd (Counter_Reset k acc) @ snd (Counter_Reset k miss) @ snd (Counter_Enable k acc) @ snd (Counter_Enable k miss) @
                [Paused interval] @ snd (Counter_Disable k acc) @ snd (Counter_Disable k miss) @ ra @ rm @
                snd (Counter_Close k acc) @ snd (Counter_Close k miss))))"

text \<open>
  The calls on counters, the samples sent and how the request ended; \<open>None\<close> when it is still running after these
  turns.
\<close>

fun watch_loop :: "int \<Rightarrow> int \<Rightarrow> watch_turn list \<Rightarrow> perf_ev list \<times> L3Sample list \<times> status option" where
  "watch_loop cpu interval [] = ([], [], None)"
| "watch_loop cpu interval (t # ts) =
     (case wt_ctx t of
        Some e \<Rightarrow> ([], [], Some (OtherError e))
      | None \<Rightarrow>
        (case OpenLLCLastLevelAccess (wt_perf t) (-1) cpu of
           (ra, ea) \<Rightarrow>
             (case OpenLLCLastLevelMiss (wt_perf t) (-1) cpu of
                (rm, em) \<Rightarrow>
                  (case (ra, rm) of
                     (Inr acc, Inr miss) \<Rightarrow>
                       (case measure_llc (wt_perf t) interval acc miss of
                          (av, mv, es) \<Rightarrow>
                            (case wt_send t of
                               Some e \<Rightarrow> (ea @ em @ es, [], Some (OtherError e))
                             | None \<Rightarrow>
                                 (case watch_loop cpu interval ts of
                                    (es1, ss, st) \<Rightarrow>
                                      (ea @ em @ es @ es1, \<lparr>l3_refs = av, l3_misses = mv, l3_time = wt_time t\<rparr> # ss, st))))
                   | _ \<Rightarrow>
                       (ea @ em @ close_opened (wt_perf t) ra @ close_opened (wt_perf t) rm, [],
                        Some (PerfLLC (sum_error ra) (sum_error rm)))))))"

text \<open>The sampling interval in nanoseconds, from the request's 32-bit millisecond count.\<close>

definition watch_interval :: "int \<Rightarrow> int" where
  "watch_interval ms =
     (let interval = wrap64 (ms * 1000000) in if interval < 50 * 1000000 then 100 * 1000000 else interval)"

definition WatchL3 ::
  "watch_turn list \<Rightarrow> string \<Rightarrow> int \<Rightarrow> Server \<Rightarrow> perf_ev list \<times> L3Sample list \<times> status option" where
  "WatchL3 turns cellId intervalMs s =
     (case sv_cells s cellId of
        None \<Rightarrow> ([], [], Some (NotFound cellId))
      | Some meta \<Rightarrow>
          (case cm_CPUs meta of
             [] \<Rightarrow> ([], [], Some (FailedPrecondition ''cell has no cpus''))
           | cpu # _ \<Rightarrow> watch_loop cpu (watch_interval intervalMs) turns))"

section \<open>Model: host requests\<close>

definition SetHugepages ::
  "(string \<Rightarrow> string \<Rightarrow> string option) \<Rightarrow> (string \<Rightarrow> string + string) \<Rightarrow> string \<Rightarrow> int \<Rightarrow>
   (status + int) \<times> (string \<times> string) list" where
  "SetHugepages write read pagesize pages =
     (let ps = (if pagesize = [] then ''2M'' else pagesize) in
      case SetNrHugepages write read ps pages of
        (Inl e, written) \<Rightarrow> (Inl (PermissionDenied e), written)
      | (Inr v, written) \<Rightarrow> (Inr (wrap32 v), written))"

definition EvictForeign ::
  "proc_env \<Rightarrow> int list \<Rightarrow> int \<Rightarrow> bool \<Rightarrow> (status + int) \<times> (int \<times> int) list" where
  "EvictForeign env cpus signalNumber dryRun =
     (if cpus = [] then (Inl (InvalidArgument ''cpus required''), [])
      else
        (let sig = (if signalNumber \<noteq> 0 then signalNumber else 19) in
         case StopForeignOnCPUs env (NewCPUTarget cpus) {pe_self env} sig dryRun of
           (Inl e, sent) \<Rightarrow> (Inl (Internal (''evict: '' @ e)), sent)
         | (Inr n, sent) \<Rightarrow> (Inr (wrap32 n), sent)))"

section \<open>Serve\<close>

text \<open>\<^verbatim>\<open>Serve\<close>: the listener comes first; \<open>listen\<close> and \<open>serve\<close> are the outcomes of the network calls.\<close>

definition Serve ::
  "(string \<Rightarrow> string option) \<Rightarrow> (Server \<Rightarrow> string option) \<Rightarrow> string \<Rightarrow> string \<Rightarrow> cg_world \<Rightarrow> string option \<times> cg_world" where
  "Serve listen serve addr cgroupRoot w =
     (case listen addr of
        Some e \<Rightarrow> (Some e, w)
      | None \<Rightarrow>
          (case NewServer cgroupRoot w of
             (Inl e, w1) \<Rightarrow> (Some e, w1)
           | (Inr srv, w1) \<Rightarrow> (serve srv, w1)))"

section \<open>The table of cells as an abstract service\<close>

text \<open>
  A client sees a map from cell ids to the CPUs requested for them. The interface: what a request does to
  that map, given whether it was answered with success.
\<close>

datatype request =
    CreateReq string "int list" "int list" bool
  | DestroyReq string
  | AttachReq string int
  | RunReq run_env string "string list"
  | WatchReq "watch_turn list" string int
  | HugeReq "string \<Rightarrow> string \<Rightarrow> string option" "string \<Rightarrow> string + string" string int
  | EvictReq proc_env "int list" int bool

definition sum_status :: "status + 'a \<Rightarrow> status option" where
  "sum_status r = (case r of Inl e \<Rightarrow> Some e | Inr _ \<Rightarrow> None)"

definition serve :: "request \<Rightarrow> Server \<times> cg_world \<Rightarrow> status option \<times> Server \<times> cg_world" where
  "serve r st =
     (case r of
        CreateReq i cpus mems excl \<Rightarrow> (case Server_CreateCell i cpus mems excl st of (x, st1) \<Rightarrow> (sum_status x, st1))
      | DestroyReq i \<Rightarrow> (case Server_DestroyCell i st of (x, st1) \<Rightarrow> (sum_status x, st1))
      | AttachReq i pid \<Rightarrow> (case AttachPID i pid st of (x, st1) \<Rightarrow> (sum_status x, st1))
      | RunReq env i argv \<Rightarrow> (case RunInCell env i argv st of (x, _, _, st1) \<Rightarrow> (x, st1))
      | WatchReq turns i ms \<Rightarrow> (case WatchL3 turns i ms (fst st) of (_, _, x) \<Rightarrow> (x, st))
      | HugeReq write read pagesize pages \<Rightarrow> (sum_status (fst (SetHugepages write read pagesize pages)), st)
      | EvictReq env cpus sig dryRun \<Rightarrow> (sum_status (fst (EvictForeign env cpus sig dryRun)), st))"

definition spec_cells :: "request \<Rightarrow> bool \<Rightarrow> (string \<rightharpoonup> int list) \<Rightarrow> (string \<rightharpoonup> int list)" where
  "spec_cells r ok m =
     (case r of
        CreateReq i cpus mems excl \<Rightarrow> if ok then m(i \<mapsto> cpus) else m
      | DestroyReq i \<Rightarrow> m(i := None)
      | _ \<Rightarrow> m)"

definition needs_cell :: "request \<Rightarrow> string option" where
  "needs_cell r = (case r of AttachReq i _ \<Rightarrow> Some i | RunReq _ i _ \<Rightarrow> Some i | WatchReq _ i _ \<Rightarrow> Some i | _ \<Rightarrow> None)"

text \<open>Requests one after the other, with their answers.\<close>

fun handle_all :: "(request \<Rightarrow> 's \<Rightarrow> status option \<times> 's) \<Rightarrow> request list \<Rightarrow> 's \<Rightarrow> status option list \<times> 's" where
  "handle_all handle [] s = ([], s)"
| "handle_all handle (r # rs) s =
     (case handle r s of (e, s1) \<Rightarrow> (case handle_all handle rs s1 of (es, s2) \<Rightarrow> (e # es, s2)))"

locale cell_service =
  fixes cells :: "'s \<Rightarrow> string \<rightharpoonup> int list"
    and handle :: "request \<Rightarrow> 's \<Rightarrow> status option \<times> 's"
  assumes handle_cells: "handle r s = (e, s') \<Longrightarrow> cells s' = spec_cells r (e = None) (cells s)"
    and handle_unknown: "handle r s = (e, s') \<Longrightarrow> e = Some (NotFound i) \<longleftrightarrow> needs_cell r = Some i \<and> cells s i = None"
    and create_cpus: "handle (CreateReq i cpus mems excl) s = (None, s') \<Longrightarrow> cpus \<noteq> []"
begin

lemma handle_all_cells:
  "handle_all handle rs s = (es, s') \<Longrightarrow>
     length es = length rs \<and> cells s' = fold (\<lambda>(r, e). spec_cells r (e = None)) (zip rs es) (cells s)"
proof (induction rs arbitrary: s es s')
  case (Cons r rs)
  obtain e s1 where h: "handle r s = (e, s1)" by fastforce
  obtain es1 s2 where t: "handle_all handle rs s1 = (es1, s2)" by fastforce
  from Cons.prems h t have "es = e # es1" "s' = s2" by simp_all
  with Cons.IH [OF t] handle_cells [OF h] show ?case by simp
qed simp

lemma create_then_known:
  assumes "handle (CreateReq i cpus mems excl) s = (None, s1)" and "handle_all handle rs s1 = (es, s2)"
    and "\<forall>r \<in> set rs. r \<noteq> DestroyReq i \<and> (\<forall>c m x. r \<noteq> CreateReq i c m x)"
  shows "cells s2 i = Some cpus"
proof -
  have one: "spec_cells r ok m i = m i" if "r \<noteq> DestroyReq i" "\<forall>c n x. r \<noteq> CreateReq i c n x" for r ok m
    using that by (auto simp: spec_cells_def split: request.splits)
  have "fold (\<lambda>(r, e). spec_cells r (e = None)) ps m i = m i"
    if "\<forall>p \<in> set ps. fst p \<noteq> DestroyReq i \<and> (\<forall>c n x. fst p \<noteq> CreateReq i c n x)" for ps :: "(request \<times> status option) list" and m
    using that by (induction ps arbitrary: m) (auto simp: one split: prod.splits)
  moreover have "fst p \<in> set rs" if "p \<in> set (zip rs es)" for p
    using that set_zip_leftD [of "fst p" "snd p" rs es] by simp
  ultimately show ?thesis
    using handle_all_cells [OF assms(2)] handle_cells [OF assms(1)] assms(3) by (simp add: spec_cells_def)
qed

end

definition client_cells :: "Server \<times> cg_world \<Rightarrow> string \<rightharpoonup> int list" where
  "client_cells st i = map_option cm_CPUs (sv_cells (fst st) i)"

lemma watch_loop_status:
  "watch_loop cpu d turns = (es, ss, Some e) \<Longrightarrow> (\<exists>x. e = OtherError x) \<or> (\<exists>a m. e = PerfLLC a m)"
  by (induction turns arbitrary: es ss) (auto split: option.splits sum.splits prod.splits)

lemma serve_cells: "serve r st = (e, st') \<Longrightarrow> client_cells st' = spec_cells r (e = None) (client_cells st)"
  by (cases st; cases r)
    (auto simp: serve_def client_cells_def spec_cells_def Server_CreateCell_def Server_DestroyCell_def AttachPID_def
       RunInCell_def sum_status_def Let_def fun_eq_iff split: if_splits prod.splits sum.splits option.splits)

lemma host_requests_known:
  "sum_status (fst (SetHugepages write read pagesize pages)) \<noteq> Some (NotFound i)"
  "sum_status (fst (EvictForeign env cpus sig dryRun)) \<noteq> Some (NotFound i)"
  by (auto simp: SetHugepages_def EvictForeign_def sum_status_def Let_def split: prod.splits sum.splits)

lemma serve_unknown:
  assumes "serve r st = (e, st')"
  shows "e = Some (NotFound i) \<longleftrightarrow> needs_cell r = Some i \<and> client_cells st i = None"
proof (cases r)
  case (WatchReq turns c ms)
  have "snd (snd (watch_loop cpu d turns)) \<noteq> Some (NotFound i)" for cpu d
    using watch_loop_status [of cpu d turns] by (cases "watch_loop cpu d turns") fastforce
  with assms WatchReq show ?thesis
    by (cases st) (auto simp: serve_def client_cells_def needs_cell_def WatchL3_def split_beta split: option.splits list.splits)
next
  case (HugeReq wr rd pagesize pages)
  with assms host_requests_known(1) show ?thesis by (auto simp: serve_def needs_cell_def)
next
  case (EvictReq env cpus sig dryRun)
  with assms host_requests_known(2) show ?thesis by (auto simp: serve_def needs_cell_def)
qed (use assms in \<open>cases st; auto simp: serve_def client_cells_def needs_cell_def Server_CreateCell_def
  Server_DestroyCell_def AttachPID_def RunInCell_def sum_status_def Let_def split: if_splits prod.splits sum.splits option.splits\<close>)+

lemma serve_create_cpus: "serve (CreateReq i cpus mems excl) st = (None, st') \<Longrightarrow> i \<noteq> [] \<and> cpus \<noteq> []"
  by (cases st) (auto simp: serve_def Server_CreateCell_def sum_status_def split: if_splits prod.splits)

interpretation dsvc: cell_service client_cells serve
  by unfold_locales (use serve_cells serve_unknown serve_create_cpus in blast)+

text \<open>
  C15. The daemon implements a map from cell ids to CPU sets: after any sequence of requests the table is the
  one the abstract map reaches by the same requests (a successful create maps the id to the requested
  CPUs, a destroy unmaps it even when removing the directory fails, all else changes nothing), and
  the next request is answered NotFound exactly when it names a cell the abstract map does not have.
\<close>

theorem daemon_refines_cells:
  assumes "handle_all serve rs st = (es, st')"
  shows "length es = length rs \<and> client_cells st' = fold (\<lambda>(r, e). spec_cells r (e = None)) (zip rs es) (client_cells st) \<and>
    (\<forall>r e st2 i. serve r st' = (e, st2) \<longrightarrow> (e = Some (NotFound i) \<longleftrightarrow> needs_cell r = Some i \<and>
       fold (\<lambda>(r, e). spec_cells r (e = None)) (zip rs es) (client_cells st) i = None))"
  using dsvc.handle_all_cells [OF assms] dsvc.handle_unknown by metis

definition demo_server :: "Server \<times> cg_world" where
  "demo_server = (\<lparr>sv_cg = demo_manager, sv_cells = Map.empty\<rparr>, empty_cg)"

lemma create_demo:
  assumes "i \<noteq> []" and "cpus \<noteq> []" and "cg_fail w = Map.empty" and "sv_cg s = demo_manager"
  shows "\<exists>w'. Server_CreateCell i cpus [] False (s, w) = (Inr (CellPath demo_manager i),
    s\<lparr>sv_cells := (sv_cells s)(i \<mapsto> \<lparr>cm_Path = CellPath demo_manager i, cm_CPUs = cpus\<rparr>)\<rparr>, w') \<and> cg_fail w' = Map.empty"
  using CreateCell_succeeds [OF demo_root assms(3), of i cpus "[]" False] assms by (auto simp: Server_CreateCell_def)

theorem daemon_refines_cells_witness:
  "\<exists>es st. handle_all serve [CreateReq ''a'' [2, 3] [] False, DestroyReq ''b''] demo_server = (es, st) \<and>
     client_cells st ''a'' = Some [2, 3]"
proof -
  let ?rs = "[CreateReq ''a'' [2, 3] [] False, DestroyReq ''b'']"
  obtain es st where h: "handle_all serve ?rs demo_server = (es, st)" by (rule prod.exhaust)
  have "\<exists>s1. serve (CreateReq ''a'' [2, 3] [] False) demo_server = (None, s1)"
    using create_demo [of "''a''" "[2, 3]" empty_cg "\<lparr>sv_cg = demo_manager, sv_cells = Map.empty\<rparr>"]
    by (auto simp: serve_def demo_server_def sum_status_def empty_cg_def)
  with h have "\<exists>e. es = [None, e]" by (auto split: prod.splits)
  with daemon_refines_cells [OF h] h show ?thesis by (auto simp: spec_cells_def)
qed

section \<open>Interleaved requests\<close>

text \<open>
  A create changes the tree and, later, the table; a destroy the table and, later, the tree. The half that is
  still to come is pending; steps of other requests may come in between.
\<close>

datatype pending = CommitCreate string cellMeta | CommitDestroy string

record dstate =
  dt_srv :: Server
  dt_world :: cg_world
  dt_pending :: "pending multiset"

definition create_begin :: "string \<Rightarrow> int list \<Rightarrow> int list \<Rightarrow> bool \<Rightarrow> dstate \<Rightarrow> dstate" where
  "create_begin i cpus mems excl d =
     (if i = [] \<or> cpus = [] then d
      else (case CreateCell (sv_cg (dt_srv d)) i cpus mems excl (dt_world d) of
        (Inl e, w) \<Rightarrow> d\<lparr>dt_world := w\<rparr>
      | (Inr path, w) \<Rightarrow>
          d\<lparr>dt_world := w, dt_pending := add_mset (CommitCreate i \<lparr>cm_Path = path, cm_CPUs = cpus\<rparr>) (dt_pending d)\<rparr>))"

definition destroy_begin :: "string \<Rightarrow> dstate \<Rightarrow> dstate" where
  "destroy_begin i d =
     d\<lparr>dt_srv := (dt_srv d)\<lparr>sv_cells := (sv_cells (dt_srv d))(i := None)\<rparr>,
       dt_pending := add_mset (CommitDestroy i) (dt_pending d)\<rparr>"

definition commit :: "pending \<Rightarrow> dstate \<Rightarrow> dstate" where
  "commit p d =
     (case p of
        CommitCreate i m \<Rightarrow> d\<lparr>dt_srv := (dt_srv d)\<lparr>sv_cells := (sv_cells (dt_srv d))(i \<mapsto> m)\<rparr>, dt_pending := dt_pending d - {#p#}\<rparr>
      | CommitDestroy i \<Rightarrow>
          d\<lparr>dt_world := snd (DestroyCell (sv_cg (dt_srv d)) i (dt_world d)), dt_pending := dt_pending d - {#p#}\<rparr>)"

inductive dstep :: "dstate \<Rightarrow> dstate \<Rightarrow> bool" where
  create: "dstep d (create_begin i cpus mems excl d)"
| destroy: "dstep d (destroy_begin i d)"
| commit: "p \<in># dt_pending d \<Longrightarrow> dstep d (commit p d)"
| attach: "AttachPID i pid (dt_srv d, dt_world d) = (r, s, w) \<Longrightarrow> dstep d (d\<lparr>dt_srv := s, dt_world := w\<rparr>)"
| run: "RunInCell env i argv (dt_srv d, dt_world d) = (r, chunks, pr, s, w) \<Longrightarrow> dstep d (d\<lparr>dt_srv := s, dt_world := w\<rparr>)"

inductive_cases dstep_cases: "dstep d d'"

text \<open>With nothing in between the two halves are the request.\<close>

lemma create_halves:
  assumes "Server_CreateCell i cpus mems excl (dt_srv d, dt_world d) = (Inr path, s', w')"
  shows "\<exists>p. commit p (create_begin i cpus mems excl d) = d\<lparr>dt_srv := s', dt_world := w'\<rparr>"
  using assms
  by (intro exI [of _ "CommitCreate i \<lparr>cm_Path = path, cm_CPUs = cpus\<rparr>"])
    (auto simp: Server_CreateCell_def create_begin_def commit_def split: if_splits prod.splits sum.splits)

lemma destroy_halves:
  assumes "Server_DestroyCell i (dt_srv d, dt_world d) = (r, s', w')"
  shows "commit (CommitDestroy i) (destroy_begin i d) = d\<lparr>dt_srv := s', dt_world := w'\<rparr>"
  using assms
  by (auto simp: Server_DestroyCell_def destroy_begin_def commit_def Let_def split: prod.splits option.splits)

inductive dreach :: "dstate \<Rightarrow> bool" where
  start: "NewServer root w0 = (Inr s, w) \<Longrightarrow> dreach \<lparr>dt_srv = s, dt_world = w, dt_pending = {#}\<rparr>"
| step: "dreach d \<Longrightarrow> dstep d d' \<Longrightarrow> dreach d'"

lemmas dreach_create = dreach.step [OF _ dstep.create]
  and dreach_destroy = dreach.step [OF _ dstep.destroy]
  and dreach_commit = dreach.step [OF _ dstep.commit]

definition cell_ok :: "Manager \<Rightarrow> string \<Rightarrow> cellMeta \<Rightarrow> bool" where
  "cell_ok m i c \<longleftrightarrow> i \<noteq> [] \<and> cm_Path c = CellPath m i \<and> cm_CPUs c \<noteq> []"

definition daemon_inv :: "dstate \<Rightarrow> bool" where
  "daemon_inv d \<longleftrightarrow>
     (\<forall>i c. sv_cells (dt_srv d) i = Some c \<longrightarrow> cell_ok (sv_cg (dt_srv d)) i c) \<and>
     (\<forall>i c. CommitCreate i c \<in># dt_pending d \<longrightarrow> cell_ok (sv_cg (dt_srv d)) i c)"

lemma CreateCell_path: "CreateCell m i cpus mems excl w = (Inr path, w') \<Longrightarrow> path = CellPath m i"
  by (rule CreateCell_ok) auto

lemma inv_create: "daemon_inv d \<Longrightarrow> daemon_inv (create_begin i cpus mems excl d)"
  by (auto simp: create_begin_def daemon_inv_def cell_ok_def dest: CreateCell_path split: prod.splits sum.splits)

lemma inv_destroy: "daemon_inv d \<Longrightarrow> daemon_inv (destroy_begin i d)"
  by (auto simp: destroy_begin_def daemon_inv_def)

lemma inv_commit: "daemon_inv d \<Longrightarrow> p \<in># dt_pending d \<Longrightarrow> daemon_inv (commit p d)"
  by (auto simp: commit_def daemon_inv_def dest: in_diffD split: pending.splits)

lemma AttachPID_srv: "AttachPID i pid (s, w) = (r, s', w') \<Longrightarrow> s' = s"
  by (auto simp: AttachPID_def split: option.splits prod.splits)

lemma RunInCell_srv: "RunInCell env i argv (s, w) = (r, chunks, pr, s', w') \<Longrightarrow> s' = s"
  by (auto simp: RunInCell_def split: option.splits if_splits)

lemma dstep_inv: "dstep d d' \<Longrightarrow> daemon_inv d \<Longrightarrow> daemon_inv d'"
proof (induction rule: dstep.induct)
  case (attach i pid d r s w)
  with AttachPID_srv [OF attach(1)] show ?case by (simp add: daemon_inv_def)
next
  case (run env i argv d r chunks pr s w)
  with RunInCell_srv [OF run(1)] show ?case by (simp add: daemon_inv_def)
qed (auto intro: inv_create inv_destroy inv_commit)

text \<open>
  Seen from the table, the interleaved requests are updates of a map from ids to CPUs: a commit enters a cell with at least one CPU, the
  beginning of a destroy removes one, and nothing else changes it.
\<close>

inductive table_step :: "(string \<rightharpoonup> int list) \<Rightarrow> (string \<rightharpoonup> int list) \<Rightarrow> bool" where
  enter: "i \<noteq> [] \<Longrightarrow> cpus \<noteq> [] \<Longrightarrow> table_step m (m(i \<mapsto> cpus))"
| remove: "table_step m (m(i := None))"

definition table_abs :: "dstate \<Rightarrow> string \<rightharpoonup> int list" where
  "table_abs d = client_cells (dt_srv d, dt_world d)"

lemma dstep_table: "dstep d d' \<Longrightarrow> daemon_inv d \<Longrightarrow> table_step\<^sup>=\<^sup>= (table_abs d) (table_abs d')"
proof (induction rule: dstep.induct)
  case (create d i cpus mems excl)
  then show ?case by (auto simp: create_begin_def table_abs_def client_cells_def split: prod.splits sum.splits)
next
  case (destroy d i)
  have "table_abs (destroy_begin i d) = (table_abs d)(i := None)"
    by (simp add: destroy_begin_def table_abs_def client_cells_def fun_eq_iff)
  then show ?case using table_step.remove sup2I1 by metis
next
  case (commit p d)
  show ?case
  proof (cases p)
    case (CommitCreate i c)
    with commit have "i \<noteq> [] \<and> cm_CPUs c \<noteq> []" by (auto simp: daemon_inv_def cell_ok_def)
    moreover have "table_abs (commit p d) = (table_abs d)(i \<mapsto> cm_CPUs c)"
      by (simp add: CommitCreate commit_def table_abs_def client_cells_def fun_eq_iff)
    ultimately show ?thesis using table_step.enter sup2I1 by metis
  next
    case (CommitDestroy i)
    then show ?thesis by (auto simp: commit_def table_abs_def client_cells_def split: prod.splits)
  qed
next
  case (attach i pid d r s w)
  with AttachPID_srv [OF attach(1)] show ?case by (simp add: table_abs_def client_cells_def)
next
  case (run env i argv d r chunks pr s w)
  with RunInCell_srv [OF run(1)] show ?case by (simp add: table_abs_def client_cells_def)
qed

interpretation table: simulation dstep daemon_inv table_step table_abs
  by unfold_locales (use dstep_inv dstep_table in blast)+

lemma dreach_run: "dreach d \<Longrightarrow> \<exists>root w0 s w. NewServer root w0 = (Inr s, w) \<and> dstep\<^sup>*\<^sup>* \<lparr>dt_srv = s, dt_world = w, dt_pending = {#}\<rparr> d"
  by (induction rule: dreach.induct) (blast intro: rtranclp.rtrancl_into_rtrancl)+

lemma start_table: "NewServer root w0 = (Inr s, w) \<Longrightarrow> sv_cells s = Map.empty"
  by (auto simp: NewServer_def split: prod.splits sum.splits)

lemma start_inv: "NewServer root w0 = (Inr s, w) \<Longrightarrow> daemon_inv \<lparr>dt_srv = s, dt_world = w, dt_pending = {#}\<rparr>"
  by (simp add: daemon_inv_def start_table)

lemma dreach_inv: "dreach d \<Longrightarrow> daemon_inv d"
  using dreach_run table.run_inv start_inv by blast

text \<open>Every table the daemon can have is made by such updates from the empty one.\<close>

lemma dreach_table: "dreach d \<Longrightarrow> table_step\<^sup>*\<^sup>* Map.empty (table_abs d)"
proof -
  assume "dreach d"
  then obtain root w0 s w where n: "NewServer root w0 = (Inr s, w)" and r: "dstep\<^sup>*\<^sup>* \<lparr>dt_srv = s, dt_world = w, dt_pending = {#}\<rparr> d"
    using dreach_run by blast
  have "table_abs \<lparr>dt_srv = s, dt_world = w, dt_pending = {#}\<rparr> = Map.empty"
    using start_table [OF n] by (simp add: table_abs_def client_cells_def fun_eq_iff)
  with table.run_sim [OF r start_inv [OF n]] show ?thesis by simp
qed

text \<open>
  C23. Under every interleaving of the clients' requests each cell of the table has a non-empty id, the path the
  manager gives that id, and at least one CPU; so watching a cell never ends in the error that it
  has no CPUs, and attaching writes to the process file of the directory of that very id. The table itself is
  one that the abstract updates (map an id to CPUs, unmap it) make from the empty map.
\<close>

theorem daemon_cells_wf:
  assumes "dreach d" and "sv_cells (dt_srv d) i = Some c"
  shows "i \<noteq> [] \<and> cm_Path c = CellPath (sv_cg (dt_srv d)) i \<and> cm_CPUs c \<noteq> [] \<and>
    (\<forall>turns ms x. snd (snd (WatchL3 turns i ms (dt_srv d))) \<noteq> Some (FailedPrecondition x)) \<and>
    (\<forall>pid. snd (snd (AttachPID i pid (dt_srv d, dt_world d))) =
       snd (write_file (path_join [CellPath (sv_cg (dt_srv d)) i, ''cgroup.procs'']) (itoa pid @ [CHR 0x0A]) (dt_world d))) \<and>
    table_step\<^sup>*\<^sup>* Map.empty (table_abs d)"
proof -
  have ok: "cell_ok (sv_cg (dt_srv d)) i c" using dreach_inv [OF assms(1)] assms(2) by (simp add: daemon_inv_def)
  have "snd (snd (watch_loop cpu d turns)) \<noteq> Some (FailedPrecondition x)" for cpu d turns x
    using watch_loop_status [of cpu d turns] by (cases "watch_loop cpu d turns") fastforce
  then show ?thesis using ok assms(2) dreach_table [OF assms(1)]
    by (auto simp: cell_ok_def WatchL3_def AttachPID_def Attach_def split: list.splits option.splits prod.splits)
qed

section \<open>Cells that lose their control group\<close>

text \<open>A state in which the daemon lists a cell although its directory and all files below are gone.\<close>

definition orphaned :: "string \<Rightarrow> dstate \<Rightarrow> bool" where
  "orphaned i d \<longleftrightarrow>
     (\<exists>c. sv_cells (dt_srv d) i = Some c \<and> cm_Path c \<notin> cg_dirs (dt_world d) \<and>
       (\<forall>f. has_prefix f (cm_Path c @ ''/'') \<longrightarrow> cg_files (dt_world d) f = None))"

lemma remove_all_gone:
  assumes "remove_all p w = (None, w')"
  shows "p \<notin> cg_dirs w'" and "has_prefix f (p @ ''/'') \<Longrightarrow> cg_files w' f = None"
  using assms by (auto simp: remove_all_def Let_def split: option.splits)

text \<open>
  Cell ids are not kept apart. Ids that differ only in characters outside letters, digits, dash and
  underscore share one control group: destroying one cell with success removes the directory of the
  other, which the daemon goes on listing.
\<close>

theorem cell_ids_collide:
  assumes "dreach d" and "sanitizeID i = sanitizeID j" and "i \<noteq> j" and "sv_cells (dt_srv d) i = Some c"
    and "Server_DestroyCell j (dt_srv d, dt_world d) = (Inr (), s', w')"
  shows "orphaned i (d\<lparr>dt_srv := s', dt_world := w'\<rparr>)"
proof -
  have "cm_Path c = CellPath (sv_cg (dt_srv d)) j"
    using dreach_inv [OF assms(1)] assms(2,4) by (auto simp: daemon_inv_def cell_ok_def CellPath_def)
  moreover have "remove_all (CellPath (sv_cg (dt_srv d)) j) (dt_world d) = (None, w')" "sv_cells s' i = Some c"
    using assms(3-5) by (auto simp: Server_DestroyCell_def DestroyCell_def Let_def split: prod.splits option.splits)
  ultimately show ?thesis using remove_all_gone [of "cm_Path c" "dt_world d" w'] by (auto simp: orphaned_def)
qed

lemma NewServer_demo:
  "\<exists>w. NewServer ''/sys/fs/cgroup/nf'' empty_cg = (Inr \<lparr>sv_cg = demo_manager, sv_cells = Map.empty\<rparr>, w) \<and> cg_fail w = Map.empty"
proof -
  have keeps: "cg_fail (snd (enableController dir name w)) = cg_fail w" for dir name w
    by (simp add: enableController_def Let_def split: sum.splits)
  obtain w1 where "mkdirAll ''/sys/fs/cgroup/nf'' empty_cg = (None, w1)" "cg_fail w1 = Map.empty"
    using mkdirAll_succeeds [of empty_cg "''/sys/fs/cgroup/nf''"] by auto
  then show ?thesis using keeps by (simp add: NewServer_def NewManager_def demo_manager_def Let_def)
qed

lemma reach_demo:
  assumes "i \<noteq> []" and "cpus \<noteq> []"
  shows "\<exists>w. dreach \<lparr>dt_srv = \<lparr>sv_cg = demo_manager, sv_cells = [i \<mapsto> \<lparr>cm_Path = CellPath demo_manager i, cm_CPUs = cpus\<rparr>]\<rparr>,
    dt_world = w, dt_pending = {#}\<rparr> \<and> cg_fail w = Map.empty"
proof -
  obtain w where n: "NewServer ''/sys/fs/cgroup/nf'' empty_cg = (Inr \<lparr>sv_cg = demo_manager, sv_cells = Map.empty\<rparr>, w)"
    and f: "cg_fail w = Map.empty" using NewServer_demo by blast
  let ?d = "\<lparr>dt_srv = \<lparr>sv_cg = demo_manager, sv_cells = Map.empty\<rparr>, dt_world = w, dt_pending = {#}\<rparr>"
  obtain w' where c: "Server_CreateCell i cpus [] False (dt_srv ?d, dt_world ?d) = (Inr (CellPath demo_manager i),
      (dt_srv ?d)\<lparr>sv_cells := (sv_cells (dt_srv ?d))(i \<mapsto> \<lparr>cm_Path = CellPath demo_manager i, cm_CPUs = cpus\<rparr>)\<rparr>, w')"
    and f': "cg_fail w' = Map.empty" using create_demo [OF assms f, of "dt_srv ?d"] by auto
  let ?e = "create_begin i cpus [] False ?d" and ?p = "CommitCreate i \<lparr>cm_Path = CellPath demo_manager i, cm_CPUs = cpus\<rparr>"
  have "dt_pending ?e = {#?p#}" and e: "commit ?p ?e = ?d\<lparr>dt_srv := \<lparr>sv_cg = demo_manager,
      sv_cells = [i \<mapsto> \<lparr>cm_Path = CellPath demo_manager i, cm_CPUs = cpus\<rparr>]\<rparr>, dt_world := w'\<rparr>"
    using c assms by (auto simp: Server_CreateCell_def create_begin_def commit_def split: prod.splits sum.splits)
  then have "dreach (commit ?p ?e)"
    by (intro dreach_commit [OF dreach_create [OF dreach.start [OF n]]]) simp
  with e f' show ?thesis by auto
qed

theorem daemon_cells_wf_witness:
  "\<exists>d c. dreach d \<and> sv_cells (dt_srv d) ''a'' = Some c \<and> cm_CPUs c \<noteq> []"
proof -
  obtain w where "dreach \<lparr>dt_srv = \<lparr>sv_cg = demo_manager, sv_cells = [''a'' \<mapsto> \<lparr>cm_Path = CellPath demo_manager ''a'', cm_CPUs = [1]\<rparr>]\<rparr>,
    dt_world = w, dt_pending = {#}\<rparr>" (is "dreach ?d") using reach_demo [of "''a''" "[1]"] by auto
  from daemon_cells_wf [OF this, of "''a''"] this show ?thesis by (intro exI [of _ ?d]) auto
qed

theorem cell_ids_collide_witness:
  "\<exists>d s' w'. dreach d \<and> Server_DestroyCell ''a-b'' (dt_srv d, dt_world d) = (Inr (), s', w') \<and>
     orphaned ''a/b'' (d\<lparr>dt_srv := s', dt_world := w'\<rparr>)"
proof -
  obtain w where d: "dreach \<lparr>dt_srv = \<lparr>sv_cg = demo_manager,
      sv_cells = [''a/b'' \<mapsto> \<lparr>cm_Path = CellPath demo_manager ''a/b'', cm_CPUs = [1]\<rparr>]\<rparr>, dt_world = w, dt_pending = {#}\<rparr>" (is "dreach ?d")
    and f: "cg_fail w = Map.empty" using reach_demo [of "''a/b''" "[1]"] by auto
  have same: "sanitizeID ''a/b'' = sanitizeID ''a-b''" by code_simp
  obtain s' w' where x: "Server_DestroyCell ''a-b'' (dt_srv ?d, dt_world ?d) = (Inr (), s', w')"
    using f by (auto simp: Server_DestroyCell_def DestroyCell_def remove_all_def Let_def)
  have "orphaned ''a/b'' (?d\<lparr>dt_srv := s', dt_world := w'\<rparr>)"
    by (rule cell_ids_collide [OF d same _ _ x]) auto
  with d x show ?thesis by blast
qed

text \<open>
  The lock of the table does not cover the control-group tree: a create and a destroy of the same id can
  interleave so that, with both requests finished, the daemon lists the cell and its control
  group is gone, without any id collision.
\<close>

theorem create_destroy_race:
  "\<exists>d. dreach d \<and> dt_pending d = {#} \<and> orphaned ''a'' d"
proof -
  obtain w where n: "NewServer ''/sys/fs/cgroup/nf'' empty_cg = (Inr \<lparr>sv_cg = demo_manager, sv_cells = Map.empty\<rparr>, w)"
    and f: "cg_fail w = Map.empty" using NewServer_demo by blast
  let ?d = "\<lparr>dt_srv = \<lparr>sv_cg = demo_manager, sv_cells = Map.empty\<rparr>, dt_world = w, dt_pending = {#}\<rparr>"
  let ?m = "\<lparr>cm_Path = CellPath demo_manager ''a'', cm_CPUs = [1]\<rparr>"
  let ?d1 = "create_begin ''a'' [1] [] False ?d"
  let ?d2 = "destroy_begin ''a'' ?d1"
  let ?d3 = "commit (CommitDestroy ''a'') ?d2"
  let ?d4 = "commit (CommitCreate ''a'' ?m) ?d3"
  have 1: "dt_pending ?d1 = {#CommitCreate ''a'' ?m#} \<and> cg_fail (dt_world ?d1) = Map.empty \<and> sv_cg (dt_srv ?d1) = demo_manager"
    using CreateCell_succeeds [OF demo_root f, of "''a''" "[1]" "[]" False] by (auto simp: create_begin_def)
  then have 2: "dt_pending ?d2 = {#CommitDestroy ''a'', CommitCreate ''a'' ?m#} \<and> cg_fail (dt_world ?d2) = Map.empty \<and>
    sv_cg (dt_srv ?d2) = demo_manager" by (simp add: destroy_begin_def)
  have r: "remove_all (CellPath demo_manager ''a'') (dt_world ?d2) = (None, dt_world ?d3)"
    using 2 by (auto simp: commit_def DestroyCell_def remove_all_def Let_def)
  have 3: "dt_pending ?d3 = {#CommitCreate ''a'' ?m#}" using 2 by (simp add: commit_def)
  have "dreach ?d3"
    using 2 by (intro dreach_commit [OF dreach_destroy [OF dreach_create [OF dreach.start [OF n]]]]) simp
  from dreach_commit [OF this, of "CommitCreate ''a'' ?m"] have "dreach ?d4" using 3 by simp
  moreover have "dt_pending ?d4 = {#}" "dt_world ?d4 = dt_world ?d3" "sv_cells (dt_srv ?d4) ''a'' = Some ?m"
    using 3 by (simp_all add: commit_def)
  ultimately show ?thesis using remove_all_gone [OF r] by (intro exI [of _ ?d4]) (simp add: orphaned_def)
qed

text \<open>
  An orphaned cell is of no use, and \<^verbatim>\<open>RunInCell\<close> does not notice: attaching a process to it is an error, but a command run in it
  is started all the same, outside any cell, and the client sees its output and exit code as always.
\<close>

theorem orphaned_cell_unused:
  assumes "dreach d" and "orphaned i d" and "mg_Root (sv_cg (dt_srv d)) = abs_path ds" and "ds \<noteq> []" and "list_all file_name ds"
  shows "\<exists>e. AttachPID i pid (dt_srv d, dt_world d) = (Inl (Internal e), dt_srv d, dt_world d)"
    and "re_pipe1 env = None \<Longrightarrow> re_pipe2 env = None \<Longrightarrow> re_start env = None \<Longrightarrow> argv \<noteq> [] \<Longrightarrow>
      RunInCell env i argv (dt_srv d, dt_world d) =
        (None, pipe_chunks (re_reads env) @ [last_chunk (re_wait env)], Some (re_pid env, argv), dt_srv d, dt_world d)"
proof -
  obtain c where c: "sv_cells (dt_srv d) i = Some c" "cm_Path c \<notin> cg_dirs (dt_world d)"
    using assms(2) by (auto simp: orphaned_def)
  then have p: "cm_Path c = CellPath (sv_cg (dt_srv d)) i" using dreach_inv [OF assms(1)] by (auto simp: daemon_inv_def cell_ok_def)
  then have "path_dir (path_join [cm_Path c, ''cgroup.procs'']) = cm_Path c"
    using cell_file_dir [OF assms(3-5) plain_files(4)] by simp
  then have a: "\<exists>e. Attach (cm_Path c) pid (dt_world d) = (Some e, dt_world d)" for pid
    using c(2) by (simp add: Attach_def write_file_def split: option.split)
  from a [of pid] c(1) show "\<exists>e. AttachPID i pid (dt_srv d, dt_world d) = (Inl (Internal e), dt_srv d, dt_world d)"
    by (auto simp: AttachPID_def)
  from a [of "re_pid env"] c(1) show "RunInCell env i argv (dt_srv d, dt_world d) =
        (None, pipe_chunks (re_reads env) @ [last_chunk (re_wait env)], Some (re_pid env, argv), dt_srv d, dt_world d)"
    if "re_pipe1 env = None" "re_pipe2 env = None" "re_start env = None" "argv \<noteq> []"
    using that by (auto simp: RunInCell_def)
qed

section \<open>Running and watching\<close>

lemma pipe_chunks_Cons: "pipe_chunks (r # rs) = pipe_chunks [r] @ pipe_chunks rs"
  by (simp add: pipe_chunks_def)

lemma pipe_chunks_bytes:
  "concat (map ck_Stdout (pipe_chunks rs)) = concat (map snd (filter fst rs))"
  "concat (map ck_Stderr (pipe_chunks rs)) = concat (map snd (filter (Not \<circ> fst) rs))"
  by (induction rs) (auto simp: pipe_chunks_def)

lemma pipe_chunks_unfinished: "c \<in> set (pipe_chunks rs) \<Longrightarrow> \<not> ck_Finished c"
  by (auto simp: pipe_chunks_def split: if_splits)

text \<open>
  C38. What \<^verbatim>\<open>RunInCell\<close> sends to its client from a command that was started, however the command ends: the bytes of each pipe, complete
  and in order, then exactly one chunk marked as finished, the last one. It has no output of the command; its exit code is 0
  when the command succeeded, that of the command when it exited with another one, and -1 when it could not be waited for, with the error as
  a line on the error stream. Nothing but the process file of the cell's directory is written.
\<close>

theorem run_output_faithful:
  assumes "RunInCell env i argv (s, w) = (r, chunks, Some started, s', w')"
    and "sv_cells s i = Some c" and "f \<noteq> path_join [cm_Path c, ''cgroup.procs'']"
  shows "r = None \<and> started = (re_pid env, argv) \<and> s' = s \<and> cg_files w' f = cg_files w f \<and>
    concat (map ck_Stdout chunks) = concat (map snd (filter fst (re_reads env))) \<and>
    concat (map ck_Stderr (butlast chunks)) = concat (map snd (filter (Not \<circ> fst) (re_reads env))) \<and>
    chunks \<noteq> [] \<and> filter ck_Finished chunks = [last chunks] \<and> ck_Stdout (last chunks) = [] \<and>
    (case re_wait env of
       WaitOK \<Rightarrow> ck_ExitCode (last chunks) = 0 \<and> ck_Stderr (last chunks) = []
     | WaitExit code \<Rightarrow> ck_ExitCode (last chunks) = wrap32 code \<and> ck_Stderr (last chunks) = []
     | WaitError e \<Rightarrow> ck_ExitCode (last chunks) = -1 \<and> ck_Stderr (last chunks) = e @ [CHR 0x0A])"
proof -
  have ch: "chunks = pipe_chunks (re_reads env) @ [last_chunk (re_wait env)]" and r: "r = None" "started = (re_pid env, argv)" "s' = s"
    and w: "w' = snd (Attach (cm_Path c) (re_pid env) w)"
    using assms(1,2) by (auto simp: RunInCell_def split: option.splits if_splits)
  have none: "filter ck_Finished (pipe_chunks (re_reads env)) = []"
    by (simp add: filter_empty_conv pipe_chunks_unfinished)
  have "cg_files w' f = cg_files w f" unfolding w Attach_def by (rule write_file_other [OF assms(3)])
  with r show ?thesis by (cases "re_wait env") (simp_all add: ch last_chunk_def pipe_chunks_bytes none)
qed

definition demo_run :: run_env where
  "demo_run = \<lparr>re_pipe1 = None, re_pipe2 = None, re_start = None, re_pid = 42,
     re_reads = [(True, ''he''), (False, ''!''), (True, ''y''), (True, [])], re_wait = WaitExit 3\<rparr>"

definition demo_cell :: Server where
  "demo_cell = \<lparr>sv_cg = demo_manager, sv_cells = [''a'' \<mapsto> \<lparr>cm_Path = CellPath demo_manager ''a'', cm_CPUs = [1]\<rparr>]\<rparr>"

theorem run_output_faithful_witness:
  "\<exists>chunks st. RunInCell demo_run ''a'' [''ls''] (demo_cell, empty_cg) = (None, chunks, Some (42, [''ls'']), st) \<and>
     concat (map ck_Stdout chunks) = ''hey'' \<and> ck_ExitCode (last chunks) = 3"
proof -
  have c: "sv_cells demo_cell ''a'' = Some \<lparr>cm_Path = CellPath demo_manager ''a'', cm_CPUs = [1]\<rparr>" by (simp add: demo_cell_def)
  obtain chunks s w where r: "RunInCell demo_run ''a'' [''ls''] (demo_cell, empty_cg) = (None, chunks, Some (42, [''ls'']), s, w)"
    by (simp add: RunInCell_def demo_cell_def demo_run_def)
  have f: "[] \<noteq> path_join [cm_Path \<lparr>cm_Path = CellPath demo_manager ''a'', cm_CPUs = [1]\<rparr>, ''cgroup.procs'']"
    using cell_file [OF demo_root plain_files(4), of "''a''"] by simp
  from run_output_faithful [OF r c f] r show ?thesis by (auto simp: demo_run_def wrap32_def)
qed

text \<open>
  A failure to move the process into its cell goes unnoticed: when the kernel refuses the write to the
  cell's process file, the command runs all the same, outside the cell, the control groups are as
  before, and the client receives exactly the answer of a run inside the cell.
\<close>

theorem run_escapes_cell:
  assumes "sv_cells s i = Some c" and "argv \<noteq> []" and "re_pipe1 env = None" and "re_pipe2 env = None" and "re_start env = None"
    and "cg_fail w (path_join [cm_Path c, ''cgroup.procs'']) = Some e"
  shows "RunInCell env i argv (s, w) = (None, pipe_chunks (re_reads env) @ [last_chunk (re_wait env)], Some (re_pid env, argv), s, w) \<and>
    (\<forall>v. fst (RunInCell env i argv (s, v)) = None \<and>
      fst (snd (RunInCell env i argv (s, v))) = fst (snd (RunInCell env i argv (s, w))))"
  using assms by (simp add: RunInCell_def Attach_def write_file_def)

theorem run_escapes_cell_witness:
  "\<exists>chunks w. RunInCell demo_run ''a'' [''ls''] (demo_cell, w) = (None, chunks, Some (42, [''ls'']), demo_cell, w)"
proof -
  let ?f = "path_join [CellPath demo_manager ''a'', ''cgroup.procs'']"
  let ?w = "empty_cg\<lparr>cg_fail := [?f \<mapsto> ''EBUSY'']\<rparr>"
  have "RunInCell demo_run ''a'' [''ls''] (demo_cell, ?w) =
    (None, pipe_chunks (re_reads demo_run) @ [last_chunk (re_wait demo_run)], Some (re_pid demo_run, [''ls'']), demo_cell, ?w)"
    by (rule run_escapes_cell [where c = "\<lparr>cm_Path = CellPath demo_manager ''a'', cm_CPUs = [1]\<rparr>" and e = "''EBUSY''", THEN conjunct1])
      (simp_all add: demo_run_def demo_cell_def)
  then show ?thesis by (auto simp: demo_run_def)
qed

text \<open>The sampling interval is at least 50 ms and a request of more than that is followed exactly.\<close>

lemma watch_interval_bounds:
  assumes "- 2147483648 \<le> ms" and "ms < 2147483648"
  shows "watch_interval ms = (if 50 \<le> ms then ms * 1000000 else 100000000)"
proof -
  have "wrap64 (ms * 1000000) = ms * 1000000" using assms by (intro wrap64_id) (simp add: go_int)
  then show ?thesis by (simp add: watch_interval_def Let_def)
qed

end
