(* ===== verification/Daemon_Watch.thy ===== *)
theory Daemon_Watch
  imports Daemon
begin

text \<open>
  Watching the cache of a cell (\<^verbatim>\<open>WatchL3\<close> in pkg/daemon/grpc_linux.go over pkg/perf): what happens to the counters and what the samples
  hold, and why no sample can ever be sent.
\<close>

section \<open>Counters and samples\<close>

definition llc_access :: perf_attr where
  "llc_access = \<lparr>pa_Type = 3, pa_Config = 0x10002\<rparr>"

definition llc_miss :: perf_attr where
  "llc_miss = \<lparr>pa_Type = 3, pa_Config = 0x20002\<rparr>"

text \<open>What a client may conclude from a sample: the two readings of one turn.\<close>

definition sample_of :: "int \<Rightarrow> watch_turn \<Rightarrow> L3Sample \<Rightarrow> bool" where
  "sample_of cpu t x \<longleftrightarrow>
     (\<exists>fa fm. pk_open (wt_perf t) llc_access (-1) cpu = Inr fa \<and> pk_open (wt_perf t) llc_miss (-1) cpu = Inr fm \<and>
       uint (l3_refs x) = read_value (wt_perf t) fa \<and> uint (l3_misses x) = read_value (wt_perf t) fm \<and> l3_time x = wt_time t)"

text \<open>The calls of one turn.\<close>

fun call_ok :: "int \<Rightarrow> int \<Rightarrow> perf_ev \<Rightarrow> bool" where
  "call_ok cpu d (PerfOpened attr pid c fd) \<longleftrightarrow> attr \<in> {llc_access, llc_miss} \<and> pid = -1 \<and> c = cpu"
| "call_ok cpu d (Paused x) \<longleftrightarrow> x = d"
| "call_ok cpu d _ \<longleftrightarrow> True"

definition turn_calls :: "int \<Rightarrow> int \<Rightarrow> perf_ev list \<Rightarrow> bool" where
  "turn_calls cpu d es \<longleftrightarrow> fds_run {} (perf_fds es) = Some {} \<and> list_all (call_ok cpu d) es"

lemma turn_calls_append: "turn_calls cpu d es \<Longrightarrow> turn_calls cpu d fs \<Longrightarrow> turn_calls cpu d (es @ fs)"
  by (auto simp: turn_calls_def fds_run_append)

lemma turn_calls_nil: "turn_calls cpu d []"
  by (simp add: turn_calls_def)

lemma failed_turn_calls:
  assumes "OpenLLCLastLevelAccess k (-1) cpu = (ra, ea)" and "OpenLLCLastLevelMiss k (-1) cpu = (rm, em)"
    and "ra = Inl e \<or> rm = Inl e"
  shows "turn_calls cpu d (ea @ em @ close_opened k ra @ close_opened k rm)"
  using assms
  by (auto simp: turn_calls_def perf_ops close_opened_def llc_access_def llc_miss_def Let_def split: sum.splits)

lemma measured_turn_calls:
  assumes "OpenLLCLastLevelAccess k (-1) cpu = (Inr acc, ea)" and "OpenLLCLastLevelMiss k (-1) cpu = (Inr miss, em)"
    and "measure_llc k d acc miss = (av, mv, es)" and "fresh_fds k"
  shows "turn_calls cpu d (ea @ em @ es)"
    and "wt_perf t = k \<Longrightarrow> sample_of cpu t \<lparr>l3_refs = av, l3_misses = mv, l3_time = wt_time t\<rparr>"
proof -
  obtain fa fm where fds: "pk_open k llc_access (-1) cpu = Inr fa" "pk_open k llc_miss (-1) cpu = Inr fm"
    "ct_fd acc = fa" "ct_fd miss = fm" "ea = [PerfOpened llc_access (-1) cpu fa]" "em = [PerfOpened llc_miss (-1) cpu fm]"
    using assms(1,2) by (auto simp: perf_ops llc_access_def llc_miss_def Let_def split: sum.splits)
  have "llc_access \<noteq> llc_miss" by (simp add: llc_access_def llc_miss_def)
  then have ne: "fa \<noteq> fm" using fds(1,2) assms(4) unfolding fresh_fds_def by metis
  have m: "av = fst (fst (ReadUint64 k acc))" "mv = fst (fst (ReadUint64 k miss))"
    "es = [PerfIoctl fa IocReset, PerfIoctl fm IocReset, PerfIoctl fa IocEnable, PerfIoctl fm IocEnable, Paused d,
       PerfIoctl fa IocDisable, PerfIoctl fm IocDisable, PerfRead fa, PerfRead fm, PerfClosed fa, PerfClosed fm]"
    using assms(3) fds(3,4) ReadUint64_event [of k acc] ReadUint64_event [of k miss]
    by (auto simp: measure_llc_def perf_ops split: prod.splits)
  show "turn_calls cpu d (ea @ em @ es)" using ne by (auto simp: turn_calls_def fds m)
  show "wt_perf t = k \<Longrightarrow> sample_of cpu t \<lparr>l3_refs = av, l3_misses = mv, l3_time = wt_time t\<rparr>"
    by (simp add: sample_of_def fds m ReadUint64_value)
qed

lemma watch_loop_calls:
  assumes "\<forall>t \<in> set turns. fresh_fds (wt_perf t)" and "watch_loop cpu d turns = (es, ss, st)"
  shows "turn_calls cpu d es \<and> (\<forall>x \<in> set ss. \<exists>t \<in> set turns. sample_of cpu t x)"
  using assms
proof (induction turns arbitrary: es ss st)
  case (Cons t ts)
  obtain ra ea where a: "OpenLLCLastLevelAccess (wt_perf t) (-1) cpu = (ra, ea)" by fastforce
  obtain rm em where m: "OpenLLCLastLevelMiss (wt_perf t) (-1) cpu = (rm, em)" by fastforce
  obtain es1 ss1 st1 where r: "watch_loop cpu d ts = (es1, ss1, st1)" by (metis prod_cases3)
  note IH = Cons.IH [OF _ r]
  consider (ctx) e where "wt_ctx t = Some e" | (bad) e where "wt_ctx t = None" "ra = Inl e \<or> rm = Inl e"
    | (good) acc miss where "wt_ctx t = None" "ra = Inr acc" "rm = Inr miss"
    by (cases ra; cases rm; cases "wt_ctx t") auto
  then show ?case
  proof cases
    case ctx
    with Cons.prems show ?thesis by (simp add: turn_calls_nil)
  next
    case bad
    with Cons.prems(2) a m have "es = ea @ em @ close_opened (wt_perf t) ra @ close_opened (wt_perf t) rm" "ss = []"
      by (auto split: sum.splits)
    with failed_turn_calls [OF a m bad(2)] show ?thesis by simp
  next
    case good
    obtain av mv ms where ms: "measure_llc (wt_perf t) d acc miss = (av, mv, ms)" by (metis prod_cases3)
    have k: "fresh_fds (wt_perf t)" using Cons.prems(1) by simp
    note turn = measured_turn_calls [OF a [unfolded good] m [unfolded good] ms k]
    show ?thesis
      using Cons.prems good a m ms r IH turn(1) turn(2) [OF refl] turn_calls_append [OF turn(1), of es1]
      by (auto split: option.splits)
  qed
qed (simp add: turn_calls_nil)

lemma watch_interval_least: "50 * 1000000 \<le> watch_interval ms"
  by (simp add: watch_interval_def Let_def)

text \<open>
  C18. Watching the cache of a cell leaks no counter and misuses none. Whatever the kernel answers and however the request ends, every descriptor
  \<^verbatim>\<open>WatchL3\<close> opened is closed exactly once and none is used before it is open or after it is closed; the
  counters are the two the code means for last-level accesses and misses, on the cell's first CPU and for every process; between two readings
  the request sleeps at least 50 milliseconds; and each sample sent holds the two readings of one turn.
  The kernel is assumed not to hand out one descriptor for two counters.
\<close>

theorem watch_releases_counters:
  assumes "WatchL3 turns i ms s = (es, ss, st)" and "\<forall>t \<in> set turns. fresh_fds (wt_perf t)"
  shows "fds_run {} (perf_fds es) = Some {} \<and>
    (\<forall>attr pid c fd. PerfOpened attr pid c fd \<in> set es \<longrightarrow>
       attr \<in> {llc_access, llc_miss} \<and> pid = -1 \<and> (\<exists>meta. sv_cells s i = Some meta \<and> cm_CPUs meta \<noteq> [] \<and> c = hd (cm_CPUs meta))) \<and>
    (\<forall>d. Paused d \<in> set es \<longrightarrow> 50 * 1000000 \<le> d) \<and>
    (\<forall>x \<in> set ss. \<exists>t \<in> set turns. \<exists>meta. sv_cells s i = Some meta \<and> sample_of (hd (cm_CPUs meta)) t x)"
proof (cases "\<exists>meta cpu cs. sv_cells s i = Some meta \<and> cm_CPUs meta = cpu # cs")
  case True
  then obtain meta cpu cs where m: "sv_cells s i = Some meta" "cm_CPUs meta = cpu # cs" by blast
  with assms(1) have "watch_loop cpu (watch_interval ms) turns = (es, ss, st)" by (simp add: WatchL3_def)
  note calls = watch_loop_calls [OF assms(2) this]
  then have "call_ok cpu (watch_interval ms) e" if "e \<in> set es" for e
    using that by (auto simp: turn_calls_def list_all_iff)
  from this [of "PerfOpened _ _ _ _"] this [of "Paused _"] calls m watch_interval_least [of ms] show ?thesis
    by (auto simp: turn_calls_def)
next
  case False
  with assms(1) have "es = []" "ss = []" by (auto simp: WatchL3_def split: option.splits list.splits)
  then show ?thesis by simp
qed

definition demo_perf :: perf_kernel where
  "demo_perf = \<lparr>pk_open = (\<lambda>attr pid cpu. if attr = llc_access then Inr 10 else if attr = llc_miss then Inr 11 else Inl ''EINVAL''), pk_ioctl = (\<lambda>_ _. None),
     pk_read = (\<lambda>_. Inr [5, 1, 0, 0, 0, 0, 0, 0]), pk_close = (\<lambda>_. None)\<rparr>"

lemma demo_perf_fresh: "fresh_fds demo_perf"
  by (simp add: fresh_fds_def demo_perf_def)

theorem watch_releases_counters_witness:
  "\<exists>es x st. WatchL3 [\<lparr>wt_ctx = None, wt_perf = demo_perf, wt_time = 7, wt_send = None\<rparr>] ''web'' 200
      \<lparr>sv_cg = \<lparr>mg_Root = ''/sys/fs/cgroup''\<rparr>, sv_cells = [''web'' \<mapsto> \<lparr>cm_Path = ''/sys/fs/cgroup/web'', cm_CPUs = [3, 4]\<rparr>]\<rparr> = (es, [x], st) \<and>
     fds_run {} (perf_fds es) = Some {} \<and> length es = 13 \<and> uint (l3_refs x) = 261"
proof -
  let ?t = "\<lparr>wt_ctx = None, wt_perf = demo_perf, wt_time = 7, wt_send = None\<rparr>"
  let ?s = "\<lparr>sv_cg = \<lparr>mg_Root = ''/sys/fs/cgroup''\<rparr>, sv_cells = [''web'' \<mapsto> \<lparr>cm_Path = ''/sys/fs/cgroup/web'', cm_CPUs = [3, 4]\<rparr>]\<rparr>"
  obtain es ss st where w: "WatchL3 [?t] ''web'' 200 ?s = (es, ss, st)" by (metis prod_cases3)
  have "\<forall>t \<in> set [?t]. fresh_fds (wt_perf t)" by (simp add: demo_perf_fresh)
  note ok = watch_releases_counters [OF w this]
  have len: "length es = 13" "length ss = 1"
    using w by (auto simp: WatchL3_def perf_ops measure_llc_def ReadUint64_def demo_perf_def llc_access_def llc_miss_def Let_def)
  then obtain x where x: "ss = [x]" by (auto simp: length_Suc_conv)
  with ok have "sample_of 3 ?t x" by auto
  then have "uint (l3_refs x) = 261" by (auto simp: sample_of_def demo_perf_def read_value_def)
  with ok len x w show ?thesis by blast
qed

section \<open>Selecting what a cache counter counts\<close>

text \<open>
  As documented in perf_event_open(2), the third byte of the configuration of a cache counter says what is counted: 0 for accesses,
  1 for misses. \<open>cache_result\<close> is that byte; \<open>checks_results\<close> is the kernel's refusal of all other values.
\<close>

definition cache_result :: "perf_attr \<Rightarrow> 64 word" where
  "cache_result a = drop_bit 16 (pa_Config a) AND 0xFF"

definition checks_results :: "perf_kernel \<Rightarrow> bool" where
  "checks_results k \<longleftrightarrow>
     (\<forall>a pid cpu. pa_Type a = 3 \<longrightarrow> cache_result a \<notin> {0, 1} \<longrightarrow> (\<exists>e. pk_open k a pid cpu = Inl e))"

lemma llc_results: "cache_result llc_access = 1" "cache_result llc_miss = 2"
  by (simp_all add: cache_result_def llc_access_def llc_miss_def)

lemma miss_refused:
  assumes "checks_results k"
  shows "\<exists>e. OpenLLCLastLevelMiss k pid cpu = (Inl e, [])"
proof -
  have "pa_Type llc_miss = 3" "cache_result llc_miss \<notin> {0, 1}" by (simp_all add: llc_results) (simp add: llc_miss_def)
  then obtain e where "pk_open k llc_miss pid cpu = Inl e" using assms unfolding checks_results_def by metis
  then show ?thesis by (simp add: perf_ops llc_miss_def Let_def)
qed

lemma watch_loop_refused:
  assumes "\<forall>t \<in> set turns. checks_results (wt_perf t)" and "watch_loop cpu d turns = (es, ss, st)"
  shows "ss = []" and "\<forall>attr pid c fd. PerfOpened attr pid c fd \<in> set es \<longrightarrow> attr = llc_access"
    and "turns \<noteq> [] \<Longrightarrow> wt_ctx (hd turns) = None \<Longrightarrow> \<exists>ea em. st = Some (PerfLLC ea (Some em))"
proof -
  show "ss = []" "\<forall>attr pid c fd. PerfOpened attr pid c fd \<in> set es \<longrightarrow> attr = llc_access"
    "turns \<noteq> [] \<Longrightarrow> wt_ctx (hd turns) = None \<Longrightarrow> \<exists>ea em. st = Some (PerfLLC ea (Some em))"
    using assms miss_refused [of _ "-1" cpu]
    by (cases turns; force simp: perf_ops llc_access_def close_opened_def sum_error_def Let_def split: option.splits sum.splits)+
qed

text \<open>
  C19. Watching the cache never delivers a sample. The code selects misses with the value 2, which is not a selection of the kernel's
  interface, and accesses with the value 1, which is the one for misses. So on every kernel that checks the selection
  as documented, \<^verbatim>\<open>WatchL3\<close> sends nothing: for a cell the daemon knows it ends, unless it was cancelled before, in the error that the counter of
  misses cannot be opened, and the only counter it ever opened counts misses and not accesses.
\<close>

theorem watch_never_samples:
  assumes "WatchL3 turns i ms s = (es, ss, st)" and "\<forall>t \<in> set turns. checks_results (wt_perf t)"
  shows "ss = [] \<and>
    (\<forall>attr pid c fd. PerfOpened attr pid c fd \<in> set es \<longrightarrow> cache_result attr = 1) \<and>
    (\<forall>meta. sv_cells s i = Some meta \<longrightarrow> cm_CPUs meta \<noteq> [] \<longrightarrow> turns \<noteq> [] \<longrightarrow> wt_ctx (hd turns) = None \<longrightarrow>
       (\<exists>ea em. st = Some (PerfLLC ea (Some em))))"
proof (cases "\<exists>meta cpu cs. sv_cells s i = Some meta \<and> cm_CPUs meta = cpu # cs")
  case True
  then obtain meta cpu cs where "sv_cells s i = Some meta" "cm_CPUs meta = cpu # cs" by blast
  with assms(1) have "watch_loop cpu (watch_interval ms) turns = (es, ss, st)" by (simp add: WatchL3_def)
  from watch_loop_refused [OF assms(2) this] llc_results show ?thesis by blast
next
  case False
  with assms(1) have "es = []" "ss = []" by (auto simp: WatchL3_def split: option.splits list.splits)
  with False show ?thesis by (auto simp: neq_Nil_conv)
qed

definition strict_perf :: perf_kernel where
  "strict_perf = \<lparr>pk_open = (\<lambda>attr pid cpu. if cache_result attr \<in> {0, 1} then Inr 10 else Inl ''EINVAL''), pk_ioctl = (\<lambda>_ _. None),
     pk_read = (\<lambda>_. Inr [5, 1, 0, 0, 0, 0, 0, 0]), pk_close = (\<lambda>_. None)\<rparr>"

theorem watch_never_samples_witness:
  "\<exists>es ea em. WatchL3 [\<lparr>wt_ctx = None, wt_perf = strict_perf, wt_time = 7, wt_send = None\<rparr>] ''a'' 200 demo_cell =
     (es, [], Some (PerfLLC ea (Some em)))"
proof -
  let ?t = "\<lparr>wt_ctx = None, wt_perf = strict_perf, wt_time = 7, wt_send = None\<rparr>"
  obtain es ss st where w: "WatchL3 [?t] ''a'' 200 demo_cell = (es, ss, st)" by (metis prod_cases3)
  have k: "\<forall>t \<in> set [?t]. checks_results (wt_perf t)" by (simp add: checks_results_def strict_perf_def)
  from watch_never_samples [OF w k] w show ?thesis by (auto simp: demo_cell_def)
qed

end
