(* ===== verification/Descriptors.thy ===== *)
theory Descriptors
  imports Daemon Plasma_Frame Plasma_Spec
begin

text \<open>
  The file descriptors of a command run in a cell (pkg/daemon) and of a descriptor handed to a Plasma client (pkg/plasma): every call that opens,
  uses or closes one, on every path of the code, and the proof that all of them are closed.
\<close>

section \<open>Model: the pipes of RunInCell\<close>

text \<open>
  \<open>p1\<close> and \<open>p2\<close> are the ends, for reading and writing, that \<^verbatim>\<open>os.Pipe\<close> hands out. The two copies run concurrently: each reads its pipe up to the
  end and closes it. The result is the set of possible sequences.
\<close>

definition copy_pipe :: "int \<Rightarrow> nat \<Rightarrow> fd_ev list" where
  "copy_pipe r n = replicate (Suc n) (FdUse r) @ [FdClose r]"

definition run_descriptors :: "run_env \<Rightarrow> int \<times> int \<Rightarrow> int \<times> int \<Rightarrow> string \<Rightarrow> string list \<Rightarrow> Server \<Rightarrow> fd_ev list set" where
  "run_descriptors env p1 p2 cellId argv s =
     (if sv_cells s cellId = None \<or> argv = [] then {[]}
      else if re_pipe1 env \<noteq> None then {[]}
      else
        (case p1 of (r1, w1) \<Rightarrow>
           if re_pipe2 env \<noteq> None then {[FdOpen r1, FdOpen w1, FdClose w1, FdClose r1]}
           else
             (case p2 of (r2, w2) \<Rightarrow>
                let opened = [FdOpen r1, FdOpen w1, FdOpen r2, FdOpen w2, FdUse w1, FdUse w2] in
                if re_start env \<noteq> None then {opened @ [FdClose w1, FdClose w2, FdClose r1, FdClose r2]}
                else
                  (\<lambda>es. opened @ [FdClose w1, FdClose w2] @ es) `
                    shuffles (copy_pipe r1 (length (filter fst (re_reads env)))) (copy_pipe r2 (length (filter (Not \<circ> fst) (re_reads env)))))))"

section \<open>Model: descriptors for clients\<close>

text \<open>
  \<open>f\<close> is the descriptor of the segment's file or of the counter, \<open>d\<close> its duplicate. The reply is sent by \<^verbatim>\<open>WriteJSONFrameWithFD\<close>, whose
  outcome \<open>write\<close> is arbitrary; what it closes is part of its model.
\<close>

definition open_request :: "fd_os \<Rightarrow> int \<Rightarrow> int \<Rightarrow> string \<Rightarrow> fd_ev list" where
  "open_request os f d k =
     (if (if k = ''shm'' then os_open os else os_perf os k) \<noteq> None then []
      else [FdOpen f, FdUse f] @ (if os_dup os = None then [FdOpen d] else []) @ [FdClose f])"

definition send_descriptor :: "(MsgFDReply \<Rightarrow> string + bytes) \<Rightarrow> (int \<Rightarrow> bytes) \<Rightarrow> string option \<Rightarrow> int \<Rightarrow> act \<Rightarrow> fd_ev list" where
  "send_descriptor marshal rights write d a =
     (case a of
        ASendFD v \<Rightarrow>
          (let r = WriteJSONFrameWithFD marshal rights write v d in
           (if snd_msg r = None then [] else [FdUse d]) @ map FdClose (snd_closed r))
      | _ \<Rightarrow> [])"

definition request_descriptors ::
  "(MsgFDReply \<Rightarrow> string + bytes) \<Rightarrow> (int \<Rightarrow> bytes) \<Rightarrow> string option \<Rightarrow> coord_cfg \<Rightarrow> fd_os \<Rightarrow> int \<Rightarrow> int \<Rightarrow> msgRequestFD \<Rightarrow> fd_ev list" where
  "request_descriptors marshal rights write cfg os f d m =
     (if mr_Kind m \<in> {''shm'', ''perf_cycles'', ''perf_instructions''} then open_request os f d (mr_Kind m) else []) @
     concat (map (send_descriptor marshal rights write d) (handleRequestFD cfg os m))"

section \<open>Nothing leaks\<close>

lemma copy_pipe_run: "fds_run {r} (copy_pipe r n) = Some {}"
proof -
  have "fds_run {r} (replicate k (FdUse r) @ [FdClose r]) = Some {}" for k by (induction k) simp_all
  then show ?thesis by (simp only: copy_pipe_def)
qed

lemma copy_pipe_fds: "ev_fd ` set (copy_pipe r n) = {r}"
  by (auto simp: copy_pipe_def)

lemma copies_run:
  assumes "a \<noteq> b" and "es \<in> shuffles (copy_pipe a n) (copy_pipe b m)"
  shows "fds_run {a, b} es = Some {}"
  using fds_run_shuffle [OF assms(2) copy_pipe_run copy_pipe_run] assms(1) by (simp add: copy_pipe_fds insert_commute)

lemma run_descriptors_closed:
  assumes "distinct [r1, w1, r2, w2]" and "es \<in> run_descriptors env (r1, w1) (r2, w2) i argv s"
  shows "fds_run {} es = Some {}"
proof -
  have sets: "{w2, r2, w1, r1} - {w1} - {w2} = {r1, r2}" using assms(1) by auto
  show ?thesis
    using assms(2) assms(1) copies_run [of r1 r2]
    by (auto simp: run_descriptors_def Let_def fds_run_append sets split: if_splits)
qed

lemma request_descriptors_closed:
  assumes "f \<noteq> d" and "0 \<le> d"
  shows "fds_run {} (request_descriptors marshal rights write cfg os f d m) = Some {}"
proof -
  have send: "fds_run {d} (send_descriptor marshal rights write d (ASendFD v)) = Some {}" for v
    using assms(2) by (auto simp: send_descriptor_def WriteJSONFrameWithFD_def Let_def split: sum.split option.split)
  have other: "send_descriptor marshal rights write d ABump = []" "send_descriptor marshal rights write d (AReply e) = []" for e
    by (simp_all add: send_descriptor_def)
  show ?thesis
    using assms(1) send
    by (auto simp: request_descriptors_def open_request_def handleRequestFD_def fd_perf_reply_def fds_run_append other Let_def
        insert_Diff_if split: option.splits)
qed

text \<open>
  C20. The daemon and the coordinator leak no descriptor and misuse none. Running a command in a cell closes both ends of both
  pipes exactly once on every path, also when the second pipe or the start fails and however the two copies interleave;
  and a client's request for a descriptor, whatever the kernel answers and whether or not the reply can be encoded or sent, ends with the file,
  the counter and the duplicate closed on the coordinator's side. The kernel is assumed to hand out distinct descriptors.
\<close>

theorem descriptors_released:
  assumes "distinct [r1, w1, r2, w2]" and "es \<in> run_descriptors env (r1, w1) (r2, w2) i argv s" and "f \<noteq> d" and "0 \<le> d"
  shows "fds_run {} es = Some {} \<and> fds_run {} (request_descriptors marshal rights write cfg os f d m) = Some {}"
  using run_descriptors_closed [OF assms(1,2)] request_descriptors_closed [OF assms(3,4)] by blast

theorem descriptors_released_witness:
  "\<exists>es. es \<in> run_descriptors demo_run (3, 4) (5, 6) ''a'' [''ls''] demo_cell \<and> length es = 16 \<and> fds_run {} es = Some {} \<and>
     fds_run {} (request_descriptors (\<lambda>_. Inl ''json'') (\<lambda>_. []) None demo_cfg (fd_fails\<lparr>os_open := None, os_dup := None\<rparr>) 7 8
       \<lparr>mr_Op = ''request_fd'', mr_Kind = ''shm''\<rparr>) = Some {}"
proof -
  let ?es = "[FdOpen 3, FdOpen 4, FdOpen 5, FdOpen 6, FdUse 4, FdUse 6, FdClose 4, FdClose 6] @ copy_pipe 3 3 @ copy_pipe 5 1"
  have "copy_pipe 3 3 @ copy_pipe 5 1 \<in> shuffles (copy_pipe 3 3) (copy_pipe 5 1)" by (rule append_in_shuffles)
  then have es: "?es \<in> run_descriptors demo_run (3, 4) (5, 6) ''a'' [''ls''] demo_cell"
    by (auto simp: run_descriptors_def demo_run_def demo_cell_def Let_def eval_nat_numeral)
  have d: "distinct [3, 4, 5, 6 :: int]" "(7 :: int) \<noteq> 8" "(0 :: int) \<le> 8" by simp_all
  have "length ?es = 16" by (simp add: copy_pipe_def)
  with es descriptors_released [OF d(1) es d(2,3)] show ?thesis by blast
qed

end
