(* ===== verification/Go_Flag.thy ===== *)
theory Go_Flag
  imports Go_Prelude
begin

text \<open>
  What the command line uses of Go's flag package and of the number parser behind it: \<^verbatim>\<open>FlagSet.Parse\<close> with the mode
  \<^verbatim>\<open>ExitOnError\<close>, the value types int, string, bool and duration, and \<^verbatim>\<open>flag.Var\<close> for a repeatable string.

  A flag set is a map from names to current values, the defaults at first. Parsing gives the new
  values and the arguments left, or the exit code of the program. Durations are read by a parser that
  is an argument.
\<close>

section \<open>Model: strconv.ParseInt with base 0, strconv.ParseBool\<close>

definition digit_value :: "char \<Rightarrow> int option" where
  "digit_value c =
     (let n = (of_char c :: int) in
      if 48 \<le> n \<and> n \<le> 57 then Some (n - 48)
      else if 97 \<le> n \<and> n \<le> 122 then Some (n - 87)
      else if 65 \<le> n \<and> n \<le> 90 then Some (n - 55)
      else None)"

text \<open>The digit loop in a base of its own; underscores are skipped here and checked afterwards.\<close>

fun parse_base :: "int \<Rightarrow> int \<Rightarrow> string \<Rightarrow> int option" where
  "parse_base base n [] = Some n"
| "parse_base base n (c # cs) =
     (if c = CHR ''_'' then parse_base base n cs
      else (case digit_value c of
        None \<Rightarrow> None
      | Some d \<Rightarrow>
          if d \<ge> base then None
          else if base * n + d > 2 ^ 64 - 1 then None
          else parse_base base (base * n + d) cs))"

definition int_base :: "string \<Rightarrow> int \<times> string" where
  "int_base s =
     (if hd s \<noteq> CHR ''0'' then (10, s)
      else if length s \<ge> 3 \<and> s ! 1 \<in> {CHR ''b'', CHR ''B''} then (2, drop 2 s)
      else if length s \<ge> 3 \<and> s ! 1 \<in> {CHR ''o'', CHR ''O''} then (8, drop 2 s)
      else if length s \<ge> 3 \<and> s ! 1 \<in> {CHR ''x'', CHR ''X''} then (16, drop 2 s)
      else (8, drop 1 s))"

text \<open>The loop of \<^verbatim>\<open>underscoreOK\<close>; \<open>i\<close> is the kind of the last character: a digit, an underscore, or something else.\<close>

fun underscore_loop :: "bool \<Rightarrow> char \<Rightarrow> string \<Rightarrow> bool" where
  "underscore_loop hex i [] \<longleftrightarrow> i \<noteq> CHR ''_''"
| "underscore_loop hex i (c # cs) \<longleftrightarrow>
     (if is_digit c \<or> hex \<and> c \<in> set ''abcdefABCDEF'' then underscore_loop hex (CHR ''0'') cs
      else if c = CHR ''_'' then i = CHR ''0'' \<and> underscore_loop hex (CHR ''_'') cs
      else if i = CHR ''_'' then False
      else underscore_loop hex (CHR ''!'') cs)"

definition underscore_ok :: "string \<Rightarrow> bool" where
  "underscore_ok s0 =
     (let s = (if s0 \<noteq> [] \<and> hd s0 \<in> {CHR ''-'', CHR ''+''} then tl s0 else s0) in
      if length s \<ge> 2 \<and> hd s = CHR ''0'' \<and> s ! 1 \<in> set ''bBoOxX''
      then underscore_loop (s ! 1 \<in> set ''xX'') (CHR ''0'') (drop 2 s)
      else underscore_loop False (CHR ''^'') s)"

text \<open>\<open>None\<close> for any error: the flag package ends the program on each of them.\<close>

definition parse_int0 :: "string \<Rightarrow> int option" where
  "parse_int0 s0 =
     (if s0 = [] then None
      else
        (let neg = (hd s0 = CHR ''-'');
             s = (if hd s0 = CHR ''-'' \<or> hd s0 = CHR ''+'' then tl s0 else s0) in
         if s = [] then None
         else (case int_base s of
           (base, ds) \<Rightarrow>
             (case parse_base base 0 ds of
                None \<Rightarrow> None
              | Some un \<Rightarrow>
                  if CHR ''_'' \<in> set ds \<and> \<not> underscore_ok s then None
                  else if \<not> neg \<and> 2 ^ 63 \<le> un then None
                  else if neg \<and> 2 ^ 63 < un then None
                  else Some (if neg then - un else un)))))"

definition parse_bool :: "string \<Rightarrow> bool option" where
  "parse_bool s =
     (if s \<in> {''1'', ''t'', ''T'', ''TRUE'', ''true'', ''True''} then Some True
      else if s \<in> {''0'', ''f'', ''F'', ''FALSE'', ''false'', ''False''} then Some False
      else None)"

section \<open>Model: flag.FlagSet\<close>

datatype flag_value =
    IntV int
  | StringV string
  | BoolV bool
  | DurationV int
  | ListV "string list"

type_synonym flag_set = "string \<rightharpoonup> flag_value"

text \<open>\<^verbatim>\<open>Value.Set\<close>: the type of the current value decides how the text is read.\<close>

definition set_flag :: "(string \<Rightarrow> int option) \<Rightarrow> flag_value \<Rightarrow> string \<Rightarrow> flag_value option" where
  "set_flag dur v s =
     (case v of
        IntV _ \<Rightarrow> map_option IntV (parse_int0 s)
      | StringV _ \<Rightarrow> Some (StringV s)
      | BoolV _ \<Rightarrow> map_option BoolV (parse_bool s)
      | DurationV _ \<Rightarrow> map_option DurationV (dur s)
      | ListV vs \<Rightarrow> Some (ListV (vs @ [s])))"

definition is_bool_flag :: "flag_value \<Rightarrow> bool" where
  "is_bool_flag v = (case v of BoolV _ \<Rightarrow> True | _ \<Rightarrow> False)"

text \<open>
  \<^verbatim>\<open>Parse\<close>. The text behind the dashes cannot start with \<^verbatim>\<open>=\<close>, so the value starts behind the first one.
  Help ends the program with code 0, an error with code 2.
\<close>

fun flag_parse :: "(string \<Rightarrow> int option) \<Rightarrow> flag_set \<Rightarrow> string list \<Rightarrow> int + flag_set \<times> string list" where
  "flag_parse dur fs [] = Inr (fs, [])"
| "flag_parse dur fs (s # args) =
     (if length s < 2 \<or> hd s \<noteq> CHR ''-'' then Inr (fs, s # args)
      else if s = ''--'' then Inr (fs, args)
      else
        (let name0 = (if s ! 1 = CHR ''-'' then drop 2 s else drop 1 s) in
         if name0 = [] \<or> hd name0 = CHR ''-'' \<or> hd name0 = CHR ''='' then Inl 2
         else (case Go_Prelude.cut (CHR ''='') name0 of
           (name, val, hasValue) \<Rightarrow>
             (case fs name of
                None \<Rightarrow> Inl (if name = ''help'' \<or> name = ''h'' then 0 else 2)
              | Some v \<Rightarrow>
                  if is_bool_flag v \<or> hasValue
                  then (case set_flag dur v (if hasValue then val else ''true'') of
                          None \<Rightarrow> Inl 2
                        | Some v' \<Rightarrow> flag_parse dur (fs(name \<mapsto> v')) args)
                  else (case args of
                          [] \<Rightarrow> Inl 2
                        | a # args' \<Rightarrow>
                            (case set_flag dur v a of
                               None \<Rightarrow> Inl 2
                             | Some v' \<Rightarrow> flag_parse dur (fs(name \<mapsto> v')) args'))))))"

text \<open>The values a command reads after parsing.\<close>

definition int_flag :: "flag_set \<Rightarrow> string \<Rightarrow> int" where
  "int_flag fs n = (case fs n of Some (IntV i) \<Rightarrow> i | _ \<Rightarrow> 0)"

definition string_flag :: "flag_set \<Rightarrow> string \<Rightarrow> string" where
  "string_flag fs n = (case fs n of Some (StringV s) \<Rightarrow> s | _ \<Rightarrow> [])"

definition bool_flag :: "flag_set \<Rightarrow> string \<Rightarrow> bool" where
  "bool_flag fs n = (case fs n of Some (BoolV b) \<Rightarrow> b | _ \<Rightarrow> False)"

definition duration_flag :: "flag_set \<Rightarrow> string \<Rightarrow> int" where
  "duration_flag fs n = (case fs n of Some (DurationV d) \<Rightarrow> d | _ \<Rightarrow> 0)"

definition list_flag :: "flag_set \<Rightarrow> string \<Rightarrow> string list" where
  "list_flag fs n = (case fs n of Some (ListV l) \<Rightarrow> l | _ \<Rightarrow> [])"

section \<open>Reading back what is written\<close>

lemma digit_value_digit: "is_digit c \<Longrightarrow> digit_value c = Some (of_char c - 48)"
  by (simp add: digit_value_def is_digit_def Let_def)

lemma parse_base_digits:
  "\<forall>c \<in> set ds. is_digit c \<Longrightarrow> 0 \<le> n \<Longrightarrow> parse_digits n ds = (m, None) \<Longrightarrow> parse_base 10 n ds = Some m"
proof (induction ds arbitrary: n)
  case (Cons c ds)
  from Cons.prems(1) have c: "is_digit c" "c \<noteq> CHR ''_''" by (auto simp: is_digit_def)
  with Cons show ?case by (auto simp: digit_value_digit is_digit_def Let_def split: if_splits)
qed simp

lemma hd_itoa_digits_nonzero: "0 < n \<Longrightarrow> hd (itoa_digits n) \<noteq> CHR ''0''"
proof (induction n rule: itoa_digits.induct)
  case (1 n)
  show ?case
  proof (cases "n < 10")
    case True
    have "(of_char (char_of (48 + n) :: char) :: int) = 48 + n" using True 1(2) by simp
    moreover have "(of_char (CHR ''0'') :: int) \<noteq> 48 + n" using 1(2) by simp
    ultimately have "char_of (48 + n) \<noteq> CHR ''0''" by metis
    with True show ?thesis by (simp add: itoa_digits.simps [of n])
  next
    case False
    with 1 show ?thesis by (simp add: itoa_digits.simps [of n])
  qed
qed

lemma int_base_itoa: "0 < n \<Longrightarrow> int_base (itoa_digits n) = (10, itoa_digits n)"
  by (simp add: int_base_def hd_itoa_digits_nonzero)

lemma parse_base_itoa: "0 \<le> n \<Longrightarrow> n < 2 ^ 64 \<Longrightarrow> parse_base 10 0 (itoa_digits n) = Some n"
  using parse_base_digits [of "itoa_digits n" 0 n] itoa_digits_digits [of n] parse_digits_itoa [of n] by auto

lemma itoa_no_underscore: "0 \<le> n \<Longrightarrow> CHR ''_'' \<notin> set (itoa_digits n)"
  using itoa_digits_digits [of n "CHR ''_''"] by (auto simp: is_digit_def)

lemma parse_int0_itoa:
  assumes "int64 i"
  shows "parse_int0 (itoa i) = Some i"
proof -
  consider "i = 0" | "0 < i" | "i < 0" by linarith
  then show ?thesis
  proof cases
    case 1
    have "parse_int0 (itoa 0) = Some 0" by code_simp
    with 1 show ?thesis by simp
  next
    case 2
    have "is_digit (hd (itoa_digits i))" using 2 by (simp add: hd_itoa_digits)
    then have "hd (itoa_digits i) \<noteq> CHR ''-''" "hd (itoa_digits i) \<noteq> CHR ''+''" by (auto simp: is_digit_def)
    with 2 assms show ?thesis
      by (simp add: parse_int0_def itoa_def int_base_itoa parse_base_itoa itoa_no_underscore go_int)
  next
    case 3
    with assms show ?thesis
      by (simp add: parse_int0_def itoa_def int_base_itoa parse_base_itoa itoa_no_underscore go_int)
  qed
qed

definition flag_name :: "string \<Rightarrow> bool" where
  "flag_name n \<longleftrightarrow> n \<noteq> [] \<and> hd n \<noteq> CHR ''-'' \<and> CHR ''='' \<notin> set n"

lemma cut_none: "c \<notin> set s \<Longrightarrow> cut c s = (s, [], False)"
  by (simp add: cut_def)

lemma flag_name_hd: "flag_name n \<Longrightarrow> hd n \<noteq> CHR ''=''"
  by (cases n) (auto simp: flag_name_def)

text \<open>The two ways to give a flag its value.\<close>

lemma flag_eq:
  assumes "flag_name n" and "fs n = Some v" and "set_flag dur v s = Some v'"
  shows "flag_parse dur fs ((''--'' @ n @ ''='' @ s) # args) = flag_parse dur (fs(n \<mapsto> v')) args"
proof -
  have "Go_Prelude.cut (CHR ''='') (n @ CHR ''='' # s) = (n, s, True)" using assms(1) by (simp add: flag_name_def)
  then show ?thesis using assms flag_name_hd [OF assms(1)] by (cases n) (auto simp: flag_name_def)
qed

lemma flag_arg:
  assumes "flag_name n" and "fs n = Some v" and "\<not> is_bool_flag v" and "set_flag dur v s = Some v'"
  shows "flag_parse dur fs ((''--'' @ n) # s # args) = flag_parse dur (fs(n \<mapsto> v')) args"
  using assms flag_name_hd [OF assms(1)] by (cases n) (auto simp: flag_name_def cut_none)

end
