(* ===== verification/Cli.thy ===== *)
theory Cli
  imports Go_Flag Discover Hwloc Snapshot Dag_Run Shm Plasma_Run Dashboard Daemon Perf
begin

text \<open>
  The command line (cmd/nexusflow): which subcommand the arguments select, and what each subcommand does with the
  packages below it. Each command declares its flags with their defaults (\<open>..._formals\<close>), parses its arguments with the model
  of the flag package, and goes on with the values. A command's result is its exit code, 0 when it returns.

  What the automation behind \<^verbatim>\<open>kubermetrics.Main\<close> does is not part of the model; the dispatch only says when it is started.
\<close>

section \<open>Model: main.go, dispatch\<close>

definition looksLikeKubermetricsArgv :: "string list \<Rightarrow> bool" where
  "looksLikeKubermetricsArgv args \<longleftrightarrow>
     (case args of
        [] \<Rightarrow> False
      | a # _ \<Rightarrow>
          if a = ''-h'' \<or> a = ''--help'' then False
          else if \<not> has_prefix a ''-'' then False
          else if has_prefix a ''-cpu-id'' \<or> has_prefix a ''-kubeconfig'' then True
          else a \<in> {''-dry-run'', ''--dry-run'', ''-print-id'', ''--print-id'', ''-cpu-id'', ''--cpu-id''})"

text \<open>\<^verbatim>\<open>filepath.Base\<close>.\<close>

definition path_base :: "string \<Rightarrow> string" where
  "path_base p =
     (if p = [] then ''.''
      else
        (let q = rev (dropWhile (\<lambda>c. c = CHR ''/'') (rev p)) in
         if q = [] then ''/'' else rev (takeWhile (\<lambda>c. c \<noteq> CHR ''/'') (rev q))))"

text \<open>
  \<^verbatim>\<open>strings.EqualFold\<close> with an ASCII word: besides the ASCII capitals only the Kelvin sign folds to k and the long s
  (U+017F) to s.
\<close>

fun fold_ascii :: "string \<Rightarrow> string" where
  "fold_ascii (a # b # c # cs) =
     (if a = CHR 0xC5 \<and> b = CHR 0xBF then CHR ''s'' # fold_ascii (c # cs)
      else if a = CHR 0xE2 \<and> b = CHR 0x84 \<and> c = CHR 0xAA then CHR ''k'' # fold_ascii cs
      else ascii_lower a # fold_ascii (b # c # cs))"
| "fold_ascii [a, b] = (if a = CHR 0xC5 \<and> b = CHR 0xBF then ''s'' else [ascii_lower a, ascii_lower b])"
| "fold_ascii [a] = [ascii_lower a]"
| "fold_ascii [] = []"

datatype action =
    KubermetricsMain "string list"
  | RunSupervisor
  | TopologyCmd "string list"
  | RunCmd "string list"
  | DagRunCmd "string list"
  | ShmCreateCmd "string list"
  | PerfSampleCmd "string list"
  | DashboardCmd "string list"
  | DaemonMain "string list"
  | HugepagesSetCmd "string list"
  | UsageText
  | PrintVersion
  | UsageError string

text \<open>The two-word subcommands ask for the second word and at least one more argument.\<close>

definition two_words :: "string \<Rightarrow> string \<Rightarrow> string list \<Rightarrow> (string list \<Rightarrow> action) \<Rightarrow> action" where
  "two_words sub word rest act =
     (if length rest < 2 \<or> hd rest \<noteq> word then UsageError sub else act (tl rest))"

definition dispatch_sub :: "string \<Rightarrow> string list \<Rightarrow> action" where
  "dispatch_sub sub rest =
     (if sub = ''topology'' \<or> sub = ''topo'' then TopologyCmd rest
      else if sub = ''run'' then RunCmd rest
      else if sub = ''dag'' then two_words sub ''run'' rest DagRunCmd
      else if sub = ''shm'' then two_words sub ''create'' rest ShmCreateCmd
      else if sub = ''perf'' then two_words sub ''sample'' rest PerfSampleCmd
      else if sub = ''dashboard'' then DashboardCmd rest
      else if sub = ''daemon'' then DaemonMain rest
      else if sub = ''hugepages'' then two_words sub ''set'' rest HugepagesSetCmd
      else if sub = ''-h'' \<or> sub = ''--help'' \<or> sub = ''help'' then UsageText
      else if sub = ''version'' then PrintVersion
      else UsageError sub)"

definition main_dispatch :: "string \<Rightarrow> string list \<Rightarrow> action" where
  "main_dispatch arg0 args =
     (if fold_ascii (trim_suffix (path_base arg0) ''.exe'') = ''kubermetrics'' then KubermetricsMain args
      else if args \<noteq> [] \<and> looksLikeKubermetricsArgv args then KubermetricsMain args
      else (case args of [] \<Rightarrow> RunSupervisor | sub # rest \<Rightarrow> dispatch_sub sub rest))"

text \<open>Only one command has a flag for a duration.\<close>

definition no_durations :: "string \<Rightarrow> int option" where
  "no_durations s = None"

section \<open>Model: discovery\<close>

datatype topo_error =
    SysfsError discover_error
  | HwlocError hwloc_error
  | AutoError discover_error hwloc_error

text \<open>\<open>sysfs\<close> and \<open>hw\<close> are the results of \<^verbatim>\<open>topology.Discover\<close> and \<^verbatim>\<open>hwloc.DiscoverCLI\<close>.\<close>

definition discoverTopology ::
  "discover_error + Topology \<Rightarrow> hwloc_error + Topology \<Rightarrow> string \<Rightarrow> topo_error + Topology \<times> string" where
  "discoverTopology sysfs hw mode =
     (if mode = ''hwloc'' then (case hw of Inl e \<Rightarrow> Inl (HwlocError e) | Inr t \<Rightarrow> Inr (t, ''hwloc-xml''))
      else if mode = ''sysfs'' then (case sysfs of Inl e \<Rightarrow> Inl (SysfsError e) | Inr t \<Rightarrow> Inr (t, ''sysfs''))
      else (case sysfs of
        Inr t \<Rightarrow> Inr (t, ''sysfs'')
      | Inl e \<Rightarrow> (case hw of Inr t \<Rightarrow> Inr (t, ''hwloc-xml(fallback)'') | Inl e2 \<Rightarrow> Inl (AutoError e e2))))"

section \<open>Model: main.go, run\<close>

text \<open>The flag part and the command: split at the first \<^verbatim>\<open>--\<close>, which must not be the last argument.\<close>

definition split_dashes :: "string list \<Rightarrow> (string list \<times> string list) option" where
  "split_dashes args =
     (case dropWhile (\<lambda>a. a \<noteq> ''--'') args of
        [] \<Rightarrow> None
      | _ # cmdPart \<Rightarrow> if cmdPart = [] then None else Some (takeWhile (\<lambda>a. a \<noteq> ''--'') args, cmdPart))"

record run_flags =
  rf_cpus :: int
  rf_numa :: int
  rf_strategy :: string
  rf_priority :: string
  rf_membind :: bool

definition run_formals :: flag_set where
  "run_formals = [''cpus'' \<mapsto> IntV 0, ''numa'' \<mapsto> IntV (-1), ''strategy'' \<mapsto> StringV ''same-numa'', ''priority'' \<mapsto> StringV ''normal'', ''membind'' \<mapsto> BoolV True]"

definition parse_run :: "string list \<Rightarrow> int + run_flags" where
  "parse_run args =
     (case flag_parse no_durations run_formals args of
        Inl code \<Rightarrow> Inl code
      | Inr (fs, _) \<Rightarrow> Inr \<lparr>rf_cpus = int_flag fs ''cpus'', rf_numa = int_flag fs ''numa'', rf_strategy = string_flag fs ''strategy'',
          rf_priority = string_flag fs ''priority'', rf_membind = bool_flag fs ''membind''\<rparr>)"

definition priority_opts :: "string \<Rightarrow> RunOpts option" where
  "priority_opts priority =
     (let p = to_lower (trim_space priority) in
      if p = ''normal'' \<or> p = [] then Some \<lparr>Nice = None\<rparr>
      else if p = ''high'' then Some \<lparr>Nice = Some (-10)\<rparr>
      else if p = ''low'' then Some \<lparr>Nice = Some 10\<rparr>
      else None)"

definition wrap_numactl :: "(string \<Rightarrow> 'e + string) \<Rightarrow> bool \<Rightarrow> Topology \<Rightarrow> int list \<Rightarrow> string list \<Rightarrow> string list" where
  "wrap_numactl lookPath membind t cpuList cmdPart =
     (if membind then
        (case PrimaryNUMANodeForCPUs (Some t) cpuList of
           (node, ok) \<Rightarrow>
             if ok then
               (case lookPath ''numactl'' of
                  Inr nu \<Rightarrow> [nu, ''--cpunodebind='' @ itoa node, ''--membind='' @ itoa node, ''--''] @ cmdPart
                | Inl _ \<Rightarrow> cmdPart)
             else cmdPart)
      else cmdPart)"

text \<open>
  What \<^verbatim>\<open>runCmd\<close> does with the values of its flags and the command; then the whole of it. The result has the exit code and the system
  calls made; after a successful exec the code is that of the new program.
\<close>

definition run_with ::
  "'d + Topology \<Rightarrow> (string \<Rightarrow> 'e + string) \<Rightarrow> (sys_call \<Rightarrow> 'e option) \<Rightarrow>
   run_flags \<Rightarrow> string list \<Rightarrow> int \<times> sys_call list" where
  "run_with discovered lookPath sys fl cmdPart =
     (case discovered of
        Inl _ \<Rightarrow> (1, [])
      | Inr t \<Rightarrow>
        (case SelectCPUs t (rf_cpus fl) (if rf_numa fl \<ge> 0 then Some (rf_numa fl) else None) (rf_strategy fl) of
           Inl _ \<Rightarrow> (1, [])
         | Inr cpuList \<Rightarrow>
           (case priority_opts (rf_priority fl) of
              None \<Rightarrow> (2, [])
            | Some opts \<Rightarrow>
                (case Run lookPath sys cpuList (wrap_numactl lookPath (rf_membind fl) t cpuList cmdPart) opts of
                   (Some _, calls) \<Rightarrow> (1, calls)
                 | (None, calls) \<Rightarrow> (0, calls)))))"

definition runCmd ::
  "'d + Topology \<Rightarrow> (string \<Rightarrow> 'e + string) \<Rightarrow> (sys_call \<Rightarrow> 'e option) \<Rightarrow>
   string list \<Rightarrow> int \<times> sys_call list" where
  "runCmd discovered lookPath sys args =
     (case split_dashes args of
        None \<Rightarrow> (2, [])
      | Some (flagPart, cmdPart) \<Rightarrow>
        (case parse_run flagPart of
           Inl code \<Rightarrow> (code, [])
         | Inr fl \<Rightarrow> run_with discovered lookPath sys fl cmdPart))"

section \<open>Model: subcommands.go\<close>

definition dag_formals :: flag_set where
  "dag_formals = [''file'' \<mapsto> StringV [], ''prom-file'' \<mapsto> StringV []]"

definition dagRunCmd ::
  "(string \<Rightarrow> 'e + string) \<Rightarrow> (string \<Rightarrow> 'e + Pipeline) \<Rightarrow>
   topo_error + Topology \<times> string \<Rightarrow> 'e runner_env \<Rightarrow> string list \<Rightarrow> string list \<Rightarrow>
   int \<times> (Node \<times> string list) list \<times> (string \<times> string) list" where
  "dagRunCmd readFile yaml discovered env visit args =
     (case flag_parse no_durations dag_formals args of
        Inl code \<Rightarrow> (code, [], [])
      | Inr (fs, _) \<Rightarrow>
          let path = string_flag fs ''file''; promPath = string_flag fs ''prom-file'' in
          if path = [] then (2, [], [])
          else (case LoadFile readFile yaml path of
            Inl _ \<Rightarrow> (1, [], [])
          | Inr p \<Rightarrow>
              (case discovered of
                 Inl _ \<Rightarrow> (1, [], [])
               | Inr (t, _) \<Rightarrow>
                   (case Runner_Run env visit (Some t) (trim_space promPath) p of
                      (Some _, cmds, written) \<Rightarrow> (1, cmds, written)
                    | (None, cmds, written) \<Rightarrow> (0, cmds, written)))))"

text \<open>\<^verbatim>\<open>ParseInt\<close> with base ten and 64 bits is \<^verbatim>\<open>Atoi\<close> here. The lines are what goes to the standard output.\<close>

definition shm_formals :: flag_set where
  "shm_formals = [''size'' \<mapsto> StringV ''4096'', ''name'' \<mapsto> StringV []]"

definition shmCreateCmd ::
  "faults \<Rightarrow> 8 word list \<Rightarrow> string list \<Rightarrow> shm_world \<Rightarrow>
   int \<times> string list \<times> shm_world" where
  "shmCreateCmd f rnd args w =
     (case flag_parse no_durations shm_formals args of
        Inl code \<Rightarrow> (code, [], w)
      | Inr (fs, _) \<Rightarrow>
        let name = string_flag fs ''name'' in
        (case atoi (string_flag fs ''size'') of
           (_, Some _) \<Rightarrow> (2, [], w)
         | (sz, None) \<Rightarrow>
             if sz \<le> 0 then (2, [], w)
             else
               (case (if trim_space name \<noteq> [] then CreateNamed f (trim_space name) sz w else Create f rnd sz w) of
                  (Inl _, w1) \<Rightarrow> (1, [], w1)
                | (Inr seg, w1) \<Rightarrow>
                    (let out = [''NEXUSFLOW_SHM_PATH='' @ seg_path seg, ''NEXUSFLOW_SHM_SIZE='' @ itoa (seg_size seg)] in
                     case seg_Close f seg w1 of
                       (Some _, _, w2) \<Rightarrow> (1, out, w2)
                     | (None, _, w2) \<Rightarrow> (0, out, w2)))))"

text \<open>
  The perf sample; \<open>hw\<close> is the kernel's type number of hardware counters. The result has the exit code, the lines printed and
  the calls on the counter: \<^verbatim>\<open>os.Exit\<close> skips the deferred \<^verbatim>\<open>Close\<close>.
\<close>

definition perf_formals :: flag_set where
  "perf_formals = [''sleep-ms'' \<mapsto> IntV 100, ''kind'' \<mapsto> StringV ''cycles'']"

definition perf_window :: "perf_kernel \<Rightarrow> int \<Rightarrow> string \<Rightarrow> Counter \<Rightarrow> int \<times> string list \<times> perf_ev list" where
  "perf_window k sleepMs kindStr c =
     (let (r, e1) = Counter_Reset k c in
      if r \<noteq> None then (1, [], e1)
      else
        (let (r, e2) = Counter_Enable k c in
         if r \<noteq> None then (1, [], e1 @ e2)
         else
           (let (r, e3) = Counter_Disable k c; es = e1 @ e2 @ [Paused (wrap64 (sleepMs * 1000000))] @ e3 in
            if r \<noteq> None then (1, [], es)
            else (case ReadUint64 k c of
              ((_, Some _), e4) \<Rightarrow> (1, [], es @ e4)
            | ((v, None), e4) \<Rightarrow> (0, [kindStr @ ''='' @ itoa (uint v)], es @ e4 @ snd (Counter_Close k c))))))"

definition perfSampleCmd :: "perf_kernel \<Rightarrow> 32 word \<Rightarrow> string list \<Rightarrow> int \<times> string list \<times> perf_ev list" where
  "perfSampleCmd k hw args =
     (case flag_parse no_durations perf_formals args of
        Inl code \<Rightarrow> (code, [], [])
      | Inr (fs, _) \<Rightarrow>
          let kindStr = string_flag fs ''kind'' in
          if kindStr \<noteq> ''cycles'' \<and> kindStr \<noteq> ''instructions'' then (2, [], [])
          else (case perf_Open k hw (if kindStr = ''cycles'' then 0 else 1) (-1) (-1) of
            (Inl _, es) \<Rightarrow> (1, [], es)
          | (Inr c, es) \<Rightarrow>
              (case perf_window k (int_flag fs ''sleep-ms'') kindStr c of (code, out, es1) \<Rightarrow> (code, out, es @ es1))))"

section \<open>Model: topology commands\<close>

text \<open>\<open>jsonIndent\<close> and \<open>hintsJSON\<close> are the JSON library at the two types exported; a failed write is not modelled.\<close>

definition hints_formals :: flag_set where
  "hints_formals = [''format'' \<mapsto> StringV ''shell'', ''source'' \<mapsto> StringV ''auto'']"

definition topologyHintsCmd ::
  "(string \<Rightarrow> topo_error + Topology \<times> string) \<Rightarrow> (ClusterHints \<Rightarrow> string + string) \<Rightarrow>
   string list \<Rightarrow> int \<times> string" where
  "topologyHintsCmd discover hintsJSON args =
     (case flag_parse no_durations hints_formals args of
        Inl code \<Rightarrow> (code, [])
      | Inr (fs, _) \<Rightarrow>
        let fmt = string_flag fs ''format'' in
        (case discover (string_flag fs ''source'') of
           Inl _ \<Rightarrow> (1, [])
         | Inr (t, srcUsed) \<Rightarrow>
             (let h = BuildClusterHints (Some t) srcUsed in
              if fmt = ''shell'' then (0, WriteHintsShell (Some h))
              else if fmt = ''json'' then (case FormatHintsJSON hintsJSON (Some h) of Inl _ \<Rightarrow> (1, []) | Inr b \<Rightarrow> (0, b @ line_end))
              else if fmt = ''openmpi'' then (0, WriteHintsOpenMPI (Some h))
              else if fmt = ''slurm'' then (0, WriteHintsSlurm (Some h))
              else (2, []))))"

definition matrix_formals :: flag_set where
  "matrix_formals = [''source'' \<mapsto> StringV ''auto'']"

definition topologyMatrixCmd ::
  "(string \<Rightarrow> topo_error + Topology \<times> string) \<Rightarrow> string list \<Rightarrow> int \<times> string" where
  "topologyMatrixCmd discover args =
     (case flag_parse no_durations matrix_formals args of
        Inl code \<Rightarrow> (code, [])
      | Inr (fs, _) \<Rightarrow>
        (case discover (string_flag fs ''source'') of
           Inl _ \<Rightarrow> (1, [])
         | Inr (t, srcUsed) \<Rightarrow> (0, FormatHintsMatrix (Some (BuildClusterHints (Some t) srcUsed)))))"

definition topology_formals :: flag_set where
  "topology_formals = [''json'' \<mapsto> BoolV False, ''source'' \<mapsto> StringV ''auto'']"

definition topologyCmd ::
  "(string \<Rightarrow> topo_error + Topology \<times> string) \<Rightarrow> (ClusterHints \<Rightarrow> string + string) \<Rightarrow>
   (Snapshot option \<Rightarrow> string \<Rightarrow> string \<Rightarrow> string + string) \<Rightarrow> string list \<Rightarrow> int \<times> string" where
  "topologyCmd discover hintsJSON jsonIndent args =
     (if args \<noteq> [] \<and> hd args = ''hints'' then topologyHintsCmd discover hintsJSON (tl args)
      else if args \<noteq> [] \<and> hd args = ''matrix'' then topologyMatrixCmd discover (tl args)
      else (case flag_parse no_durations topology_formals args of
        Inl code \<Rightarrow> (code, [])
      | Inr (fs, _) \<Rightarrow>
          (case discover (string_flag fs ''source'') of
             Inl _ \<Rightarrow> (1, [])
           | Inr (t, srcUsed) \<Rightarrow>
               if bool_flag fs ''json''
               then (case MarshalTopologyJSONIndent jsonIndent (Some t) [] ''  '' srcUsed of
                       Inl _ \<Rightarrow> (1, [])
                     | Inr b \<Rightarrow> (0, b @ line_end))
               else (0, FormatASCII t))))"

section \<open>Model: plasma\_cmd.go\<close>

text \<open>
  Nothing calls \<^verbatim>\<open>plasmaRunCmd\<close>: the dispatch has no case for it. \<open>dur\<close> is \<^verbatim>\<open>time.ParseDuration\<close>, \<open>run\<close> what
  \<^verbatim>\<open>plasma.Run\<close> returns for a configuration and a topology.
\<close>

definition plasma_formals :: flag_set where
  "plasma_formals = [''listen'' \<mapsto> StringV ''/tmp/nexusflow-plasma.sock'', ''file'' \<mapsto> StringV [], ''shm-name'' \<mapsto> StringV ''plasma'',
     ''shm-size'' \<mapsto> IntV 65536, ''idle-exit'' \<mapsto> DurationV (15 * 1000000000)]"

definition plasma_config :: "flag_set \<Rightarrow> Config" where
  "plasma_config fs = \<lparr>SocketPath = string_flag fs ''listen'', PipelinePath = string_flag fs ''file'', ShmName = string_flag fs ''shm-name'',
     ShmSize = int_flag fs ''shm-size'', IdleExit = duration_flag fs ''idle-exit''\<rparr>"

definition plasmaRunCmd ::
  "(string \<Rightarrow> int option) \<Rightarrow> (string \<Rightarrow> topo_error + Topology \<times> string) \<Rightarrow> (Config \<Rightarrow> Topology \<Rightarrow> 'e option) \<Rightarrow>
   string list \<Rightarrow> int \<times> (Config \<times> Topology) option" where
  "plasmaRunCmd dur discover run args =
     (case flag_parse dur plasma_formals args of
        Inl code \<Rightarrow> (code, None)
      | Inr (fs, _) \<Rightarrow>
          if string_flag fs ''file'' = [] then (2, None)
          else (case discover ''sysfs'' of
            Inl _ \<Rightarrow> (1, None)
          | Inr (t, _) \<Rightarrow>
              (case run (plasma_config fs) t of
                 Some _ \<Rightarrow> (1, Some (plasma_config fs, t))
               | None \<Rightarrow> (0, Some (plasma_config fs, t)))))"

section \<open>Model: servers and huge pages\<close>

definition dashboard_formals :: flag_set where
  "dashboard_formals = [''listen'' \<mapsto> StringV ''127.0.0.1:9842'', ''tls-cert'' \<mapsto> StringV [], ''tls-key'' \<mapsto> StringV [], ''auth-token'' \<mapsto> StringV [], ''allow-cidr'' \<mapsto> ListV []]"

text \<open>\<^verbatim>\<open>cidrFlags.Set\<close>, once for every occurrence of the flag.\<close>

definition cidrFlags_Set :: "string list \<Rightarrow> string \<Rightarrow> string list" where
  "cidrFlags_Set c v = c @ [trim_space v]"

text \<open>\<open>exe\<close> is the result of \<^verbatim>\<open>os.Executable\<close>, \<open>server\<close> what the server does with its configuration: it returns an error in the end.\<close>

definition dashboardCmd ::
  "string + string \<Rightarrow> (ServerConfig \<Rightarrow> string option) \<Rightarrow> string list \<Rightarrow>
   int \<times> ServerConfig option" where
  "dashboardCmd exe server args =
     (case flag_parse no_durations dashboard_formals args of
        Inl code \<Rightarrow> (code, None)
      | Inr (fs, _) \<Rightarrow>
        (case exe of
           Inl _ \<Rightarrow> (1, None)
         | Inr bin \<Rightarrow>
             (let cfg = \<lparr>sc_Addr = trim_space (string_flag fs ''listen''), NexusflowBinary = bin, TLSCertFile = trim_space (string_flag fs ''tls-cert''),
                         TLSKeyFile = trim_space (string_flag fs ''tls-key''), AuthToken = trim_space (string_flag fs ''auth-token''),
                         AllowedCIDRs = foldl cidrFlags_Set [] (list_flag fs ''allow-cidr'')\<rparr> in
              if (TLSCertFile cfg \<noteq> []) \<noteq> (TLSKeyFile cfg \<noteq> []) then (2, None)
              else (case server cfg of Some _ \<Rightarrow> (1, Some cfg) | None \<Rightarrow> (0, Some cfg)))))"

definition daemon_formals :: flag_set where
  "daemon_formals = [''listen'' \<mapsto> StringV ''127.0.0.1:50051'', ''cgroup-root'' \<mapsto> StringV []]"

definition daemonMain ::
  "string \<Rightarrow> (string \<Rightarrow> string option) \<Rightarrow> (Server \<Rightarrow> string option) \<Rightarrow> string list \<Rightarrow>
   cg_world \<Rightarrow> int \<times> cg_world" where
  "daemonMain env_root listen server args w =
     (case flag_parse no_durations daemon_formals args of
        Inl code \<Rightarrow> (code, w)
      | Inr (fs, _) \<Rightarrow>
          let cgroup = string_flag fs ''cgroup-root'' in
          (case Serve listen server (string_flag fs ''listen'') (if cgroup = [] then env_root else cgroup) w of
             (Some _, w1) \<Rightarrow> (1, w1)
           | (None, w1) \<Rightarrow> (0, w1)))"

definition hugepages_formals :: flag_set where
  "hugepages_formals = [''pages'' \<mapsto> IntV 0, ''count'' \<mapsto> IntV (-1), ''size'' \<mapsto> StringV ''2M'']"

definition hugepagesSetCmd ::
  "(string \<Rightarrow> string \<Rightarrow> string option) \<Rightarrow> (string \<Rightarrow> string + string) \<Rightarrow> string list \<Rightarrow>
   int \<times> string \<times> (string \<times> string) list" where
  "hugepagesSetCmd write read args =
     (case flag_parse no_durations hugepages_formals args of
        Inl code \<Rightarrow> (code, [], [])
      | Inr (fs, _) \<Rightarrow>
          let cnt = int_flag fs ''count'' in
          (case SetNrHugepages write read (string_flag fs ''size'') (if cnt \<ge> 0 then cnt else int_flag fs ''pages'') of
             (Inl _, written) \<Rightarrow> (1, [], written)
           | (Inr v, written) \<Rightarrow> (0, ''nr_hugepages='' @ itoa v @ line_end, written)))"

section \<open>Running a pinned command\<close>

lemma split_dashes_Some:
  "split_dashes args = Some (fl, cmd) \<longleftrightarrow> args = fl @ ''--'' # cmd \<and> ''--'' \<notin> set fl \<and> cmd \<noteq> []"
proof
  assume s: "split_dashes args = Some (fl, cmd)"
  then obtain d where d: "dropWhile (\<lambda>a. a \<noteq> ''--'') args = d # cmd" "fl = takeWhile (\<lambda>a. a \<noteq> ''--'') args" "cmd \<noteq> []"
    by (auto simp: split_dashes_def split: list.splits if_splits)
  then have "d = ''--''" using hd_dropWhile [of "\<lambda>a. a \<noteq> ''--''" args] by auto
  then show "args = fl @ ''--'' # cmd \<and> ''--'' \<notin> set fl \<and> cmd \<noteq> []"
    using d takeWhile_dropWhile_id [of "\<lambda>a. a \<noteq> ''--''" args] by (auto dest: set_takeWhileD)
next
  assume r: "args = fl @ ''--'' # cmd \<and> ''--'' \<notin> set fl \<and> cmd \<noteq> []"
  then have "\<forall>a \<in> set fl. a \<noteq> ''--''" by auto
  then have "dropWhile (\<lambda>a. a \<noteq> ''--'') (fl @ ''--'' # cmd) = ''--'' # cmd" "takeWhile (\<lambda>a. a \<noteq> ''--'') (fl @ ''--'' # cmd) = fl"
    by (simp_all add: dropWhile_append takeWhile_append)
  with r show "split_dashes args = Some (fl, cmd)" by (simp add: split_dashes_def)
qed

text \<open>What may stand before the command: nothing, or numactl bound to a node that holds all the selected CPUs.\<close>

definition numa_prefix :: "Topology \<Rightarrow> int list \<Rightarrow> string list \<Rightarrow> bool" where
  "numa_prefix t cpus pre \<longleftrightarrow>
     pre = [] \<or> (\<exists>nu node. pre = [nu, ''--cpunodebind='' @ itoa node, ''--membind='' @ itoa node, ''--''] \<and> 0 \<le> node \<and>
       (\<forall>i \<in> set cpus. \<exists>c \<in> set (topo_CPUs t). cpu_ID c = i \<and> cpu_NUMANode c = node))"

lemma wrap_numactl_prefix:
  assumes "wf_topology t"
  shows "\<exists>pre. wrap_numactl lookPath membind t cpus cmd = pre @ cmd \<and> numa_prefix t cpus pre"
proof -
  obtain node ok where p: "PrimaryNUMANodeForCPUs (Some t) cpus = (node, ok)" by fastforce
  have "ok \<Longrightarrow> numa_prefix t cpus [nu, ''--cpunodebind='' @ itoa node, ''--membind='' @ itoa node, ''--'']" for nu
    using primary_iff [of t cpus node] p assms unfolding wf_topology_def numa_prefix_def by auto
  then show ?thesis
    using p by (cases "membind \<and> ok"; cases "lookPath ''numactl''") (auto simp: wrap_numactl_def numa_prefix_def)
qed

lemma runCmd_pins_facts:
  assumes "runCmd (Inr t) lookPath sys args = (code, calls)" and "wf_topology t" and "Exec path argv \<in> set calls"
  shows "\<exists>flags cmd fl cpus pre opts. args = flags @ ''--'' # cmd \<and> ''--'' \<notin> set flags \<and> cmd \<noteq> [] \<and> parse_run flags = Inr fl \<and>
    SelectCPUs t (rf_cpus fl) (if rf_numa fl \<ge> 0 then Some (rf_numa fl) else None) (rf_strategy fl) = Inr cpus \<and> cpus \<noteq> [] \<and>
    priority_opts (rf_priority fl) = Some opts \<and> argv = pre @ cmd \<and> numa_prefix t cpus pre \<and>
    sys (SchedSetaffinity (affinity_mask cpus)) = None \<and>
    calls = (case Nice opts of None \<Rightarrow> [] | Some n \<Rightarrow> [Setpriority n]) @ [SchedSetaffinity (affinity_mask cpus), Exec path argv]"
proof -
  from assms(1,3) obtain flags cmd fl cpus opts err where
    args: "split_dashes args = Some (flags, cmd)" and fl: "parse_run flags = Inr fl"
    and sel: "SelectCPUs t (rf_cpus fl) (if rf_numa fl \<ge> 0 then Some (rf_numa fl) else None) (rf_strategy fl) = Inr cpus"
    and opts: "priority_opts (rf_priority fl) = Some opts"
    and run: "Run lookPath sys cpus (wrap_numactl lookPath (rf_membind fl) t cpus cmd) opts = (err, calls)"
    by (auto simp: runCmd_def run_with_def split: option.splits prod.splits sum.splits)
  obtain pre where pre: "wrap_numactl lookPath (rf_membind fl) t cpus cmd = pre @ cmd" "numa_prefix t cpus pre"
    using wrap_numactl_prefix [OF assms(2)] by blast
  note pins = Run_pins_before_exec [OF run, of path argv, THEN conjunct1, rule_format, OF assms(3)]
  from args have "args = flags @ ''--'' # cmd \<and> ''--'' \<notin> set flags \<and> cmd \<noteq> []" by (simp add: split_dashes_Some)
  then show ?thesis using fl sel opts pre pins by metis
qed

text \<open>
  C6. \<^verbatim>\<open>nexusflow run\<close> starts the user's command on the chosen CPUs only: on a well-formed topology, if a program is executed
  at all, then the arguments had a \<^verbatim>\<open>--\<close>, what follows the first one is the command, executed unchanged or
  behind numactl bound to the node of all the CPUs, and right before it the affinity was set,
  with success, to the CPUs that placement selected for the flags, except those that a \<^verbatim>\<open>unix.CPUSet\<close> has no bit for: the mask is exactly
  the selected CPUs when they are all below 1024, and leaves the others out without an error.
\<close>

theorem run_cmd_pins:
  assumes "runCmd (Inr t) lookPath sys args = (code, calls)" and "wf_topology t" and "Exec path argv \<in> set calls"
  shows "\<exists>flags cmd fl cpus pre opts. args = flags @ ''--'' # cmd \<and> ''--'' \<notin> set flags \<and> cmd \<noteq> [] \<and> parse_run flags = Inr fl \<and>
    SelectCPUs t (rf_cpus fl) (if rf_numa fl \<ge> 0 then Some (rf_numa fl) else None) (rf_strategy fl) = Inr cpus \<and> cpus \<noteq> [] \<and>
    priority_opts (rf_priority fl) = Some opts \<and> argv = pre @ cmd \<and> numa_prefix t cpus pre \<and>
    sys (SchedSetaffinity {i \<in> set cpus. i < 1024}) = None \<and>
    calls = (case Nice opts of None \<Rightarrow> [] | Some n \<Rightarrow> [Setpriority n]) @ [SchedSetaffinity {i \<in> set cpus. i < 1024}, Exec path argv]"
  using runCmd_pins_facts [OF assms] by (simp only: affinity_mask_set)

text \<open>
  When the run command gets as far as executing its program: the topology is well-formed and has CPUs, the program and numactl, if it is there, are
  found, and the system calls succeed.
\<close>

definition can_run :: "Topology \<Rightarrow> (string \<Rightarrow> 'e + string) \<Rightarrow> (sys_call \<Rightarrow> 'e option) \<Rightarrow> string list \<Rightarrow> bool" where
  "can_run t lookPath sys cmd \<longleftrightarrow>
     wf_topology t \<and> topo_CPUs t \<noteq> [] \<and> (\<forall>c \<in> set (topo_CPUs t). 0 \<le> cpu_ID c) \<and> cmd \<noteq> [] \<and> is_ok (lookPath (hd cmd)) \<and>
     (\<forall>nu. lookPath ''numactl'' = Inr nu \<longrightarrow> is_ok (lookPath nu)) \<and>
     (\<forall>S. sys (SchedSetaffinity S) = None) \<and> (\<forall>path argv. sys (Exec path argv) = None)"

lemma Run_executes:
  assumes "argv \<noteq> []" and "lookPath (hd argv) = Inr path" and "cpus \<noteq> []" and "\<forall>i \<in> set cpus. 0 \<le> i"
    and "sys (SchedSetaffinity (affinity_mask cpus)) = None" and "sys (Exec path argv) = None"
  shows "Run lookPath sys cpus argv \<lparr>Nice = None\<rparr> = (None, [SchedSetaffinity (affinity_mask cpus), Exec path argv])"
proof -
  have "find (\<lambda>i. i < 0) cpus = None" using assms(4) by (auto simp: find_None_iff)
  then have "build_set {} cpus = Inr (affinity_mask cpus)" by (simp add: build_set_spec)
  with assms show ?thesis by (cases argv) (simp_all add: Run_def Let_def)
qed

lemma wrap_numactl_found:
  assumes "can_run t lookPath sys cmd"
  shows "\<exists>path. lookPath (hd (wrap_numactl lookPath membind t cpus cmd)) = Inr path"
  using assms by (auto simp: wrap_numactl_def can_run_def is_ok_iff split: prod.splits sum.splits)

lemma runCmd_executes:
  assumes "can_run t lookPath sys cmd"
  shows "\<exists>path pre. runCmd (Inr t) lookPath sys (''--'' # cmd) = (0, [SchedSetaffinity (affinity_mask (allCPUIDs t)), Exec path (pre @ cmd)]) \<and>
    numa_prefix t (allCPUIDs t) pre \<and> lookPath (hd (pre @ cmd)) = Inr path"
proof -
  let ?argv = "wrap_numactl lookPath True t (allCPUIDs t) cmd"
  have ids: "allCPUIDs t \<noteq> []" "\<forall>i \<in> set (allCPUIDs t). 0 \<le> i" using assms by (auto simp: can_run_def allCPUIDs_def)
  obtain pre where pre: "?argv = pre @ cmd" "numa_prefix t (allCPUIDs t) pre"
    using wrap_numactl_prefix assms unfolding can_run_def by blast
  obtain path where path: "lookPath (hd ?argv) = Inr path" using wrap_numactl_found [OF assms] by blast
  have "?argv \<noteq> []" using pre(1) assms by (simp add: can_run_def)
  then have run: "Run lookPath sys (allCPUIDs t) ?argv \<lparr>Nice = None\<rparr> = (None, [SchedSetaffinity (affinity_mask (allCPUIDs t)), Exec path ?argv])"
    using path ids assms by (intro Run_executes) (simp_all add: can_run_def)
  have "split_dashes (''--'' # cmd) = Some ([], cmd)" using assms by (simp add: split_dashes_Some can_run_def)
  moreover have "parse_run [] = Inr \<lparr>rf_cpus = 0, rf_numa = -1, rf_strategy = ''same-numa'', rf_priority = ''normal'', rf_membind = True\<rparr>"
    by code_simp
  moreover have "priority_opts ''normal'' = Some \<lparr>Nice = None\<rparr>" by code_simp
  ultimately have "runCmd (Inr t) lookPath sys (''--'' # cmd) = (0, [SchedSetaffinity (affinity_mask (allCPUIDs t)), Exec path ?argv])"
    using run by (simp add: runCmd_def run_with_def SelectCPUs_all)
  then show ?thesis using pre path by metis
qed

definition demo_args :: "string list" where
  "demo_args = [''--cpus=2'', ''--priority'', ''low'', ''--'', ''make'']"

definition demo_flags :: run_flags where
  "demo_flags = \<lparr>rf_cpus = 2, rf_numa = -1, rf_strategy = ''same-numa'', rf_priority = ''low'', rf_membind = True\<rparr>"

lemma demo_args_parse: "parse_run [''--cpus=2'', ''--priority'', ''low''] = Inr demo_flags"
  by code_simp

lemma demo_pinned_run:
  "runCmd (Inr two_node_machine :: unit + Topology) (\<lambda>p. Inr ''/bin/numactl'' :: unit + string) (\<lambda>_. None) demo_args =
     (0, [Setpriority 10, SchedSetaffinity {0, 1}, Exec ''/bin/numactl'' [''/bin/numactl'', ''--cpunodebind=0'', ''--membind=0'', ''--'', ''make'']])"
proof -
  have ev: "SelectCPUs two_node_machine 2 None ''same-numa'' = Inr [0, 1]" "PrimaryNUMANodeForCPUs (Some two_node_machine) [0, 1] = (0, True)"
    "priority_opts ''low'' = Some \<lparr>Nice = Some 10\<rparr>" "itoa 0 = ''0''" by code_simp+
  have "split_dashes demo_args = Some ([''--cpus=2'', ''--priority'', ''low''], [''make''])" by code_simp
  then show ?thesis
    by (simp add: runCmd_def run_with_def demo_args_parse demo_flags_def ev wrap_numactl_def Run_def CPUSet_Set_def CPU_SETSIZE_def insert_commute)
qed

theorem run_cmd_pins_witness:
  "\<exists>flags cmd fl cpus pre. demo_args = flags @ ''--'' # cmd \<and> parse_run flags = Inr fl \<and>
     SelectCPUs two_node_machine (rf_cpus fl) (if rf_numa fl \<ge> 0 then Some (rf_numa fl) else None) (rf_strategy fl) = Inr cpus \<and>
     [''/bin/numactl'', ''--cpunodebind=0'', ''--membind=0'', ''--'', ''make''] = pre @ cmd \<and> numa_prefix two_node_machine cpus pre"
  using run_cmd_pins [OF demo_pinned_run two_node_machine_wf, of "''/bin/numactl''" "[''/bin/numactl'', ''--cpunodebind=0'', ''--membind=0'', ''--'', ''make'']"]
  unfolding list.set by blast

section \<open>The flags of a pinned command\<close>

text \<open>A setting of one flag, and how a user may write it: the value behind an equals sign, or as the next argument where the flag is not boolean.\<close>

datatype run_setting =
    SetCpus int
  | SetNuma int
  | SetStrategy string
  | SetPriority string
  | SetMembind bool

fun setting_name :: "run_setting \<Rightarrow> string" where
  "setting_name (SetCpus _) = ''cpus''"
| "setting_name (SetNuma _) = ''numa''"
| "setting_name (SetStrategy _) = ''strategy''"
| "setting_name (SetPriority _) = ''priority''"
| "setting_name (SetMembind _) = ''membind''"

fun setting_text :: "run_setting \<Rightarrow> string" where
  "setting_text (SetCpus i) = itoa i"
| "setting_text (SetNuma i) = itoa i"
| "setting_text (SetStrategy s) = s"
| "setting_text (SetPriority s) = s"
| "setting_text (SetMembind b) = (if b then ''true'' else ''false'')"

fun write_setting :: "run_setting \<times> bool \<Rightarrow> string list" where
  "write_setting (SetMembind b, sep) = [''--membind='' @ setting_text (SetMembind b)]"
| "write_setting (x, sep) =
     (if sep then [''--'' @ setting_name x, setting_text x] else [''--'' @ setting_name x @ ''='' @ setting_text x])"

fun apply_setting :: "run_setting \<Rightarrow> run_flags \<Rightarrow> run_flags" where
  "apply_setting (SetCpus i) fl = fl\<lparr>rf_cpus := i\<rparr>"
| "apply_setting (SetNuma i) fl = fl\<lparr>rf_numa := i\<rparr>"
| "apply_setting (SetStrategy s) fl = fl\<lparr>rf_strategy := s\<rparr>"
| "apply_setting (SetPriority s) fl = fl\<lparr>rf_priority := s\<rparr>"
| "apply_setting (SetMembind b) fl = fl\<lparr>rf_membind := b\<rparr>"

fun setting_ok :: "run_setting \<Rightarrow> bool" where
  "setting_ok (SetCpus i) \<longleftrightarrow> int64 i"
| "setting_ok (SetNuma i) \<longleftrightarrow> int64 i"
| "setting_ok _ \<longleftrightarrow> True"

definition default_flags :: run_flags where
  "default_flags = \<lparr>rf_cpus = 0, rf_numa = -1, rf_strategy = ''same-numa'', rf_priority = ''normal'', rf_membind = True\<rparr>"

definition flags_set :: "run_flags \<Rightarrow> flag_set" where
  "flags_set fl = [''cpus'' \<mapsto> IntV (rf_cpus fl), ''numa'' \<mapsto> IntV (rf_numa fl), ''strategy'' \<mapsto> StringV (rf_strategy fl),
     ''priority'' \<mapsto> StringV (rf_priority fl), ''membind'' \<mapsto> BoolV (rf_membind fl)]"

fun setting_value :: "run_setting \<Rightarrow> flag_value" where
  "setting_value (SetCpus i) = IntV i"
| "setting_value (SetNuma i) = IntV i"
| "setting_value (SetStrategy s) = StringV s"
| "setting_value (SetPriority s) = StringV s"
| "setting_value (SetMembind b) = BoolV b"

lemma setting_name_ok: "flag_name (setting_name x)"
  by (cases x) (simp_all add: flag_name_def)

lemma flags_set_apply: "(flags_set fl)(setting_name x \<mapsto> setting_value x) = flags_set (apply_setting x fl)"
  by (cases x) (auto simp: flags_set_def fun_eq_iff)

lemma set_setting:
  assumes "setting_ok x"
  shows "\<exists>v. flags_set fl (setting_name x) = Some v \<and> set_flag dur v (setting_text x) = Some (setting_value x) \<and>
    is_bool_flag v = (\<exists>b. x = SetMembind b)"
  using assms by (cases x) (auto simp: flags_set_def set_flag_def is_bool_flag_def parse_int0_itoa parse_bool_def)

lemma parse_written:
  assumes "setting_ok x"
  shows "flag_parse dur (flags_set fl) (write_setting (x, sep) @ args) = flag_parse dur (flags_set (apply_setting x fl)) args"
proof -
  obtain v where v: "flags_set fl (setting_name x) = Some v" "set_flag dur v (setting_text x) = Some (setting_value x)"
    "is_bool_flag v = (\<exists>b. x = SetMembind b)" using set_setting [OF assms] by blast
  note eq = flag_eq [where n = "setting_name x" and fs = "flags_set fl", OF setting_name_ok v(1,2), of args, unfolded flags_set_apply]
  show ?thesis
  proof (cases "(\<exists>b. x = SetMembind b) \<or> \<not> sep")
    case True
    then have "write_setting (x, sep) = [''--'' @ setting_name x @ ''='' @ setting_text x]" by (cases x) auto
    with eq show ?thesis by (simp del: flag_parse.simps)
  next
    case False
    then have "write_setting (x, sep) = [''--'' @ setting_name x, setting_text x]" "\<not> is_bool_flag v" using v(3) by (cases x; auto)+
    with flag_arg [where n = "setting_name x" and fs = "flags_set fl" and args = args, OF setting_name_ok v(1) _ v(2), unfolded flags_set_apply] show ?thesis by (simp del: flag_parse.simps)
  qed
qed

lemma parse_all_written:
  assumes "\<forall>x \<in> set xs. setting_ok (fst x)"
  shows "flag_parse dur (flags_set fl) (concat (map write_setting xs)) = Inr (flags_set (fold apply_setting (map fst xs) fl), [])"
  using assms
proof (induction xs arbitrary: fl)
  case (Cons x xs)
  have "flag_parse dur (flags_set fl) (write_setting (fst x, snd x) @ concat (map write_setting xs)) =
      flag_parse dur (flags_set (apply_setting (fst x) fl)) (concat (map write_setting xs))"
    using Cons.prems by (intro parse_written) simp
  with Cons show ?case by (simp del: flag_parse.simps)
qed simp

lemma run_formals_default: "run_formals = flags_set default_flags"
  by (simp add: run_formals_def flags_set_def default_flags_def)

text \<open>
  A configuration as the user writes it: numbers of 64 bits, and no value \<^verbatim>\<open>--\<close> as an argument of its own, which \<^verbatim>\<open>runCmd\<close> would take for
  the end of the flags before it parses them.
\<close>

fun written_ok :: "run_setting \<times> bool \<Rightarrow> bool" where
  "written_ok (x, sep) \<longleftrightarrow> setting_ok x \<and> (sep \<longrightarrow> setting_text x \<noteq> ''--'')"

lemma written_no_dashes: "written_ok x \<Longrightarrow> ''--'' \<notin> set (write_setting x)"
  by (cases x rule: write_setting.cases) auto

lemma run_flags_read:
  assumes "\<forall>x \<in> set xs. written_ok x"
  shows "parse_run (concat (map write_setting xs)) = Inr (fold apply_setting (map fst xs) default_flags)"
proof -
  have "\<forall>x \<in> set xs. setting_ok (fst x)" using assms by auto
  from parse_all_written [OF this, of no_durations default_flags] show ?thesis
    by (simp add: parse_run_def run_formals_default flags_set_def int_flag_def string_flag_def bool_flag_def del: flag_parse.simps)
qed

text \<open>
  C21. Every configuration of \<^verbatim>\<open>nexusflow run\<close> can be written on the command line and is what the command then goes by: flags in any order,
  any number of times, with the value behind an equals sign or as the next argument (a value \<^verbatim>\<open>--\<close> only behind an equals sign),
  followed by \<^verbatim>\<open>--\<close> and the command, make the run that the defaults give when they are updated by the settings in the order
  written, so that the last one wins. The numbers are those of 64 bits.
\<close>

theorem run_flags_roundtrip:
  assumes "\<forall>x \<in> set xs. written_ok x" and "cmd \<noteq> []"
  shows "parse_run (concat (map write_setting xs)) = Inr (fold apply_setting (map fst xs) default_flags) \<and>
    runCmd discovered lookPath sys (concat (map write_setting xs) @ ''--'' # cmd) =
      run_with discovered lookPath sys (fold apply_setting (map fst xs) default_flags) cmd"
proof -
  have "''--'' \<notin> set (concat (map write_setting xs))" using assms(1) written_no_dashes by fastforce
  then have "split_dashes (concat (map write_setting xs) @ ''--'' # cmd) = Some (concat (map write_setting xs), cmd)"
    using assms(2) by (simp add: split_dashes_Some)
  with run_flags_read [OF assms(1)] show ?thesis by (simp add: runCmd_def)
qed

theorem run_flags_roundtrip_witness:
  "runCmd (Inr two_node_machine :: unit + Topology) (\<lambda>_. Inr ''/bin/make'' :: unit + string) (\<lambda>_. None) [''--cpus=8'', ''--priority'', ''high'', ''--cpus'', ''-3'', ''--membind=false'', ''--strategy=--'', ''--'', ''make''] =
     run_with (Inr two_node_machine :: unit + Topology) (\<lambda>_. Inr ''/bin/make'' :: unit + string) (\<lambda>_. None) \<lparr>rf_cpus = -3, rf_numa = -1, rf_strategy = ''--'', rf_priority = ''high'', rf_membind = False\<rparr> [''make'']"
proof -
  let ?xs = "[(SetCpus 8, False), (SetPriority ''high'', True), (SetCpus (-3), True), (SetMembind False, True), (SetStrategy ''--'', False)]"
  have i: "itoa 8 = ''8''" "itoa (-3) = ''-3''" by code_simp+
  have "\<forall>x \<in> set ?xs. written_ok x" by (simp add: go_int i)
  from run_flags_roundtrip [OF this, of "[''make'']" "Inr two_node_machine :: unit + Topology" "\<lambda>_. Inr ''/bin/make'' :: unit + string" "\<lambda>_. None"]
  show ?thesis by (simp add: i default_flags_def)
qed

section \<open>Samples of perf counters\<close>

text \<open>
  The sample opens its counter with process -1 and CPU -1, a combination for which \<^verbatim>\<open>perf_event_open\<close> is documented to return
  an error: the command never prints a value.
\<close>

theorem perf_sample_fails:
  assumes "\<forall>attr. \<exists>e. pk_open k attr (-1) (-1) = Inl e"
  shows "snd (perfSampleCmd k hw args) = ([], [])"
proof -
  have "\<exists>e. perf_Open k hw kind (-1) (-1) = (Inl e, [])" for kind
    using assms [rule_format, of "\<lparr>pa_Type = hw, pa_Config = kind\<rparr>"] by (auto simp: perf_Open_def Let_def)
  then show ?thesis by (auto simp: perfSampleCmd_def Let_def split: sum.splits prod.splits) (metis Pair_inject sum.distinct(1))+
qed

theorem perf_sample_fails_witness:
  "snd (perfSampleCmd \<lparr>pk_open = (\<lambda>_ _ _. Inl ''invalid argument''), pk_ioctl = (\<lambda>_ _. None), pk_read = (\<lambda>_. Inr []), pk_close = (\<lambda>_. None)\<rparr> 0
     [''--kind'', ''instructions'']) = ([], [])"
  by (rule perf_sample_fails) simp

text \<open>Whatever the kernel answers, a sample uses no descriptor before it is open, and a sample that succeeds closes it.\<close>

lemma perf_sample_descriptors:
  assumes "perfSampleCmd k hw args = (code, out, es)"
  shows "\<exists>S. fds_run {} (perf_fds es) = Some S \<and> (code = 0 \<longrightarrow> out \<noteq> [] \<longrightarrow> S = {})"
proof -
  have win: "fds_run {ct_fd c} (perf_fds es1) \<noteq> None \<and> (out1 \<noteq> [] \<longrightarrow> fds_run {ct_fd c} (perf_fds es1) = Some {})"
    if "perf_window k ms kd c = (code1, out1, es1)" for ms kd c code1 out1 es1
    using that ReadUint64_event [of k c]
    by (auto simp: perf_window_def perf_ops Let_def split: if_splits prod.splits option.splits)
  have "es = [] \<or> (\<exists>a c es1 out1 code1 ms kd. es = PerfOpened a (-1) (-1) (ct_fd c) # es1 \<and> perf_window k ms kd c = (code1, out, es1))"
    using assms by (auto simp: perfSampleCmd_def perf_Open_def Let_def split: sum.splits prod.splits if_splits)
  then show ?thesis using win by fastforce
qed

section \<open>What the dispatch reaches\<close>

lemma two_words_cases: "two_words sub word rest act = UsageError sub \<or> two_words sub word rest act = act (tl rest)"
  by (simp add: two_words_def)

text \<open>Only a first argument that starts with a dash, other than a request for help, looks like automation flags.\<close>

lemma looksLike_dash: "looksLikeKubermetricsArgv (a # as) \<Longrightarrow> has_prefix a ''-'' \<and> a \<noteq> ''-h'' \<and> a \<noteq> ''--help''"
  unfolding looksLikeKubermetricsArgv_def list.case by presburger

end
