(* ===== verification/Sdk.thy ===== *)
theory Sdk
  imports Discover Hwloc Snapshot Dag_Run
begin

text \<open>
  The Go SDK (pkg/nexusflow/sdk.go): one name for the discovery, the JSON and XML import, and the pipelines of the packages below. Each function
  forwards; what a user may rely on are the compositions at the end.
\<close>

section \<open>Model\<close>

definition DiscoverTopology ::
  "int list \<Rightarrow> file_reader \<Rightarrow> string + (string \<times> bool) list \<Rightarrow> (discover_error + Topology) option" where
  "DiscoverTopology visit read nodeDir = Discover visit read nodeDir"

definition DiscoverTopologyHWLoc :: "(string list \<Rightarrow> string + string) \<Rightarrow> (string \<Rightarrow> string + xmlObj list) \<Rightarrow> hwloc_error + Topology" where
  "DiscoverTopologyHWLoc run decode = DiscoverCLI run decode"

definition TopologyJSON ::
  "(Snapshot option \<Rightarrow> string \<Rightarrow> string \<Rightarrow> string + 'b) \<Rightarrow> Topology option \<Rightarrow> string \<Rightarrow> string + 'b" where
  "TopologyJSON marshalIndent t source = MarshalTopologyJSONIndent marshalIndent t [] ''  '' source"

definition TopologyFromSnapshotJSON :: "('b \<Rightarrow> string + Snapshot) \<Rightarrow> 'b \<Rightarrow> snapshot_error + Topology" where
  "TopologyFromSnapshotJSON unmarshal data = UnmarshalTopologyJSON unmarshal data"

definition TopologyFromHWLocXML :: "(string \<Rightarrow> string + xmlObj list) \<Rightarrow> string \<Rightarrow> hwloc_error + Topology" where
  "TopologyFromHWLocXML decode xml = TopologyFromXML decode xml"

definition LoadDAGYAML :: "(string \<Rightarrow> 'e + string) \<Rightarrow> (string \<Rightarrow> 'e + Pipeline) \<Rightarrow> string \<Rightarrow> 'e load_error + Pipeline" where
  "LoadDAGYAML readFile yamlUnmarshal path = LoadFile readFile yamlUnmarshal path"

text \<open>The runner has no report file.\<close>

definition RunDAG ::
  "'e runner_env \<Rightarrow> string list \<Rightarrow> Topology option \<Rightarrow> Pipeline \<Rightarrow>
   'e runner_error option \<times> (Node \<times> string list) list \<times> (string \<times> string) list" where
  "RunDAG env visit topo p = Runner_Run env visit topo [] p"

section \<open>Compositions\<close>

text \<open>
  A topology exported as indented JSON and imported again is the same one, provided the JSON library reads back
  what it wrote; only a topology without CPUs and nodes is refused.
\<close>

theorem sdk_json_roundtrip:
  assumes "\<forall>s b. marshalIndent (Some s) [] ''  '' = Inr b \<longrightarrow> unmarshal b = Inr s"
    and "TopologyJSON marshalIndent (Some t) source = Inr b"
  shows "TopologyFromSnapshotJSON unmarshal b = (if topo_CPUs t = [] \<and> topo_NUMANodes t = [] then Inl EmptySnapshot else Inr t)"
proof -
  let ?marshal = "\<lambda>s. marshalIndent s [] ''  ''"
  have law: "\<forall>s b. ?marshal (Some s) = Inr b \<longrightarrow> sn_Source s = source \<longrightarrow> unmarshal b = Inr s" using assms(1) by blast
  have "MarshalTopologyJSON ?marshal (Some t) source = Inr b"
    using assms(2) by (simp add: TopologyJSON_def MarshalTopologyJSONIndent_def MarshalTopologyJSON_def)
  from snapshot_roundtrip [OF law this] show ?thesis by (simp add: TopologyFromSnapshotJSON_def)
qed

theorem sdk_json_roundtrip_witness:
  "TopologyFromSnapshotJSON plain_unmarshal (ToSnapshot (Some \<lparr>topo_CPUs = [], topo_NUMANodes = [\<lparr>node_ID = 0, node_CPUs = [1], Distance = []\<rparr>]\<rparr>) ''sysfs'') =
     Inr \<lparr>topo_CPUs = [], topo_NUMANodes = [\<lparr>node_ID = 0, node_CPUs = [1], Distance = []\<rparr>]\<rparr>"
proof -
  have law: "\<forall>s b. (\<lambda>s _ _. Inr s) (Some s) [] ''  '' = (Inr b :: string + Snapshot option) \<longrightarrow> plain_unmarshal b = Inr s"
    by (auto simp: plain_unmarshal_def)
  show ?thesis
    using sdk_json_roundtrip [OF law, of "\<lparr>topo_CPUs = [], topo_NUMANodes = [\<lparr>node_ID = 0, node_CPUs = [1], Distance = []\<rparr>]\<rparr>"]
    by (simp add: TopologyJSON_def MarshalTopologyJSONIndent_def)
qed

text \<open>A run through the SDK writes no file.\<close>

lemma run_nodes_silent: "snd (snd (run_nodes env t [] name timings log ns)) = []"
  by (induction ns arbitrary: timings log) (auto simp: WritePrometheusTextFile_def Let_def split: prod.splits option.splits sum.splits cmd_result.splits)

lemma sdk_run_writes_nothing: "snd (snd (RunDAG env visit topo p)) = []"
  by (auto simp: RunDAG_def Runner_Run_def run_nodes_silent split: option.splits sum.splits)

end
