(* ===== verification/Supervisor.thy ===== *)
theory Supervisor
  imports Cli
begin

text \<open>
  The supervisor (cmd/nexusflow/supervisor.go), which the binary runs when it is started without arguments: an optional cluster deployment, the
  Plasma coordinator in the background, and the dashboard.

  The result is the exit code (\<open>None\<close> while the program is in a call that has not returned) and what was done, in order. \<open>KubeDeploy\<close> stands for the call of
  \<^verbatim>\<open>kubermetrics.Main\<close>, of which nothing is modelled; see the header of the development. Environment, files, clock and
  the other packages are the argument \<open>sup_env\<close>.
\<close>

section \<open>Model: reading the environment\<close>

text \<open>\<^verbatim>\<open>os.Getenv\<close> gives the empty string for a variable that is not set. \<open>dur\<close> is \<^verbatim>\<open>time.ParseDuration\<close>.\<close>

definition envOr :: "(string \<Rightarrow> string) \<Rightarrow> string \<Rightarrow> string \<Rightarrow> string" where
  "envOr getenv k d = (let v = getenv k in if v \<noteq> [] then v else d)"

definition envInt64 :: "(string \<Rightarrow> string) \<Rightarrow> string \<Rightarrow> int \<Rightarrow> int" where
  "envInt64 getenv k d =
     (let v = getenv k in
      if v \<noteq> [] then (case atoi v of (n, None) \<Rightarrow> n | (_, Some _) \<Rightarrow> d) else d)"

definition envDuration :: "(string \<Rightarrow> int option) \<Rightarrow> (string \<Rightarrow> string) \<Rightarrow> string \<Rightarrow> int \<Rightarrow> int" where
  "envDuration dur getenv k d =
     (let v = getenv k in
      if v \<noteq> [] then (case dur v of Some n \<Rightarrow> n | None \<Rightarrow> d) else d)"

section \<open>Model: waiting for the socket\<close>

text \<open>
  A turn of the loop has the time and what \<^verbatim>\<open>os.Stat\<close> answers: an error or whether the file is a socket. \<open>None\<close> means that the
  loop is still waiting after these turns.
\<close>

fun waitSocket :: "int \<Rightarrow> (int \<times> (string + bool)) list \<Rightarrow> bool option" where
  "waitSocket deadline [] = None"
| "waitSocket deadline ((now, st) # turns) =
     (if now < deadline
      then (if st = Inr True then Some True else waitSocket deadline turns)
      else Some False)"

section \<open>Model: runSupervisor\<close>

datatype sup_action =
    KubeDeploy
  | RemoveFile string
  | StartPlasma Config Topology
  | ServeDashboard ServerConfig

record sup_env =
  se_getenv :: "string \<Rightarrow> string"
  se_dur :: "string \<Rightarrow> int option"
  se_stat :: "string \<Rightarrow> string option"
  se_deploy_returns :: bool
  se_topology :: "topo_error + Topology \<times> string"
  se_now :: int
  se_turns :: "(int \<times> (string + bool)) list"
  se_executable :: "string + string"
  se_serve :: "ServerConfig \<Rightarrow> string option option"

definition skip_deploy :: "(string \<Rightarrow> string) \<Rightarrow> bool" where
  "skip_deploy getenv = (to_lower (trim_space (getenv ''SKIP_KUBE_DEPLOY'')) \<in> {''1'', ''true'', ''yes'', ''on''})"

definition kube_path :: "(string \<Rightarrow> string) \<Rightarrow> string" where
  "kube_path getenv = (if getenv ''KUBECONFIG'' = [] then ''/kube/config'' else getenv ''KUBECONFIG'')"

definition sup_deploy :: "sup_env \<Rightarrow> sup_action list" where
  "sup_deploy env =
     (if skip_deploy (se_getenv env) then []
      else if se_stat env (kube_path (se_getenv env)) \<noteq> None then []
      else [KubeDeploy])"

definition sup_config :: "sup_env \<Rightarrow> Config" where
  "sup_config env =
     \<lparr>SocketPath = envOr (se_getenv env) ''NEXUSFLOW_PLASMA_SOCK'' ''/run/plasma.sock'',
      PipelinePath = envOr (se_getenv env) ''NEXUSFLOW_PLASMA_FILE'' ''/demo/plasma.yaml'',
      ShmName = envOr (se_getenv env) ''NEXUSFLOW_PLASMA_SHM_NAME'' ''dockdemo'',
      ShmSize = envInt64 (se_getenv env) ''NEXUSFLOW_PLASMA_SHM_SIZE'' 65536,
      IdleExit = envDuration (se_dur env) (se_getenv env) ''NEXUSFLOW_PLASMA_IDLE_EXIT'' (300 * 1000000000)\<rparr>"

text \<open>The last part, once the coordinator is started and its socket was waited for.\<close>

definition sup_dashboard :: "sup_env \<Rightarrow> int option \<times> sup_action list" where
  "sup_dashboard env =
     (case se_executable env of
        Inl _ \<Rightarrow> (Some 1, [])
      | Inr exe \<Rightarrow>
          (let cfg = \<lparr>sc_Addr = envOr (se_getenv env) ''NEXUSFLOW_DASHBOARD_LISTEN'' ''0.0.0.0:9842'', NexusflowBinary = exe,
                      TLSCertFile = [], TLSKeyFile = [], AuthToken = [], AllowedCIDRs = []\<rparr> in
           case se_serve env cfg of
             None \<Rightarrow> (None, [ServeDashboard cfg])
           | Some (Some _) \<Rightarrow> (Some 1, [ServeDashboard cfg])
           | Some None \<Rightarrow> (Some 0, [ServeDashboard cfg])))"

definition sup_services :: "sup_env \<Rightarrow> int option \<times> sup_action list" where
  "sup_services env =
     (let cfg = sup_config env; rm = [RemoveFile (SocketPath cfg)] in
      case se_topology env of
        Inl _ \<Rightarrow> (case sup_dashboard env of (code, acts) \<Rightarrow> (code, rm @ acts))
      | Inr (t, _) \<Rightarrow>
          (case waitSocket (se_now env + 10 * 1000000000) (se_turns env) of
             None \<Rightarrow> (None, rm @ [StartPlasma cfg t])
           | Some _ \<Rightarrow> (case sup_dashboard env of (code, acts) \<Rightarrow> (code, rm @ [StartPlasma cfg t] @ acts))))"

definition runSupervisor :: "sup_env \<Rightarrow> int option \<times> sup_action list" where
  "runSupervisor env =
     (let d = sup_deploy env in
      if d \<noteq> [] \<and> \<not> se_deploy_returns env then (None, d)
      else (case sup_services env of (code, acts) \<Rightarrow> (code, d @ acts)))"

section \<open>Waiting ends\<close>

lemma waitSocket_ends: "t \<in> set turns \<Longrightarrow> deadline \<le> fst t \<Longrightarrow> waitSocket deadline turns \<noteq> None"
  by (induction turns) auto

lemma waitSocket_ready: "waitSocket deadline turns = Some True \<Longrightarrow> \<exists>t \<in> set turns. fst t < deadline \<and> snd t = Inr True"
  by (induction turns) (auto split: if_splits)

section \<open>What the supervisor does\<close>

lemma sup_dashboard_acts: "sup_dashboard env = (code, acts) \<Longrightarrow> acts = [] \<or> (\<exists>cfg. acts = [ServeDashboard cfg])"
  by (auto simp: sup_dashboard_def Let_def split: sum.splits option.splits)

lemma sup_services_no_deploy: "sup_services env = (code, acts) \<Longrightarrow> KubeDeploy \<notin> set acts"
  using sup_dashboard_acts [of env]
  by (cases "sup_dashboard env") (fastforce simp: sup_services_def Let_def split: sum.splits option.splits prod.splits)

text \<open>
  When the default entry point runs the cluster automation: exactly when \<^verbatim>\<open>SKIP_KUBE_DEPLOY\<close> is not one of 1, true, yes
  and on (blanks and case aside) and a file exists at the path of \<^verbatim>\<open>KUBECONFIG\<close>, or at /kube/config when that is
  not set. It then runs once, before everything else; without it nothing of the supervisor starts it.
\<close>

theorem supervisor_deploys_iff:
  assumes "runSupervisor env = (code, acts)"
  shows "(KubeDeploy \<in> set acts \<longleftrightarrow>
      to_lower (trim_space (se_getenv env ''SKIP_KUBE_DEPLOY'')) \<notin> {''1'', ''true'', ''yes'', ''on''} \<and>
      se_stat env (if se_getenv env ''KUBECONFIG'' = [] then ''/kube/config'' else se_getenv env ''KUBECONFIG'') = None) \<and>
    (KubeDeploy \<in> set acts \<longrightarrow> hd acts = KubeDeploy \<and> KubeDeploy \<notin> set (tl acts))"
proof -
  obtain code1 acts1 where s: "sup_services env = (code1, acts1)" by fastforce
  have d: "sup_deploy env = (if skip_deploy (se_getenv env) \<or> se_stat env (kube_path (se_getenv env)) \<noteq> None then [] else [KubeDeploy])"
    by (simp add: sup_deploy_def)
  have "acts = sup_deploy env \<or> acts = sup_deploy env @ acts1"
    using assms s by (auto simp: runSupervisor_def Let_def split: if_splits)
  then show ?thesis
    using sup_services_no_deploy [OF s] d by (auto simp: skip_deploy_def kube_path_def split: if_splits)
qed

definition demo_sup :: sup_env where
  "demo_sup = \<lparr>se_getenv = (\<lambda>k. if k = ''SKIP_KUBE_DEPLOY'' then ''0'' else []), se_dur = (\<lambda>_. None), se_stat = (\<lambda>p. if p = ''/kube/config'' then None else Some ''ENOENT''),
     se_deploy_returns = True, se_topology = Inl (SysfsError NoCPUs), se_now = 0, se_turns = [], se_executable = Inr ''/usr/bin/nexusflow'',
     se_serve = (\<lambda>_. None)\<rparr>"

theorem supervisor_deploys_iff_witness: "hd (snd (runSupervisor demo_sup)) = KubeDeploy"
proof -
  obtain code acts where r: "runSupervisor demo_sup = (code, acts)" by fastforce
  have "to_lower (trim_space ''0'') \<notin> {''1'', ''true'', ''yes'', ''on''}" by code_simp
  then show ?thesis using supervisor_deploys_iff [OF r] r by (simp add: demo_sup_def)
qed

text \<open>The dashboard of the supervisor, whatever the environment: its address and program vary, its protection is always empty.\<close>

lemma supervisor_dashboard_config:
  assumes "runSupervisor env = (code, acts)" and "ServeDashboard cfg \<in> set acts"
  shows "AuthToken cfg = [] \<and> AllowedCIDRs cfg = [] \<and> TLSCertFile cfg = [] \<and> se_executable env = Inr (NexusflowBinary cfg) \<and>
    sc_Addr cfg = (if se_getenv env ''NEXUSFLOW_DASHBOARD_LISTEN'' = [] then ''0.0.0.0:9842'' else se_getenv env ''NEXUSFLOW_DASHBOARD_LISTEN'')"
proof -
  have dash: "AuthToken cfg = [] \<and> AllowedCIDRs cfg = [] \<and> TLSCertFile cfg = [] \<and> se_executable env = Inr (NexusflowBinary cfg) \<and>
      sc_Addr cfg = envOr (se_getenv env) ''NEXUSFLOW_DASHBOARD_LISTEN'' ''0.0.0.0:9842''" if "ServeDashboard cfg \<in> set (snd (sup_dashboard env))"
    using that by (auto simp: sup_dashboard_def Let_def split: sum.splits option.splits)
  have "ServeDashboard cfg \<in> set (snd (sup_dashboard env))"
    using assms by (auto simp: runSupervisor_def sup_services_def sup_deploy_def Let_def split: if_splits sum.splits option.splits prod.splits)
  with dash show ?thesis by (simp add: envOr_def Let_def)
qed

end
