(* ===== verification/Stubs.thy ===== *)
theory Stubs
  imports Supervisor
begin

text \<open>
  The builds for other systems than Linux: the files named \<^verbatim>\<open>..._stub.go\<close> take the place of the packages modelled in the other
  theories. Most operations return a fixed error. The section on the commands shows what is left of the command line: it can render a
  topology that the hwloc tools deliver, and it starts no process.
\<close>

section \<open>Model\<close>

text \<open>pkg/topology/discover_stub.go; the message says that only Linux is supported.\<close>

definition Discover_stub :: "discover_error + Topology" where
  "Discover_stub = Inl LinuxOnly"

text \<open>pkg/affinity/run_stub.go. \<^verbatim>\<open>Command_stub\<close> is in \<open>Affinity\<close>. Neither makes a system call.\<close>

definition Run_stub :: "int list \<Rightarrow> string list \<Rightarrow> RunOpts \<Rightarrow> string option \<times> sys_call list" where
  "Run_stub cpuIDs argv opts = (Some ''nexusflow run: CPU pinning only supported on Linux'', [])"

text \<open>pkg/daemon/grpc_stub.go, pkg/hugepages/hugepages_stub.go and pkg/plasma/run_stub.go.\<close>

definition Serve_stub :: "string \<Rightarrow> string \<Rightarrow> string option" where
  "Serve_stub addr cgroupRoot = Some ''nexusflow daemon: Linux only (got stub)''"

definition SetNrHugepages_stub :: "string \<Rightarrow> int \<Rightarrow> string + int" where
  "SetNrHugepages_stub pagesize n = Inl ''hugepages: Linux only''"

definition plasma_Run_stub :: "Config \<Rightarrow> Topology \<Rightarrow> string option" where
  "plasma_Run_stub cfg topo = Some ''plasma: Linux only (got stub build)''"

text \<open>pkg/perf/perf_stub.go: a counter without content. What cannot fail there is the missing error.\<close>

definition perf_Open_stub :: "64 word \<Rightarrow> int \<Rightarrow> int \<Rightarrow> string + unit" where
  "perf_Open_stub kind pid cpu = Inl ''perf: only supported on Linux''"

definition Counter_control_stub :: "unit \<Rightarrow> string option" where
  "Counter_control_stub c = None"

definition ReadUint64_stub :: "unit \<Rightarrow> 64 word \<times> string option" where
  "ReadUint64_stub c = (0, Some ''perf: stub'')"

definition Counter_FD_stub :: "unit \<Rightarrow> int" where
  "Counter_FD_stub c = -1"

text \<open>pkg/shm/shm_stub.go: a segment without content.\<close>

definition shm_Create_stub :: "int \<Rightarrow> string + unit" where
  "shm_Create_stub sz = Inl ''shm: only supported on Linux''"

definition CreateNamed_stub :: "string \<Rightarrow> int \<Rightarrow> string + unit" where
  "CreateNamed_stub name sz = Inl ''shm: only supported on Linux''"

definition OpenPath_stub :: "string \<Rightarrow> int \<Rightarrow> string + unit" where
  "OpenPath_stub path sz = Inl ''shm: only supported on Linux''"

definition Segment_stub :: "unit \<Rightarrow> string \<times> int \<times> 8 word list \<times> string option \<times> string option" where
  "Segment_stub s = ([], 0, [], None, None)"

section \<open>The commands on other systems\<close>

text \<open>The snapshot a command gets: in mode sysfs none, else the one of the hwloc tools, with its name.\<close>

lemma discover_stub_modes:
  "discoverTopology Discover_stub hw mode =
     (if mode = ''sysfs'' then Inl (SysfsError LinuxOnly)
      else (case hw of
        Inl e \<Rightarrow> Inl (if mode = ''hwloc'' then HwlocError e else AutoError LinuxOnly e)
      | Inr t \<Rightarrow> Inr (t, if mode = ''hwloc'' then ''hwloc-xml'' else ''hwloc-xml(fallback)'')))"
  by (auto simp: discoverTopology_def Discover_stub_def split: sum.split)

lemma plasma_not_started:
  assumes "se_topology env = Inl e" and "runSupervisor env = (code, acts)"
  shows "StartPlasma cfg t \<notin> set acts"
proof -
  have d: "StartPlasma cfg t \<notin> set (sup_deploy env)" by (simp add: sup_deploy_def)
  have "StartPlasma cfg t \<notin> set (snd (sup_dashboard env))"
    by (auto simp: sup_dashboard_def Let_def split: sum.split option.split)
  with assms d show ?thesis
    by (auto simp: runSupervisor_def sup_services_def Let_def split: if_splits prod.splits)
qed

text \<open>
  On other systems nothing pins or starts a process by itself: \<^verbatim>\<open>run\<close> makes no system call, \<^verbatim>\<open>dag run\<close> runs no node and writes no
  report, and neither \<^verbatim>\<open>plasma run\<close> nor the supervisor starts the coordinator. The topology commands still work where the
  hwloc tools do, unless sysfs is asked for.
\<close>

theorem other_systems_inert:
  "snd (runCmd Discover_stub lookPath sys args) = [] \<and>
   snd (dagRunCmd readFile yaml (discoverTopology Discover_stub hw ''sysfs'') env visit args) = ([], []) \<and>
   snd (plasmaRunCmd dur (discoverTopology Discover_stub hw) run args) = None \<and>
   (\<forall>senv cfg t. se_topology senv = discoverTopology Discover_stub hw ''sysfs'' \<longrightarrow> StartPlasma cfg t \<notin> set (snd (runSupervisor senv))) \<and>
   (\<forall>t. hw = Inr t \<longrightarrow> topologyCmd (discoverTopology Discover_stub hw) hintsJSON jsonIndent [] = (0, FormatASCII t))"
proof (intro conjI allI impI)
  show "snd (runCmd Discover_stub lookPath sys args) = []"
    by (simp add: runCmd_def run_with_def Discover_stub_def split: option.split sum.split)
  show "snd (dagRunCmd readFile yaml (discoverTopology Discover_stub hw ''sysfs'') env visit args) = ([], [])"
    by (auto simp: dagRunCmd_def discover_stub_modes Let_def split: sum.split)
  show "snd (plasmaRunCmd dur (discoverTopology Discover_stub hw) run args) = None"
    by (auto simp: plasmaRunCmd_def discover_stub_modes Let_def split: sum.split)
  show "StartPlasma cfg t \<notin> set (snd (runSupervisor senv))" if "se_topology senv = discoverTopology Discover_stub hw ''sysfs''" for senv cfg t
    using plasma_not_started [of senv "SysfsError LinuxOnly" "fst (runSupervisor senv)" "snd (runSupervisor senv)"] that
    by (simp add: discover_stub_modes)
  show "topologyCmd (discoverTopology Discover_stub hw) hintsJSON jsonIndent [] = (0, FormatASCII t)" if "hw = Inr t" for t
    using that by (simp add: topologyCmd_def topology_formals_def discover_stub_modes string_flag_def bool_flag_def)
qed

end
