(* ===== verification/Spec2Isabelle.thy ===== *)
theory Spec2Isabelle
  imports Dag_Run Plasma_Run Plasma_Frame Plasma_Spec Hints Snapshot Discover Hwloc Dashboard Daemon_Watch Descriptors Cli Sdk Supervisor Stubs
begin

text \<open>
  \<^bold>\<open>NexusFlow\<close> is a Go program that pins work to CPUs: it reads the topology of a machine, chooses CPUs for commands and
  pipelines, runs them, coordinates clients over a socket with shared memory, manages control-group cells
  through a gRPC daemon, and offers a web dashboard. This development models its Go code (paths below are
  relative to src/nexusflow) and proves what the parts promise. This theory imports all others and
  holds the properties that span components.

  \<^bold>\<open>Parts, theories and correspondence\<close>

  \<^item> \<^verbatim>\<open>Go_Prelude\<close>, \<^verbatim>\<open>Go_Path\<close>, \<^verbatim>\<open>Go_Flag\<close>, \<^verbatim>\<open>Go_Net\<close>: what the program uses of Go itself: 64-bit integers, numbers and
    strings as bytes, sorting, path/filepath, command-line flags, addresses and networks. The collection \<open>go_int\<close>
    holds the integer bounds.
  \<^item> \<^verbatim>\<open>Cpulist\<close> (pkg/topology/cpulist.go, pkg/affinity/cpuset.go): the Linux CPU list parser and both printers. The
    printers agree, parsing undoes printing (locale \<open>cpulist_codec\<close>), the parser returns except on a
    range that ends at the largest integer, where it runs forever.
  \<^item> \<^verbatim>\<open>Topology\<close> (types.go, placement.go): snapshots as records and \<^verbatim>\<open>SelectCPUs\<close>, with its contract as the locale
    \<open>placement\<close>: known CPUs, no duplicates, exactly as many as asked for, on one NUMA node when one fits.
  \<^item> \<^verbatim>\<open>Discover\<close> (discover_linux.go), \<^verbatim>\<open>Hwloc\<close> (pkg/hwloc/parse.go): the two ways to a snapshot; both give the
    well-formed snapshots placement assumes.
  \<^item> \<^verbatim>\<open>Hints\<close> (hints.go), \<^verbatim>\<open>Snapshot\<close> (format.go, json.go): renderings. The hints account for every CPU and core, a shell
    reads back exactly the values, a reader of the printed tree finds every CPU once, in its place and in order, JSON round trips.
  \<^item> \<^verbatim>\<open>Dag\<close>, \<^verbatim>\<open>Dag_Run\<close> (pkg/dag): pipelines, validation, Kahn's algorithm (locale \<open>topo_sorter\<close>) and the runner: every
    dependency first, every node once, failures stop the run and are reported.
  \<^item> \<^verbatim>\<open>Affinity\<close> (pkg/affinity): taskset command lines and self-pinning exec, with the 1024 bits that a \<^verbatim>\<open>unix.CPUSet\<close> of
    golang.org/x/sys has: its \<^verbatim>\<open>Set\<close> ignores CPUs from 1024 on, and the theorems on pinning are stated with that mask.
  \<^item> \<^verbatim>\<open>Shm\<close> (pkg/shm): named and random segments over a model of files and mappings (locale \<open>segment_maker\<close>).
  \<^item> \<^verbatim>\<open>Plasma_Graph\<close>, \<^verbatim>\<open>Plasma_Coordinator\<close>, \<^verbatim>\<open>Plasma_Run\<close>, \<^verbatim>\<open>Plasma_Frame\<close> (pkg/plasma): graph merging, the coordinator as a
    transition system of its scheduling loop, connection handlers and clock, start and clean-up, and
    the wire format. Every critical section, channel operation and system call is a step of its own,
    so the theorems hold for every interleaving: no vertex runs twice or before its dependencies, no
    wake-up is lost, a placeable acyclic pipeline is run completely.
  \<^item> \<^verbatim>\<open>Systems\<close>: the contracts of a transition system, as locales: an inductive invariant, and on top of it the simulation of
    an abstract system (\<open>simulation\<close>). Both the coordinator and the daemon are interpreted in it.
  \<^item> \<^verbatim>\<open>Plasma_Spec\<close>: an abstract scheduler and the proof that the coordinator refines it (interpretation \<open>coord\<close>).
  \<^item> \<^verbatim>\<open>Fds\<close>, \<^verbatim>\<open>Descriptors\<close>: the discipline of file descriptors, also for concurrent threads, and the events on descriptors of
    running a command in a cell (grpc_linux.go) and of handing one to a client (coordinator_linux.go): nothing leaks.
  \<^item> \<^verbatim>\<open>Cgv2\<close> (pkg/cgv2), \<^verbatim>\<open>Host\<close> (pkg/evict, pkg/hugepages), \<^verbatim>\<open>Perf\<close> (pkg/perf): control groups, eviction, huge pages, and
    counters with every call on a descriptor recorded.
  \<^item> \<^verbatim>\<open>Daemon\<close> (pkg/daemon): every gRPC request; the table of cells refines a map from ids to CPU sets (locale
    \<open>cell_service\<close>), its invariant and the refinement hold when requests interleave (interpretation \<open>table\<close>).
  \<^item> \<^verbatim>\<open>Daemon_Watch\<close>: watching the cache of a cell leaks no descriptor, and never delivers a sample.
  \<^item> \<^verbatim>\<open>Dashboard\<close> (pkg/dashboard): validation, token and address checks and their composition; a command is started only
    for a request that passes all of them, and the address filter is exact for IPv4 prefixes.
  \<^item> \<^verbatim>\<open>Cli\<close> (cmd/nexusflow): the dispatch, the flags of each subcommand and what it does, which composes the packages
    above; the run that follows from flags as they were written is that of their settings.
  \<^item> \<^verbatim>\<open>Sdk\<close> (pkg/nexusflow/sdk.go): the forwarding functions and the JSON round trip through them.
  \<^item> \<^verbatim>\<open>Supervisor\<close> (supervisor.go): the default entry point: what it reads from the environment, starts and serves, and when
    it starts the cluster automation.
  \<^item> \<^verbatim>\<open>Stubs\<close>: the builds for other systems, in which nothing starts or pins a process.
  \<^item> This theory: \<^verbatim>\<open>nexusflow run\<close> from the files of sysfs to the system calls, and what requests to the dashboard can
    reach, in general and under the supervisor.

  \<^bold>\<open>Conventions.\<close> A struct is a record, an error return is \<open>Inl\<close>, a loop that may not end returns an option with \<open>None\<close> for
  divergence. The operating system and other libraries (files, processes, clock, JSON, YAML, XML, gRPC,
  time.ParseDuration) are arguments whose answers are arbitrary; a theorem that relies on a documented answer has it as
  a hypothesis, and its witness gives a concrete instance. Map iteration orders are arguments too.

  \<^bold>\<open>Bounds.\<close> Integers are unbounded where the source cannot leave 64 bits and wrapped (\<open>wrap64\<close>, \<open>wrap32\<close>) where it can;
  counters and ioctl numbers are words. No fuel is used: recursion is structural or measured, the one
  loop that may diverge is a partial function, and the liveness theorem of the coordinator gives
  its own bound of eight steps per vertex and three to come to rest.

  \<^bold>\<open>What the proofs found.\<close> Some theorems show behaviour the code cannot intend: a CPU list that hangs the parser, a
  branch that is acknowledged but never run, a cyclic pipeline that counts as success, a start-up
  that deletes a file outside its directory, cells that share or lose their control group, CPUs from 1024 on that are
  left out of the affinity without an error, a command that runs outside its cell unnoticed, hwloc 2 exports that lose their NUMA nodes, perf descriptors that can
  never be handed out, a perf sample and a watch of the cache that can never succeed, a documented subcommand that does not exist, and a
  default entry point that serves command execution to everyone.

  \<^bold>\<open>Not modelled.\<close> Generated protobuf code; embedded pages, scripts and the Python SDK; the text of
  messages on the standard error. The package
  pkg/kubermetrics is left out on purpose: \<^verbatim>\<open>Supervisor\<close> and \<^verbatim>\<open>Cli\<close> only say when it is started. Behind
  the name of a metrics component the package deploys workloads whose obfuscated presets decode to a
  Monero miner (coin and algorithm names, a pool address, a fixed wallet, binaries fetched from a fixed
  address and named like system services). Nothing proved here is a statement about that
  package, and none of it should be read as assurance that running the binary with its defaults is safe: without
  arguments it starts the supervisor (\<open>main_dispatch\<close>), which runs this deployment whenever a
  kubeconfig is at hand and \<^verbatim>\<open>SKIP_KUBE_DEPLOY\<close> is not set (\<open>supervisor_deploys_iff\<close>).
\<close>

section \<open>Properties that span components\<close>

text \<open>The actions the dashboard means to offer: tools, help and usage messages.\<close>

definition tool_action :: "action \<Rightarrow> bool" where
  "tool_action a \<longleftrightarrow>
     (case a of
        KubermetricsMain _ \<Rightarrow> False | RunSupervisor \<Rightarrow> False | DashboardCmd _ \<Rightarrow> False | DaemonMain _ \<Rightarrow> False
      | PrintVersion \<Rightarrow> False | _ \<Rightarrow> True)"

lemma tool_action_simps:
  "tool_action (TopologyCmd as)" "tool_action (RunCmd as)" "tool_action (DagRunCmd as)" "tool_action (ShmCreateCmd as)"
  "tool_action (PerfSampleCmd as)" "tool_action (HugepagesSetCmd as)" "tool_action UsageText" "tool_action (UsageError sub)"
  by (simp_all add: tool_action_def)

lemma two_words_tool: "tool_action (act (tl rest)) \<Longrightarrow> tool_action (two_words sub word rest act)"
  by (simp add: two_words_def tool_action_simps)

lemma allowed_not_flag: "a \<in> set allowedRoots \<Longrightarrow> has_prefix a ''-'' \<Longrightarrow> a = ''-h'' \<or> a = ''--help''"
  by (simp add: allowedRoots_def) (elim disjE; simp add: has_prefix_def)

lemma dispatch_tool: "sub \<in> set allowedRoots \<Longrightarrow> tool_action (dispatch_sub sub rest)"
  by (simp only: allowedRoots_def list.set insert_iff empty_iff) (elim disjE; simp add: dispatch_sub_def two_words_tool tool_action_simps)

text \<open>
  C16. What a command started by the dashboard can reach. The dashboard hands its arguments to the same binary; for every argument
  list its validation accepts, the dispatch of that binary selects one of the tools, the help or a
  usage error, and never the supervisor, the cluster automation, another server or the daemon. One
  of the accepted subcommands, \<^verbatim>\<open>plasma\<close>, is only ever answered with a usage error.
\<close>

theorem dashboard_reaches_tools_only:
  assumes "validateArgv argv = None" and "fold_ascii (trim_suffix (path_base arg0) ''.exe'') \<noteq> ''kubermetrics''"
  shows "tool_action (main_dispatch arg0 argv) \<and> (hd argv = ''plasma'' \<longrightarrow> main_dispatch arg0 argv = UsageError ''plasma'')"
proof -
  have "argv \<noteq> []" and sub: "hd argv \<in> set allowedRoots" using assms(1) by (simp_all add: validateArgv_accepts)
  then have "main_dispatch arg0 argv = dispatch_sub (hd argv) (tl argv)"
    using allowed_not_flag [OF sub] assms(2) by (cases argv) (auto simp: main_dispatch_def dest: looksLike_dash)
  with dispatch_tool [OF sub] show ?thesis by (simp add: dispatch_sub_def)
qed

theorem dashboard_reaches_tools_only_witness:
  "tool_action (main_dispatch ''/usr/bin/nexusflow'' [''plasma'', ''run'']) \<and>
   main_dispatch ''/usr/bin/nexusflow'' [''plasma'', ''run''] = UsageError ''plasma''"
proof -
  have "validateArgv [''plasma'', ''run''] = None" by (simp add: validateArgv_def allowedRoots_def)
  moreover have "fold_ascii (trim_suffix (path_base ''/usr/bin/nexusflow'') ''.exe'') \<noteq> ''kubermetrics''" by code_simp
  ultimately have "tool_action (main_dispatch ''/usr/bin/nexusflow'' [''plasma'', ''run'']) \<and>
      (hd [''plasma'', ''run''] = ''plasma'' \<longrightarrow> main_dispatch ''/usr/bin/nexusflow'' [''plasma'', ''run''] = UsageError ''plasma'')"
    by (rule dashboard_reaches_tools_only)
  then show ?thesis unfolding list.sel by blast
qed

text \<open>
  A node that numactl is bound to has a CPU list file that holds all the CPUs, when every CPU of the snapshot carries the node whose file lists
  it.
\<close>

lemma bound_node_lists:
  assumes "distinct (map fst listing)" and "numa_prefix t cpus pre" and "cpus \<noteq> []"
    and listed: "\<forall>c \<in> set (topo_CPUs t). \<forall>(n, l) \<in> set listing. cpu_ID c \<in> set l \<longrightarrow> cpu_NUMANode c = n"
    and unlisted: "\<forall>c \<in> set (topo_CPUs t). (\<forall>(n, l) \<in> set listing. cpu_ID c \<notin> set l) \<longrightarrow> cpu_NUMANode c = -1"
  shows "pre = [] \<or> (\<exists>nu node l. pre = [nu, ''--cpunodebind='' @ itoa node, ''--membind='' @ itoa node, ''--''] \<and>
    (node, l) \<in> set listing \<and> set cpus \<subseteq> set l)"
proof (cases "pre = []")
  case False
  with assms(2) obtain nu node where p: "pre = [nu, ''--cpunodebind='' @ itoa node, ''--membind='' @ itoa node, ''--'']" "0 \<le> node"
    and all: "\<forall>i \<in> set cpus. \<exists>c \<in> set (topo_CPUs t). cpu_ID c = i \<and> cpu_NUMANode c = node"
    by (auto simp: numa_prefix_def)
  have each: "\<exists>l. (node, l) \<in> set listing \<and> i \<in> set l" if "i \<in> set cpus" for i
  proof -
    from all that obtain c where "c \<in> set (topo_CPUs t)" "cpu_ID c = i" "cpu_NUMANode c = node" by blast
    with listed unlisted p(2) show ?thesis by fastforce
  qed
  obtain i where "i \<in> set cpus" using assms(3) by (cases cpus) auto
  with each obtain l where l: "(node, l) \<in> set listing" by blast
  have "l' = l" if "(node, l') \<in> set listing" for l' using l that assms(1) by (auto dest: eq_key_imp_eq_value)
  with each have "set cpus \<subseteq> set l" by blast
  with p l show ?thesis by blast
qed simp

text \<open>
  C7. \<^verbatim>\<open>nexusflow run\<close> on a real machine, from the files of sysfs to the system calls. If the topology is the one discovered from the files and
  a program is executed, then the command behind \<^verbatim>\<open>--\<close> is what runs, and right before it the process was pinned, with success,
  to the selected CPUs, distinct CPUs of the present list, as many as the flag asks for, except those from 1024 on, for which the mask has no bit: on a
  machine whose CPUs are all below 1024 the mask has as many CPUs as asked for, on a larger one it may have fewer; and if the memory is bound to a node by numactl, then
  that node's own CPU list, as its file has it, holds all of these CPUs.
\<close>

theorem run_on_sysfs:
  assumes "files_parse read" and "read (path_join [sysfsCPU, ''present'']) = Inr raw"
    and "ParseCPUList (trim_space raw) = Some (Inr ids)" and "sysfs_ok ids (node_lists read ents)"
    and "distinct visit" and "set visit = fst ` set (node_lists read ents)"
    and "Discover visit read (Inr ents) = Some found"
    and "runCmd found lookPath sys args = (code, calls)" and "Exec path argv \<in> set calls"
  shows "\<exists>flags cmd fl cpus pre calls0 mask. args = flags @ ''--'' # cmd \<and> parse_run flags = Inr fl \<and> argv = pre @ cmd \<and>
    calls = calls0 @ [SchedSetaffinity mask, Exec path argv] \<and> sys (SchedSetaffinity mask) = None \<and>
    mask = {i \<in> set cpus. i < 1024} \<and> set cpus \<subseteq> set ids \<and>
    card (set cpus) = (if rf_cpus fl \<le> 0 then length ids else min (nat (rf_cpus fl)) (length ids)) \<and>
    ((\<forall>i \<in> set ids. i < 1024) \<longrightarrow>
      card mask = (if rf_cpus fl \<le> 0 then length ids else min (nat (rf_cpus fl)) (length ids))) \<and>
    (pre = [] \<or> (\<exists>nu node l. pre = [nu, ''--cpunodebind='' @ itoa node, ''--membind='' @ itoa node, ''--''] \<and>
      (node, l) \<in> set (node_lists read ents) \<and> set cpus \<subseteq> set l))"
proof -
  let ?nl = "node_lists read ents"
  obtain t where t: "Discover visit read (Inr ents) = Some (Inr t)" and wf: "wf_topology t" and ids: "map cpu_ID (topo_CPUs t) = ids"
    and listed: "\<forall>c \<in> set (topo_CPUs t). \<forall>(n, l) \<in> set ?nl. cpu_ID c \<in> set l \<longrightarrow> cpu_NUMANode c = n"
    and unlisted: "\<forall>c \<in> set (topo_CPUs t). (\<forall>(n, l) \<in> set ?nl. cpu_ID c \<notin> set l) \<longrightarrow> cpu_NUMANode c = -1"
    using Discover_correct [OF assms(1-6)] by blast
  have "found = Inr t" using assms(7) t by simp
  with assms(8) have "runCmd (Inr t :: discover_error + Topology) lookPath sys args = (code, calls)" by (simp only:)
  from runCmd_pins_facts [OF this wf assms(9)] obtain flags cmd fl cpus pre where
    args: "args = flags @ ''--'' # cmd" "parse_run flags = Inr fl" "argv = pre @ cmd"
    and sel: "SelectCPUs t (rf_cpus fl) (if rf_numa fl \<ge> 0 then Some (rf_numa fl) else None) (rf_strategy fl) = Inr cpus" "cpus \<noteq> []"
    and pre: "numa_prefix t cpus pre" and aff: "sys (SchedSetaffinity {i \<in> set cpus. i < 1024}) = None"
    and calls: "\<exists>calls0. calls = calls0 @ [SchedSetaffinity {i \<in> set cpus. i < 1024}, Exec path argv]"
    unfolding affinity_mask_set
    by blast
  have "distinct (map fst ?nl)" using assms(4) by (simp add: sysfs_ok_def)
  note bind = bound_node_lists [OF this pre sel(2) listed unlisted]
  have "allCPUIDs t = sort ids" using ids by (simp add: allCPUIDs_def)
  then have known: "set cpus \<subseteq> set ids" using select.select_known [OF wf sel(1)] by simp
  have full: "(\<forall>i \<in> set ids. i < 1024) \<longrightarrow> {i \<in> set cpus. i < 1024} = set cpus" using known by blast
  have size: "card (set cpus) = (if rf_cpus fl \<le> 0 then length ids else min (nat (rf_cpus fl)) (length ids))"
    using select.select_card [OF wf sel(1)] ids by (auto simp: request_size_def min_def)
  obtain calls0 where c0: "calls = calls0 @ [SchedSetaffinity {i \<in> set cpus. i < 1024}, Exec path argv]" using calls ..
  show ?thesis
  proof (intro exI conjI)
    show "args = flags @ ''--'' # cmd" "parse_run flags = Inr fl" "argv = pre @ cmd" by (fact args)+
    show "calls = calls0 @ [SchedSetaffinity {i \<in> set cpus. i < 1024}, Exec path argv]" by (fact c0)
    show "(\<forall>i \<in> set ids. i < 1024) \<longrightarrow>
        card {i \<in> set cpus. i < 1024} = (if rf_cpus fl \<le> 0 then length ids else min (nat (rf_cpus fl)) (length ids))"
      using full size by metis
  qed (fact refl aff known size bind)+
qed

text \<open>The machine of the discovery example: node 0 has CPU 1, node 1 has CPU 0.\<close>

definition demo_machine :: Topology where
  "demo_machine = \<lparr>topo_CPUs = [\<lparr>cpu_ID = 0, PackageID = 0, CoreID = 0, cpu_NUMANode = 1, Siblings = [0]\<rparr>,
     \<lparr>cpu_ID = 1, PackageID = 0, CoreID = 1, cpu_NUMANode = 0, Siblings = [1]\<rparr>],
   topo_NUMANodes = [\<lparr>node_ID = 0, node_CPUs = [1], Distance = []\<rparr>, \<lparr>node_ID = 1, node_CPUs = [0], Distance = []\<rparr>]\<rparr>"

lemma demo_machine_found: "Discover [0, 1] demo_sysfs (Inr demo_dir) = Some (Inr demo_machine)"
  by code_simp

lemma demo_machine_run:
  "runCmd (Inr demo_machine :: discover_error + Topology) (\<lambda>p. Inr ''/bin/numactl'' :: unit + string) (\<lambda>_. None) [''--cpus=1'', ''--'', ''make''] =
     (0, [SchedSetaffinity {1}, Exec ''/bin/numactl'' [''/bin/numactl'', ''--cpunodebind=0'', ''--membind=0'', ''--'', ''make'']])"
proof -
  have ev: "SelectCPUs demo_machine 1 None ''same-numa'' = Inr [1]" "PrimaryNUMANodeForCPUs (Some demo_machine) [1] = (0, True)"
    "priority_opts ''normal'' = Some \<lparr>Nice = None\<rparr>" "itoa 0 = ''0''" by code_simp+
  have "split_dashes [''--cpus=1'', ''--'', ''make''] = Some ([''--cpus=1''], [''make''])"
    "parse_run [''--cpus=1''] = Inr \<lparr>rf_cpus = 1, rf_numa = -1, rf_strategy = ''same-numa'', rf_priority = ''normal'', rf_membind = True\<rparr>"
    by code_simp+
  then show ?thesis by (simp add: runCmd_def run_with_def ev wrap_numactl_def Run_def CPUSet_Set_def CPU_SETSIZE_def)
qed

theorem run_on_sysfs_witness:
  "\<exists>mask node l. runCmd (Inr demo_machine :: discover_error + Topology) (\<lambda>p. Inr ''/bin/numactl'' :: unit + string) (\<lambda>_. None) [''--cpus=1'', ''--'', ''make''] =
       (0, [SchedSetaffinity mask, Exec ''/bin/numactl'' [''/bin/numactl'', ''--cpunodebind=0'', ''--membind=0'', ''--'', ''make'']]) \<and>
     card mask = 1 \<and> mask \<subseteq> {0, 1} \<and> itoa node = ''0'' \<and> (node, l) \<in> set (node_lists demo_sysfs demo_dir) \<and> mask \<subseteq> set l"
proof -
  let ?argv = "[''/bin/numactl'', ''--cpunodebind=0'', ''--membind=0'', ''--'', ''make'']"
  have fp: "files_parse demo_sysfs" by (auto simp: files_parse_def demo_sysfs_def demo_parses split: if_splits)
  have raw: "demo_sysfs (path_join [sysfsCPU, ''present'']) = Inr ''0-1''" by (simp add: demo_sysfs_def)
  have nl: "node_lists demo_sysfs demo_dir = [(1, [0]), (0, [1])]" by code_simp
  have ok: "sysfs_ok [0, 1] (node_lists demo_sysfs demo_dir)" by (simp add: nl sysfs_ok_def)
  have v: "distinct [0, 1 :: int]" "set [0, 1 :: int] = fst ` set (node_lists demo_sysfs demo_dir)" by (auto simp: nl)
  have ex: "Exec ''/bin/numactl'' ?argv \<in> set [SchedSetaffinity {1}, Exec ''/bin/numactl'' ?argv]" by simp
  obtain flags cmd fl cpus pre calls0 mask where f: "[''--cpus=1'', ''--'', ''make''] = flags @ ''--'' # cmd" "?argv = pre @ cmd"
    and calls: "[SchedSetaffinity {1}, Exec ''/bin/numactl'' ?argv] = calls0 @ [SchedSetaffinity mask, Exec ''/bin/numactl'' ?argv]"
    and mask: "mask = {i \<in> set cpus. i < 1024}" "set cpus \<subseteq> set [0, 1]"
    and pre: "pre = [] \<or> (\<exists>nu node l. pre = [nu, ''--cpunodebind='' @ itoa node, ''--membind='' @ itoa node, ''--''] \<and>
      (node, l) \<in> set (node_lists demo_sysfs demo_dir) \<and> set cpus \<subseteq> set l)"
    using run_on_sysfs [OF fp raw demo_parses(1) ok v demo_machine_found demo_machine_run ex] by blast
  from f(1) have "cmd = [''make'']" by (auto simp: Cons_eq_append_conv)
  with f(2) have "pre = [''/bin/numactl'', ''--cpunodebind=0'', ''--membind=0'', ''--'']" by (auto simp: Cons_eq_append_conv)
  with pre obtain node l where nd: "itoa node = ''0''" "(node, l) \<in> set (node_lists demo_sysfs demo_dir)" "set cpus \<subseteq> set l" by auto
  have "mask = {1}" using calls by (auto simp: Cons_eq_append_conv)
  moreover from this have "{1} \<subseteq> set l" using mask(1) nd(3) by blast
  ultimately show ?thesis using demo_machine_run nd by (intro exI [of _ "{1}"] exI [of _ node] exI [of _ l]) simp
qed

text \<open>
  C22. What the default entry point exposes. Whatever the environment, the dashboard that the supervisor serves has no token, no address filter
  and no TLS, and unless told otherwise it listens on all addresses; so for any client, a POST to the command
  endpoint that asks for \<^verbatim>\<open>run -- cmd\<close> (a command of at most 46 words of at most 4096 bytes, without a null byte) is accepted and the binary is
  started with these arguments; its dispatch, unless the binary is called kubermetrics, takes them to the run command, and where this one can run the
  command at all (\<open>can_run\<close>: the topology is well-formed and has CPUs, the program and, if there is one, numactl are found, and the system
  calls succeed) it executes the client's \<^verbatim>\<open>cmd\<close>, at most behind numactl.
\<close>

theorem default_dashboard_open:
  assumes "runSupervisor senv = (code, acts)" and "ServeDashboard cfg \<in> set acts"
    and "rq_Method r = ''POST''" and "rq_Path r = ''/api/exec''" and "we_decode env (take (2 ^ 20) (rq_Body r)) = Some req"
    and "er_Argv req = ''run'' # ''--'' # cmd" and "cmd \<noteq> []" and "length cmd \<le> 46"
    and "\<forall>a \<in> set cmd. length a \<le> 4096 \<and> CHR 0x00 \<notin> set a"
    and "fold_ascii (trim_suffix (path_base (NexusflowBinary cfg)) ''.exe'') \<noteq> ''kubermetrics''"
  shows "\<exists>serve c. ListenAndServe env cfg = Inr (if sc_Addr cfg = [] then ''127.0.0.1:9842'' else sc_Addr cfg, False, serve) \<and>
    (se_getenv senv ''NEXUSFLOW_DASHBOARD_LISTEN'' = [] \<longrightarrow> sc_Addr cfg = ''0.0.0.0:9842'') \<and>
    snd (fst (serve r)) = [c] \<and> xc_Binary c = NexusflowBinary cfg \<and> xc_Argv c = er_Argv req \<and>
    main_dispatch (xc_Binary c) (xc_Argv c) = RunCmd (''--'' # cmd) \<and> split_dashes (''--'' # cmd) = Some ([], cmd) \<and>
    (can_run t lookPath sys cmd \<longrightarrow>
      (\<exists>mask path pre. runCmd (Inr t :: discover_error + Topology) lookPath sys (''--'' # cmd) = (0, [SchedSetaffinity mask, Exec path (pre @ cmd)]) \<and>
        numa_prefix t (allCPUIDs t) pre \<and> lookPath (hd (pre @ cmd)) = Inr path))"
proof -
  note conf = supervisor_dashboard_config [OF assms(1,2)]
  have empty: "trim_space [] = []" by (rule trim_space_plain) simp
  have nets: "parseAllowedNetworks (AllowedCIDRs cfg) = Inr []" using conf by simp
  have start: "\<exists>serve. ListenAndServe env cfg = Inr (if sc_Addr cfg = [] then ''127.0.0.1:9842'' else sc_Addr cfg, False, serve)"
    using conf empty by (simp add: ListenAndServe_def Let_def)
  then obtain serve where serve: "ListenAndServe env cfg = Inr (if sc_Addr cfg = [] then ''127.0.0.1:9842'' else sc_Addr cfg, False, serve)" by blast
  obtain resp calls where run: "fst (serve r) = (resp, calls)" by fastforce
  have "''run'' \<in> set allowedRoots" by (simp add: allowedRoots_def)
  then have valid: "validateArgv (er_Argv req) = None" using assms(6-9) by (auto simp: validateArgv_accepts)
  have "calls = [\<lparr>xc_Binary = NexusflowBinary cfg, xc_Argv = er_Argv req, xc_Timeout = execDuration (er_TimeoutSec req)\<rparr>]"
    using exec_statuses [OF serve nets assms(3,4) run] conf empty assms(5) valid by (simp add: exec_answer_def)
  moreover have "\<not> looksLikeKubermetricsArgv (''run'' # ''--'' # cmd)" using looksLike_dash [of "''run''"] by (auto simp: has_prefix_def)
  then have "main_dispatch (NexusflowBinary cfg) (''run'' # ''--'' # cmd) = RunCmd (''--'' # cmd)"
    using assms(10) by (simp add: main_dispatch_def dispatch_sub_def)
  moreover have "split_dashes (''--'' # cmd) = Some ([], cmd)" using assms(7) by (simp add: split_dashes_Some)
  moreover have "can_run t lookPath sys cmd \<longrightarrow>
      (\<exists>mask path pre. runCmd (Inr t :: discover_error + Topology) lookPath sys (''--'' # cmd) = (0, [SchedSetaffinity mask, Exec path (pre @ cmd)]) \<and>
        numa_prefix t (allCPUIDs t) pre \<and> lookPath (hd (pre @ cmd)) = Inr path)"
    using runCmd_executes by blast
  ultimately show ?thesis using serve run conf assms(6) by simp
qed

definition open_env :: web_env where
  "open_env = demo_env\<lparr>we_decode := (\<lambda>_. Some \<lparr>er_Argv = [''run'', ''--'', ''sh'', ''-c'', ''id''], er_TimeoutSec = 0\<rparr>)\<rparr>"

lemma open_can_run: "can_run demo_machine (\<lambda>p. Inr (''/bin/'' @ p) :: unit + string) (\<lambda>_. None) [''sh'', ''-c'', ''id'']"
proof -
  have "wf_topology demo_machine" by code_simp
  then show ?thesis by (simp add: can_run_def demo_machine_def)
qed

theorem default_dashboard_open_witness:
  "\<exists>cfg serve c mask path pre. ServeDashboard cfg \<in> set (snd (runSupervisor demo_sup)) \<and> ListenAndServe open_env cfg = Inr (''0.0.0.0:9842'', False, serve) \<and>
     snd (fst (serve (demo_request\<lparr>rq_Authorization := []\<rparr>))) = [c] \<and>
     main_dispatch (xc_Binary c) (xc_Argv c) = RunCmd [''--'', ''sh'', ''-c'', ''id''] \<and>
     runCmd (Inr demo_machine :: discover_error + Topology) (\<lambda>p. Inr (''/bin/'' @ p) :: unit + string) (\<lambda>_. None) [''--'', ''sh'', ''-c'', ''id''] =
       (0, [SchedSetaffinity mask, Exec path (pre @ [''sh'', ''-c'', ''id''])])"
proof -
  let ?cfg = "\<lparr>sc_Addr = ''0.0.0.0:9842'', NexusflowBinary = ''/usr/bin/nexusflow'', TLSCertFile = [], TLSKeyFile = [], AuthToken = [], AllowedCIDRs = []\<rparr>"
  let ?r = "demo_request\<lparr>rq_Authorization := []\<rparr>"
  obtain code acts where sup: "runSupervisor demo_sup = (code, acts)" by fastforce
  then have dash: "ServeDashboard ?cfg \<in> set acts"
    by (auto simp: runSupervisor_def sup_services_def sup_dashboard_def demo_sup_def envOr_def Let_def)
  have post: "rq_Method ?r = ''POST''" "rq_Path ?r = ''/api/exec''" by (simp_all add: demo_request_def)
  have dec: "we_decode open_env (take (2 ^ 20) (rq_Body ?r)) = Some \<lparr>er_Argv = [''run'', ''--'', ''sh'', ''-c'', ''id''], er_TimeoutSec = 0\<rparr>"
    by (simp add: open_env_def)
  have name: "fold_ascii (trim_suffix (path_base (NexusflowBinary ?cfg)) ''.exe'') \<noteq> ''kubermetrics''" by code_simp
  from default_dashboard_open [OF sup dash post dec _ _ _ _ name, of "[''sh'', ''-c'', ''id'']" demo_machine "\<lambda>p. Inr (''/bin/'' @ p) :: unit + string" "\<lambda>_. None"]
  obtain serve c mask path pre where "ListenAndServe open_env ?cfg = Inr (''0.0.0.0:9842'', False, serve)"
    "snd (fst (serve ?r)) = [c]" "main_dispatch (xc_Binary c) (xc_Argv c) = RunCmd [''--'', ''sh'', ''-c'', ''id'']"
    "runCmd (Inr demo_machine :: discover_error + Topology) (\<lambda>p. Inr (''/bin/'' @ p) :: unit + string) (\<lambda>_. None) [''--'', ''sh'', ''-c'', ''id''] =
      (0, [SchedSetaffinity mask, Exec path (pre @ [''sh'', ''-c'', ''id''])])"
    using open_can_run by auto
  with dash sup show ?thesis by fastforce
qed

end
